(* ===== verification/Rasta_Prelude.thy ===== *)
theory Rasta_Prelude
  imports "HOL-Library.Word"
begin

text \<open>
  Shared vocabulary of the development: names for the machine integers of the C code, the
  ways in which a C operation can fail to return normally, a result type that carries those
  failures, the sequencing of statements over a state, and the bounds-checked accesses to
  byte arrays that every component uses. The lemmas are the general facts on lists and words
  that the component proofs share.
\<close>

unbundle bit_operations_syntax

section \<open>Machine integers\<close>

text \<open>
  The target is the LP64 platform the project builds for: \<open>unsigned int\<close> has 32 bits,
  \<open>unsigned long\<close> and \<open>size_t\<close> 64. An \<open>int32_t\<close> is kept as its 32-bit pattern and
  read with \<open>sint\<close>: conversions between \<open>uint32_t\<close> and \<open>int32_t\<close> then keep the bits, as
  the compilers in use do.
\<close>

type_synonym u8 = "8 word"
type_synonym u16 = "16 word"
type_synonym u32 = "32 word"
type_synonym u64 = "64 word"
type_synonym i32 = "32 word"

section \<open>Failures and results\<close>

text \<open>
  \<^item> \<open>Assert_Failed\<close>: the \<open>assert\<close> macro of \<open>common/include/assert.h\<close> found its condition
    false; it prints a line and then runs \<open>while(1);\<close>, so the caller never returns.
  \<^item> \<open>Null_Deref\<close>: a field or an element is accessed through a null pointer.
  \<^item> \<open>Null_Call\<close>: a null function pointer is called.
  \<^item> \<open>Out_Of_Bounds\<close>: an access outside the array a pointer points into.
  \<^item> \<open>Zero_Division\<close>: the remainder of a division by zero.
\<close>

datatype fault = Assert_Failed | Null_Deref | Null_Call | Out_Of_Bounds | Zero_Division

type_synonym 'a outcome = "fault + 'a"

definition bindE :: "'e + 'a \<Rightarrow> ('a \<Rightarrow> 'e + 'b) \<Rightarrow> 'e + 'b" where
  "bindE m f = (case m of Inl e \<Rightarrow> Inl e | Inr x \<Rightarrow> f x)"

text \<open>The \<open>assert\<close> macro: go on when the condition holds, never return otherwise.\<close>

definition assertE :: "bool \<Rightarrow> 'a outcome \<Rightarrow> 'a outcome" where
  "assertE P k = (if P then k else Inl Assert_Failed)"

text \<open>A sequence of statements over one state; the first failure ends it.\<close>

primrec run :: "('s \<Rightarrow> 'e + 's) list \<Rightarrow> 's \<Rightarrow> 'e + 's" where
  "run [] s = Inr s"
| "run (f # fs) s = bindE (f s) (run fs)"

definition returns :: "'e + 'a \<Rightarrow> bool" where
  "returns m = (case m of Inl _ \<Rightarrow> False | Inr _ \<Rightarrow> True)"

lemma bindE_simps [simp]:
  "bindE (Inl e) f = Inl e"
  "bindE (Inr x) f = f x"
  by (simp_all add: bindE_def)

lemma bindE_Inr_iff: "bindE m f = Inr y \<longleftrightarrow> (\<exists>x. m = Inr x \<and> f x = Inr y)"
  by (cases m) auto

lemma bindE_InrE:
  assumes "bindE m f = Inr y"
  obtains x where "m = Inr x" and "f x = Inr y"
  using assms by (auto simp: bindE_Inr_iff)

lemma bindE_assoc: "bindE (bindE m f) g = bindE m (\<lambda>x. bindE (f x) g)"
  by (cases m) auto

lemma bindE_cong: "m = m' \<Longrightarrow> (\<And>x. m' = Inr x \<Longrightarrow> f x = g x) \<Longrightarrow> bindE m f = bindE m' g"
  by (cases m') auto

lemma returns_simps [simp]: "returns (Inr x)" "\<not> returns (Inl e)"
  by (simp_all add: returns_def)

lemma returns_iff: "returns m \<longleftrightarrow> (\<exists>x. m = Inr x)"
  by (cases m) auto

lemma run_append: "run (fs @ gs) s = bindE (run fs s) (run gs)"
proof (induction fs arbitrary: s)
  case Nil
  show ?case by simp
next
  case (Cons f fs)
  then show ?case by (simp add: bindE_assoc cong: bindE_cong)
qed

lemma assertE_True [simp]: "assertE True k = k"
  and assertE_False [simp]: "assertE False k = Inl Assert_Failed"
  by (simp_all add: assertE_def)

section \<open>Byte arrays\<close>

text \<open>One element read or written, and the block copies of \<open>string.h\<close>, each with its bounds.\<close>

definition array_get :: "'a list \<Rightarrow> nat \<Rightarrow> 'a outcome" where
  "array_get xs i = (if i < length xs then Inr (xs ! i) else Inl Out_Of_Bounds)"

definition array_set :: "'a list \<Rightarrow> nat \<Rightarrow> 'a \<Rightarrow> 'a list outcome" where
  "array_set xs i v = (if i < length xs then Inr (xs[i := v]) else Inl Out_Of_Bounds)"

definition overwrite :: "'a list \<Rightarrow> nat \<Rightarrow> 'a list \<Rightarrow> 'a list" where
  "overwrite dst off src = take off dst @ src @ drop (off + length src) dst"

definition memcpy :: "u8 list \<Rightarrow> nat \<Rightarrow> u8 list \<Rightarrow> nat \<Rightarrow> u8 list outcome" where
  "memcpy dst off src n =
     (if off + n \<le> length dst \<and> n \<le> length src then Inr (overwrite dst off (take n src))
      else Inl Out_Of_Bounds)"

definition memset :: "u8 list \<Rightarrow> nat \<Rightarrow> u8 \<Rightarrow> nat \<Rightarrow> u8 list outcome" where
  "memset dst off v n =
     (if off + n \<le> length dst then Inr (overwrite dst off (replicate n v)) else Inl Out_Of_Bounds)"

lemma array_set_ok: "i < length xs \<Longrightarrow> array_set xs i v = Inr (xs[i := v])"
  by (simp add: array_set_def)

lemma array_get_ok: "i < length xs \<Longrightarrow> array_get xs i = Inr (xs ! i)"
  by (simp add: array_get_def)

lemma length_overwrite [simp]: "off + length src \<le> length dst \<Longrightarrow> length (overwrite dst off src) = length dst"
  by (simp add: overwrite_def)

lemma take_overwrite: "off \<le> length dst \<Longrightarrow> take (off + length src) (overwrite dst off src) = take off dst @ src"
  by (simp add: overwrite_def)

lemma drop_overwrite:
  "off + length src \<le> length dst \<Longrightarrow>
   drop (off + length src) (overwrite dst off src) = drop (off + length src) dst"
  by (simp add: overwrite_def)

lemma overwrite_Nil [simp]: "overwrite dst off [] = dst"
  by (simp add: overwrite_def)

lemma overwrite_zero: "overwrite dst 0 src = src @ drop (length src) dst"
  by (simp add: overwrite_def)

lemma overwrite_append:
  "off + length xs \<le> length dst \<Longrightarrow>
   overwrite (overwrite dst off xs) (off + length xs) ys = overwrite dst off (xs @ ys)"
  by (simp add: overwrite_def ac_simps)

lemma overwrite_singleton: "off < length dst \<Longrightarrow> overwrite dst off [v] = dst[off := v]"
  by (simp add: overwrite_def upd_conv_take_nth_drop)

lemma overwrite_snoc:
  "off + length xs < length dst \<Longrightarrow>
   (overwrite dst off xs)[off + length xs := v] = overwrite dst off (xs @ [v])"
  using overwrite_append [of off xs dst "[v]"] by (simp add: overwrite_singleton)

lemma memcpy_ok:
  "off + n \<le> length dst \<Longrightarrow> n \<le> length src \<Longrightarrow> memcpy dst off src n = Inr (overwrite dst off (take n src))"
  by (simp add: memcpy_def)

lemma memset_ok:
  "off + n \<le> length dst \<Longrightarrow> memset dst off v n = Inr (overwrite dst off (replicate n v))"
  by (simp add: memset_def)

section \<open>Words\<close>

lemma unat_bounds:
  "unat a < 256" "unat b < 65536" "unat c < 4294967296" "unat d < 18446744073709551616"
  for a :: u8 and b :: u16 and c :: u32 and d :: u64
  using unsigned_less [of a, where ?'a = nat] unsigned_less [of b, where ?'a = nat]
    unsigned_less [of c, where ?'a = nat] unsigned_less [of d, where ?'a = nat]
  by simp_all

lemma unat_ucast_up:
  "unat (ucast a :: u16) = unat a" "unat (ucast a :: u32) = unat a"
  "unat (ucast b :: u32) = unat b" "unat (ucast b :: u64) = unat b" "unat (ucast c :: u64) = unat c"
  for a :: u8 and b :: u16 and c :: u32
  using unat_bounds(1) [of a] unat_bounds(2) [of b] unat_bounds(3) [of c]
  by (simp_all add: unsigned_ucast_eq take_bit_eq_mod)

lemma unat_ucast_down:
  "unat (ucast d :: u32) = unat d mod 2 ^ 32" "unat (ucast c :: u16) = unat c mod 2 ^ 16"
  "unat (ucast c :: u8) = unat c mod 2 ^ 8"
  for c :: u32 and d :: u64
  by (simp_all add: unsigned_ucast_eq take_bit_eq_mod)

text \<open>Big-endian splitting of 16- and 32-bit values, the wire order of the protocol.\<close>

definition be16 :: "u16 \<Rightarrow> u8 list" where
  "be16 v = [ucast (drop_bit 8 v), ucast v]"

definition be32 :: "u32 \<Rightarrow> u8 list" where
  "be32 v = [ucast (drop_bit 24 v), ucast (drop_bit 16 v), ucast (drop_bit 8 v), ucast v]"

lemma length_be16 [simp]: "length (be16 v) = 2"
  and length_be32 [simp]: "length (be32 w) = 4"
  by (simp_all add: be16_def be32_def)

lemma join_be16: "push_bit 8 (ucast (ucast (drop_bit 8 v) :: u8)) OR ucast (ucast v :: u8) = (v :: u16)"
  by (rule bit_word_eqI) (auto simp: bit_simps)

lemma join_be32:
  "push_bit 24 (ucast (ucast (drop_bit 24 v) :: u8)) OR push_bit 16 (ucast (ucast (drop_bit 16 v) :: u8)) OR
   push_bit 8 (ucast (ucast (drop_bit 8 v) :: u8)) OR ucast (ucast v :: u8) = (v :: u32)"
  (is "?joined = _")
proof (rule bit_word_eqI)
  fix n
  assume "n < LENGTH(32)"
  then consider "n < 8" | "8 \<le> n" "n - 8 < 8" "n < 16" | "16 \<le> n" "n - 16 < 8" "n < 24" "\<not> n - 8 < 8"
    | "24 \<le> n" "n - 24 < 8" "\<not> n - 16 < 8" "\<not> n - 8 < 8"
    by fastforce
  then show "bit ?joined n = bit v n"
    using \<open>n < LENGTH(32)\<close> by cases (simp_all add: bit_simps)
qed

lemma be16_inject:
  assumes "be16 v = be16 w"
  shows "v = w"
proof -
  from assms have "ucast (drop_bit 8 v) = (ucast (drop_bit 8 w) :: u8)" and "ucast v = (ucast w :: u8)"
    by (simp_all add: be16_def)
  then show ?thesis
    by (metis join_be16)
qed

lemma be32_inject:
  assumes "be32 v = be32 w"
  shows "v = w"
proof -
  from assms have "ucast (drop_bit 24 v) = (ucast (drop_bit 24 w) :: u8)"
      and "ucast (drop_bit 16 v) = (ucast (drop_bit 16 w) :: u8)"
      and "ucast (drop_bit 8 v) = (ucast (drop_bit 8 w) :: u8)"
      and "ucast v = (ucast w :: u8)"
    by (simp_all add: be32_def)
  then show ?thesis
    by (metis join_be32)
qed

end
