(* ===== verification/Log.thy ===== *)
theory Log
  imports Rasta_Prelude
begin

text \<open>
  Logging: \<open>common/src/log.c\<close> keeps the level, the macros of \<open>common/include/log.h\<close> write a line to
  \<open>stderr\<close>. A line has the local time, the name of the source file without its directories, the
  line number, the level and the message; the message is given as \<open>fprintf\<close> expands it.
\<close>

section \<open>The level\<close>

datatype LogLevel = LOG_DEBUG | LOG_INFO | LOG_WARNING | LOG_ERROR

text \<open>The enumerators are compared by their values.\<close>

fun level_value :: "LogLevel \<Rightarrow> nat" where
  "level_value LOG_DEBUG = 0"
| "level_value LOG_INFO = 1"
| "level_value LOG_WARNING = 2"
| "level_value LOG_ERROR = 3"

lemma level_value_inject: "level_value a = level_value b \<longleftrightarrow> a = b"
  by (cases a; cases b) simp_all

instantiation LogLevel :: linorder
begin

definition less_eq_LogLevel :: "LogLevel \<Rightarrow> LogLevel \<Rightarrow> bool" where
  "less_eq_LogLevel a b \<longleftrightarrow> level_value a \<le> level_value b"

definition less_LogLevel :: "LogLevel \<Rightarrow> LogLevel \<Rightarrow> bool" where
  "less_LogLevel a b \<longleftrightarrow> level_value a < level_value b"

instance
  by standard (auto simp: less_eq_LogLevel_def less_LogLevel_def level_value_inject)

end

text \<open>The static level of \<open>log.c\<close> and what has been written to \<open>stderr\<close>, line by line.\<close>

record log_state =
  LOG_LEVEL_FILTER :: LogLevel
  stderr :: "string list"

definition log_initial :: log_state where
  "log_initial = \<lparr>LOG_LEVEL_FILTER = LOG_DEBUG, stderr = []\<rparr>"

definition get_loglevel_filter :: "log_state \<Rightarrow> LogLevel" where
  "get_loglevel_filter st = LOG_LEVEL_FILTER st"

definition set_loglevel_filter :: "LogLevel \<Rightarrow> log_state \<Rightarrow> log_state" where
  "set_loglevel_filter level st = st\<lparr>LOG_LEVEL_FILTER := level\<rparr>"

section \<open>The time and the file name\<close>

definition digit :: "nat \<Rightarrow> char" where
  "digit n = char_of (48 + n)"

fun show_nat :: "nat \<Rightarrow> string" where
  "show_nat n = (if n < 10 then [digit n] else show_nat (n div 10) @ [digit (n mod 10)])"

declare show_nat.simps [simp del]

definition show_int :: "int \<Rightarrow> string" where
  "show_int i = (if i < 0 then CHR ''-'' # show_nat (nat (- i)) else show_nat (nat i))"

definition two_digits :: "nat \<Rightarrow> string" where
  "two_digits n = [digit (n div 10), digit (n mod 10)]"

text \<open>The fields of \<open>struct tm\<close> that are printed, as \<open>localtime\<close> fills them in.\<close>

record tm =
  tm_sec :: nat
  tm_min :: nat
  tm_hour :: nat
  tm_mday :: nat
  tm_mon :: nat
  tm_year :: int

text \<open>\<open>"%Y-%m-%d %H:%M:%S"\<close>\<close>

definition time_text :: "tm \<Rightarrow> string" where
  "time_text t = show_int (tm_year t + 1900) @ ''-'' @ two_digits (tm_mon t + 1) @ ''-'' @ two_digits (tm_mday t) @
     '' '' @ two_digits (tm_hour t) @ '':'' @ two_digits (tm_min t) @ '':'' @ two_digits (tm_sec t)"

text \<open>
  \<open>None\<close> where the behaviour is undefined: \<open>localtime\<close> gave a null pointer, or the text and its
  zero byte do not fit the array of 20 bytes, whose contents are then indeterminate.
\<close>

definition current_time_str :: "tm option \<Rightarrow> string option" where
  "current_time_str now = (case now of None \<Rightarrow> None
     | Some t \<Rightarrow> if length (time_text t) + 1 \<le> 20 then Some (time_text t) else None)"

text \<open>The text from the last occurrence of the character on.\<close>

fun strrchr :: "string \<Rightarrow> char \<Rightarrow> string option" where
  "strrchr [] c = None"
| "strrchr (x # xs) c = (case strrchr xs c of Some s \<Rightarrow> Some s | None \<Rightarrow> if x = c then Some (x # xs) else None)"

definition FILENAME :: "string \<Rightarrow> string" where
  "FILENAME path = (case strrchr path (CHR ''/'') of Some s \<Rightarrow> tl s | None \<Rightarrow> path)"

section \<open>The macros\<close>

definition LOG :: "LogLevel \<Rightarrow> string \<Rightarrow> string \<Rightarrow> nat \<Rightarrow> tm option \<Rightarrow> log_state \<Rightarrow> log_state option" where
  "LOG level message path line now st =
     (if level \<ge> get_loglevel_filter st
      then case current_time_str now of None \<Rightarrow> None
        | Some time \<Rightarrow> Some (st\<lparr>stderr := stderr st @
            [''['' @ time @ ''] '' @ FILENAME path @ '':'' @ show_nat line @ '': '' @ message]\<rparr>)
      else Some st)"

text \<open>Each level has a macro, which puts its name before the message.\<close>

fun level_name :: "LogLevel \<Rightarrow> string" where
  "level_name LOG_DEBUG = ''DEBUG: ''"
| "level_name LOG_INFO = ''INFO: ''"
| "level_name LOG_WARNING = ''WARNING: ''"
| "level_name LOG_ERROR = ''ERROR: ''"

definition log_at :: "LogLevel \<Rightarrow> string \<Rightarrow> string \<Rightarrow> nat \<Rightarrow> tm option \<Rightarrow> log_state \<Rightarrow> log_state option" where
  "log_at level message = LOG level (level_name level @ message)"

definition TRACE_ENTRY :: "string \<Rightarrow> string \<Rightarrow> nat \<Rightarrow> tm option \<Rightarrow> log_state \<Rightarrow> log_state option" where
  "TRACE_ENTRY = log_at LOG_INFO"

section \<open>Properties\<close>

lemma strrchr_None: "strrchr xs c = None \<longleftrightarrow> c \<notin> set xs"
  by (induction xs) (auto split: option.splits)

lemma strrchr_Some: "strrchr xs c = Some s \<Longrightarrow> \<exists>d. xs = d @ s \<and> s \<noteq> [] \<and> hd s = c \<and> c \<notin> set (tl s)"
proof (induction xs)
  case (Cons x xs)
  show ?case
  proof (cases "strrchr xs c")
    case None
    then have "c \<notin> set xs" by (simp add: strrchr_None)
    then show ?thesis using Cons.prems None by (auto split: if_splits)
  next
    case (Some s')
    then show ?thesis using Cons by (auto intro: exI [of _ "x # d" for d])
  qed
qed simp

lemma FILENAME_split:
  obtains dir where "path = dir @ FILENAME path" and "CHR ''/'' \<notin> set (FILENAME path)"
    and "dir = [] \<or> last dir = CHR ''/''"
proof (cases "strrchr path (CHR ''/'')")
  case None
  then show thesis using that [of "[]"] strrchr_None [of path "CHR ''/''"] by (simp add: FILENAME_def)
next
  case (Some s)
  then obtain d where "path = d @ s" "s \<noteq> []" "hd s = CHR ''/''" "CHR ''/'' \<notin> set (tl s)"
    using strrchr_Some by blast
  then show thesis using that [of "d @ [CHR ''/'']"] Some by (cases s) (auto simp: FILENAME_def)
qed

lemma length_show_nat: "0 < k \<Longrightarrow> length (show_nat n) \<le> k \<longleftrightarrow> n < 10 ^ k"
proof (induction n arbitrary: k rule: show_nat.induct)
  case (1 n)
  show ?case
  proof (cases "n < 10")
    case True
    then have "n < 10 ^ k" using 1(2) self_le_power [of "10 :: nat" k] by linarith
    with True 1(2) show ?thesis by (simp add: show_nat.simps [of n])
  next
    case False
    show ?thesis
    proof (cases "k = 1")
      case True
      then show ?thesis using False by (simp add: show_nat.simps [of n] show_nat.simps [of "n div 10"])
    next
      case k: False
      then obtain j where j: "k = Suc j" "0 < j" using 1(2) by (cases k) auto
      have "n div 10 < 10 ^ j \<longleftrightarrow> n < 10 ^ k" by (simp add: j(1) div_less_iff_less_mult mult.commute)
      with 1(1) [OF False j(2)] show ?thesis using False by (simp add: show_nat.simps [of n] j(1))
    qed
  qed
qed

lemma time_fits_iff: "length (time_text t) + 1 \<le> 20 \<longleftrightarrow> - 999 \<le> tm_year t + 1900 \<and> tm_year t + 1900 \<le> 9999"
proof -
  have "length (time_text t) + 1 \<le> 20 \<longleftrightarrow> length (show_int (tm_year t + 1900)) \<le> 4"
    by (simp add: time_text_def two_digits_def)
  also have "\<dots> \<longleftrightarrow> - 999 \<le> tm_year t + 1900 \<and> tm_year t + 1900 \<le> 9999"
    using length_show_nat [of 4 "nat (tm_year t + 1900)"] length_show_nat [of 3 "nat (- (tm_year t + 1900))"]
    by (auto simp: show_int_def)
  finally show ?thesis .
qed

text \<open>A use of one of the macros: level, message, file, line and local time.\<close>

datatype entry = Entry (entry_level: LogLevel) (entry_text: string) (entry_path: string) (entry_line: nat) (entry_time: tm)

fun log_all :: "entry list \<Rightarrow> log_state \<Rightarrow> log_state option" where
  "log_all [] st = Some st"
| "log_all (e # es) st =
     (case log_at (entry_level e) (entry_text e) (entry_path e) (entry_line e) (Some (entry_time e)) st of
        None \<Rightarrow> None | Some st \<Rightarrow> log_all es st)"

definition written :: "entry \<Rightarrow> string" where
  "written e = ''['' @ time_text (entry_time e) @ ''] '' @ FILENAME (entry_path e) @ '':'' @
     show_nat (entry_line e) @ '': '' @ level_name (entry_level e) @ entry_text e"

definition printable :: "tm \<Rightarrow> bool" where
  "printable t \<longleftrightarrow> - 999 \<le> tm_year t + 1900 \<and> tm_year t + 1900 \<le> 9999"

lemma current_time_printable: "current_time_str (Some t) = (if printable t then Some (time_text t) else None)"
  by (simp only: current_time_str_def option.case time_fits_iff printable_def)

lemma log_at_written:
  "log_at (entry_level e) (entry_text e) (entry_path e) (entry_line e) (Some (entry_time e)) st =
     (if LOG_LEVEL_FILTER st \<le> entry_level e
      then if printable (entry_time e) then Some (st\<lparr>stderr := stderr st @ [written e]\<rparr>) else None
      else Some st)"
  by (simp add: log_at_def LOG_def get_loglevel_filter_def current_time_printable written_def)

lemma log_all_written:
  "list_all (\<lambda>e. LOG_LEVEL_FILTER st \<le> entry_level e \<longrightarrow> printable (entry_time e)) es \<Longrightarrow>
   log_all es st = Some (st\<lparr>stderr := stderr st @
     map written (List.filter (\<lambda>e. LOG_LEVEL_FILTER st \<le> entry_level e) es)\<rparr>)"
  by (induction es arbitrary: st) (simp_all add: log_at_written)

text \<open>
  C40. What is logged: after the level has been set, any sequence of log calls writes exactly the
  lines of the calls of that level or above, in their order, and keeps the level, as long as the
  years printed have at most four characters. Of the path of a file, what is behind the last
  slash is printed.
\<close>

theorem log_writes_levels:
  assumes "list_all (\<lambda>e. least \<le> entry_level e \<longrightarrow> printable (entry_time e)) es"
  shows "log_all es (set_loglevel_filter least st) = Some (st\<lparr>LOG_LEVEL_FILTER := least,
      stderr := stderr st @ map written (List.filter (\<lambda>e. least \<le> entry_level e) es)\<rparr>) \<and>
    (\<exists>dir. path = dir @ FILENAME path \<and> CHR ''/'' \<notin> set (FILENAME path) \<and> (dir = [] \<or> last dir = CHR ''/''))"
proof
  show "log_all es (set_loglevel_filter least st) = Some (st\<lparr>LOG_LEVEL_FILTER := least,
      stderr := stderr st @ map written (List.filter (\<lambda>e. least \<le> entry_level e) es)\<rparr>)"
    using log_all_written [of "set_loglevel_filter least st" es] assms by (simp add: set_loglevel_filter_def)
  show "\<exists>dir. path = dir @ FILENAME path \<and> CHR ''/'' \<notin> set (FILENAME path) \<and> (dir = [] \<or> last dir = CHR ''/'')"
    by (rule FILENAME_split [of path]) blast
qed

definition sample_tm :: tm where
  "sample_tm = \<lparr>tm_sec = 59, tm_min = 58, tm_hour = 23, tm_mday = 1, tm_mon = 1, tm_year = 124\<rparr>"

theorem log_writes_levels_witness:
  "log_all [Entry LOG_INFO ''up'' ''src/sm.c'' 730 sample_tm, Entry LOG_ERROR ''lost'' ''src/sm.c'' 42 sample_tm]
     (set_loglevel_filter LOG_WARNING log_initial) =
   Some \<lparr>LOG_LEVEL_FILTER = LOG_WARNING, stderr = [''[2024-02-01 23:58:59] sm.c:42: ERROR: lost'']\<rparr>"
proof -
  let ?es = "[Entry LOG_INFO ''up'' ''src/sm.c'' 730 sample_tm, Entry LOG_ERROR ''lost'' ''src/sm.c'' 42 sample_tm]"
  have "list_all (\<lambda>e. LOG_WARNING \<le> entry_level e \<longrightarrow> printable (entry_time e)) ?es"
    by (simp add: printable_def sample_tm_def)
  from log_writes_levels [OF this, of log_initial]
  have "log_all ?es (set_loglevel_filter LOG_WARNING log_initial) =
      Some (log_initial\<lparr>LOG_LEVEL_FILTER := LOG_WARNING, stderr := stderr log_initial @
        map written (List.filter (\<lambda>e. LOG_WARNING \<le> entry_level e) ?es)\<rparr>)" by (rule conjunct1)
  also have "\<dots> = Some \<lparr>LOG_LEVEL_FILTER = LOG_WARNING, stderr = [''[2024-02-01 23:58:59] sm.c:42: ERROR: lost'']\<rparr>"
    by code_simp
  finally show ?thesis .
qed

end
