(* ===== verification/Md4.thy ===== *)
theory Md4
  imports Rasta_Prelude
begin

text \<open>
  The MD4 implementation of \<open>safecom/src/md4.c\<close>: the basic functions and the \<open>STEP\<close> macro,
  the block transformation \<open>body\<close>, and the streaming interface \<open>MD4_Init\<close>, \<open>MD4_Update\<close>,
  \<open>MD4_Final\<close> over the context of \<open>md4.h\<close>. A \<open>const void *\<close> argument is the list of the
  bytes that can be read from it on. The branch of \<open>SET\<close>/\<open>GET\<close> is the one an x86 build takes, which
  leaves the field \<open>block\<close> alone; \<open>Md4_Portable\<close> has the other branch and the proof that it
  computes the same.
\<close>

section \<open>Basic functions\<close>

definition md4_F :: "u32 \<Rightarrow> u32 \<Rightarrow> u32 \<Rightarrow> u32" where
  "md4_F x y z = z XOR (x AND (y XOR z))"

definition md4_G :: "u32 \<Rightarrow> u32 \<Rightarrow> u32 \<Rightarrow> u32" where
  "md4_G x y z = (x AND (y OR z)) OR (y AND z)"

definition md4_H :: "u32 \<Rightarrow> u32 \<Rightarrow> u32 \<Rightarrow> u32" where
  "md4_H x y z = x XOR y XOR z"

text \<open>The value \<open>STEP\<close> leaves in its first register argument.\<close>

definition STEP :: "(u32 \<Rightarrow> u32 \<Rightarrow> u32 \<Rightarrow> u32) \<Rightarrow> u32 \<Rightarrow> u32 \<Rightarrow> u32 \<Rightarrow> u32 \<Rightarrow> u32 \<Rightarrow> nat \<Rightarrow> u32" where
  "STEP f a b c d x s =
     (let a = a + (f b c d + x)
      in push_bit s a OR drop_bit (32 - s) (a AND 0xffffffff))"

text \<open>
  \<open>SET(n)\<close> and \<open>GET(n)\<close>: the 32-bit load at \<open>&ptr[n * 4]\<close> on a little-endian machine, and
  the shifts and ors of the portable branch.
\<close>

definition load_le32 :: "u8 list \<Rightarrow> nat \<Rightarrow> u32" where
  "load_le32 ptr i =
     word_of_nat (unat (ptr ! i) + 256 * unat (ptr ! (i + 1)) + 65536 * unat (ptr ! (i + 2)) +
                  16777216 * unat (ptr ! (i + 3)))"

definition SET :: "u8 list \<Rightarrow> nat \<Rightarrow> u32" where
  "SET ptr n = load_le32 ptr (n * 4)"

definition SET_portable :: "u8 list \<Rightarrow> nat \<Rightarrow> u32" where
  "SET_portable ptr n =
     ucast (ptr ! (n * 4)) OR push_bit 8 (ucast (ptr ! (n * 4 + 1))) OR
     push_bit 16 (ucast (ptr ! (n * 4 + 2))) OR push_bit 24 (ucast (ptr ! (n * 4 + 3)))"

section \<open>The block transformation\<close>

type_synonym registers = "u32 \<times> u32 \<times> u32 \<times> u32"

definition md4_round1 :: "u8 list \<Rightarrow> registers \<Rightarrow> registers" where
  "md4_round1 ptr = (\<lambda>(a, b, c, d).
     let a = STEP md4_F a b c d (SET ptr 0) 3;
         d = STEP md4_F d a b c (SET ptr 1) 7;
         c = STEP md4_F c d a b (SET ptr 2) 11;
         b = STEP md4_F b c d a (SET ptr 3) 19;
         a = STEP md4_F a b c d (SET ptr 4) 3;
         d = STEP md4_F d a b c (SET ptr 5) 7;
         c = STEP md4_F c d a b (SET ptr 6) 11;
         b = STEP md4_F b c d a (SET ptr 7) 19;
         a = STEP md4_F a b c d (SET ptr 8) 3;
         d = STEP md4_F d a b c (SET ptr 9) 7;
         c = STEP md4_F c d a b (SET ptr 10) 11;
         b = STEP md4_F b c d a (SET ptr 11) 19;
         a = STEP md4_F a b c d (SET ptr 12) 3;
         d = STEP md4_F d a b c (SET ptr 13) 7;
         c = STEP md4_F c d a b (SET ptr 14) 11;
         b = STEP md4_F b c d a (SET ptr 15) 19
     in (a, b, c, d))"

definition ac1 :: u32 where "ac1 = 0x5a827999"
definition ac2 :: u32 where "ac2 = 0x6ed9eba1"

definition md4_round2 :: "u8 list \<Rightarrow> registers \<Rightarrow> registers" where
  "md4_round2 ptr = (\<lambda>(a, b, c, d).
     let a = STEP md4_G a b c d (SET ptr 0 + ac1) 3;
         d = STEP md4_G d a b c (SET ptr 4 + ac1) 5;
         c = STEP md4_G c d a b (SET ptr 8 + ac1) 9;
         b = STEP md4_G b c d a (SET ptr 12 + ac1) 13;
         a = STEP md4_G a b c d (SET ptr 1 + ac1) 3;
         d = STEP md4_G d a b c (SET ptr 5 + ac1) 5;
         c = STEP md4_G c d a b (SET ptr 9 + ac1) 9;
         b = STEP md4_G b c d a (SET ptr 13 + ac1) 13;
         a = STEP md4_G a b c d (SET ptr 2 + ac1) 3;
         d = STEP md4_G d a b c (SET ptr 6 + ac1) 5;
         c = STEP md4_G c d a b (SET ptr 10 + ac1) 9;
         b = STEP md4_G b c d a (SET ptr 14 + ac1) 13;
         a = STEP md4_G a b c d (SET ptr 3 + ac1) 3;
         d = STEP md4_G d a b c (SET ptr 7 + ac1) 5;
         c = STEP md4_G c d a b (SET ptr 11 + ac1) 9;
         b = STEP md4_G b c d a (SET ptr 15 + ac1) 13
     in (a, b, c, d))"

definition md4_round3 :: "u8 list \<Rightarrow> registers \<Rightarrow> registers" where
  "md4_round3 ptr = (\<lambda>(a, b, c, d).
     let a = STEP md4_H a b c d (SET ptr 0 + ac2) 3;
         d = STEP md4_H d a b c (SET ptr 8 + ac2) 9;
         c = STEP md4_H c d a b (SET ptr 4 + ac2) 11;
         b = STEP md4_H b c d a (SET ptr 12 + ac2) 15;
         a = STEP md4_H a b c d (SET ptr 2 + ac2) 3;
         d = STEP md4_H d a b c (SET ptr 10 + ac2) 9;
         c = STEP md4_H c d a b (SET ptr 6 + ac2) 11;
         b = STEP md4_H b c d a (SET ptr 14 + ac2) 15;
         a = STEP md4_H a b c d (SET ptr 1 + ac2) 3;
         d = STEP md4_H d a b c (SET ptr 9 + ac2) 9;
         c = STEP md4_H c d a b (SET ptr 5 + ac2) 11;
         b = STEP md4_H b c d a (SET ptr 13 + ac2) 15;
         a = STEP md4_H a b c d (SET ptr 3 + ac2) 3;
         d = STEP md4_H d a b c (SET ptr 11 + ac2) 9;
         c = STEP md4_H c d a b (SET ptr 7 + ac2) 11;
         b = STEP md4_H b c d a (SET ptr 15 + ac2) 15
     in (a, b, c, d))"

text \<open>One turn of the loop of \<open>body\<close>, and the loop with its 64-bit counter.\<close>

definition md4_block :: "u8 list \<Rightarrow> registers \<Rightarrow> registers" where
  "md4_block ptr = (\<lambda>(a, b, c, d).
     let (saved_a, saved_b, saved_c, saved_d) = (a, b, c, d);
         (a, b, c, d) = md4_round3 ptr (md4_round2 ptr (md4_round1 ptr (a, b, c, d)))
     in (a + saved_a, b + saved_b, c + saved_c, d + saved_d))"

function body_loop :: "registers \<Rightarrow> u8 list \<Rightarrow> u64 \<Rightarrow> (registers \<times> u8 list) outcome" where
  "body_loop abcd ptr sz =
     (if length ptr < 64 then Inl Out_Of_Bounds
      else let abcd = md4_block ptr abcd;
               ptr = drop 64 ptr;
               sz = sz - 64
           in if sz \<noteq> 0 then body_loop abcd ptr sz else Inr (abcd, ptr))"
  by pat_completeness auto
termination
  by (relation "measure (\<lambda>(abcd, ptr, sz). length ptr)") auto

declare body_loop.simps [simp del]

record MD4_CTX =
  md_lo :: u32
  md_hi :: u32
  md_a :: u32
  md_b :: u32
  md_c :: u32
  md_d :: u32
  md_buffer :: "u8 list"
  md_block :: "u32 list"

definition registers_of :: "MD4_CTX \<Rightarrow> registers" where
  "registers_of ctx = (md_a ctx, md_b ctx, md_c ctx, md_d ctx)"

definition body :: "MD4_CTX \<Rightarrow> u8 list \<Rightarrow> u64 \<Rightarrow> (MD4_CTX \<times> u8 list) outcome" where
  "body ctx data sz =
     bindE (body_loop (registers_of ctx) data sz) (\<lambda>((a, b, c, d), ptr).
       Inr (ctx\<lparr>md_a := a, md_b := b, md_c := c, md_d := d\<rparr>, ptr))"

section \<open>The streaming interface\<close>

definition MD4_Init :: "MD4_CTX \<Rightarrow> MD4_CTX" where
  "MD4_Init ctx = ctx\<lparr>md_a := 0x67452301, md_b := 0xefcdab89, md_c := 0x98badcfe,
                      md_d := 0x10325476, md_lo := 0, md_hi := 0\<rparr>"

text \<open>The bit counter: \<open>saved_lo + size\<close> and \<open>size >> 29\<close> are computed in 64 bits.\<close>

definition MD4_count :: "MD4_CTX \<Rightarrow> u64 \<Rightarrow> MD4_CTX" where
  "MD4_count ctx sz =
     (let saved_lo = md_lo ctx;
          lo = ucast ((ucast saved_lo + sz) AND 0x1fffffff);
          hi = (if lo < saved_lo then md_hi ctx + 1 else md_hi ctx);
          hi = ucast (ucast hi + drop_bit 29 sz)
      in ctx\<lparr>md_lo := lo, md_hi := hi\<rparr>)"

text \<open>
  The end of \<open>MD4_Update\<close>: whole blocks straight from \<open>data\<close>, the rest into the buffer.
\<close>

definition MD4_tail :: "MD4_CTX \<Rightarrow> u8 list \<Rightarrow> u64 \<Rightarrow> MD4_CTX outcome" where
  "MD4_tail ctx data sz =
     bindE (if 64 \<le> sz
            then bindE (body ctx data (sz AND NOT 0x3f)) (\<lambda>(ctx, data).
                   Inr (ctx, data, sz AND 0x3f))
            else Inr (ctx, data, sz)) (\<lambda>(ctx, data, sz).
       bindE (memcpy (md_buffer ctx) 0 data (unat sz)) (\<lambda>buf.
         Inr (ctx\<lparr>md_buffer := buf\<rparr>)))"

definition MD4_Update :: "MD4_CTX \<Rightarrow> u8 list \<Rightarrow> u64 \<Rightarrow> MD4_CTX outcome" where
  "MD4_Update ctx data sz =
     (let saved_lo = md_lo ctx;
          ctx = MD4_count ctx sz;
          used = unat (saved_lo AND 0x3f)
      in if used \<noteq> 0
         then let available = 64 - used
              in if unat sz < available
                 then bindE (memcpy (md_buffer ctx) used data (unat sz)) (\<lambda>buf.
                        Inr (ctx\<lparr>md_buffer := buf\<rparr>))
                 else bindE (memcpy (md_buffer ctx) used data available) (\<lambda>buf.
                        bindE (body (ctx\<lparr>md_buffer := buf\<rparr>) buf 64) (\<lambda>(ctx, _).
                          MD4_tail ctx (drop available data) (sz - word_of_nat available)))
         else MD4_tail ctx data sz)"

definition OUT :: "u32 \<Rightarrow> u8 list" where
  "OUT src = [ucast src, ucast (drop_bit 8 src), ucast (drop_bit 16 src), ucast (drop_bit 24 src)]"

definition zero_ctx :: "MD4_CTX" where
  "zero_ctx = \<lparr>md_lo = 0, md_hi = 0, md_a = 0, md_b = 0, md_c = 0, md_d = 0,
               md_buffer = replicate 64 0, md_block = replicate 16 0\<rparr>"

text \<open>The padding of \<open>MD4_Final\<close>, up to the point where eight bytes are left for the length.\<close>

definition MD4_pad :: "MD4_CTX \<Rightarrow> MD4_CTX outcome" where
  "MD4_pad ctx =
     (let used = unat (md_lo ctx AND 0x3f)
      in bindE (array_set (md_buffer ctx) used 0x80) (\<lambda>buf.
           let used = used + 1;
               available = 64 - used;
               ctx = ctx\<lparr>md_buffer := buf\<rparr>
           in bindE (if available < 8
                     then bindE (memset (md_buffer ctx) used 0 available) (\<lambda>buf.
                            bindE (body (ctx\<lparr>md_buffer := buf\<rparr>) buf 64) (\<lambda>(ctx, _).
                              Inr (ctx, 0, 64)))
                     else Inr (ctx, used, available)) (\<lambda>(ctx, used, available).
                bindE (memset (md_buffer ctx) used 0 (available - 8)) (\<lambda>buf.
                  Inr (ctx\<lparr>md_buffer := buf\<rparr>)))))"

text \<open>\<open>MD4_Final\<close> returns the sixteen bytes it stores in \<open>result\<close> and the wiped context.\<close>

definition MD4_Final :: "MD4_CTX \<Rightarrow> (u8 list \<times> MD4_CTX) outcome" where
  "MD4_Final ctx =
     bindE (MD4_pad ctx) (\<lambda>ctx.
       let ctx = ctx\<lparr>md_lo := push_bit 3 (md_lo ctx)\<rparr>
       in bindE (memcpy (md_buffer ctx) 56 (OUT (md_lo ctx)) 4) (\<lambda>buf.
          bindE (memcpy buf 60 (OUT (md_hi ctx)) 4) (\<lambda>buf.
          bindE (body (ctx\<lparr>md_buffer := buf\<rparr>) buf 64) (\<lambda>(ctx, _).
            Inr (OUT (md_a ctx) @ OUT (md_b ctx) @ OUT (md_c ctx) @ OUT (md_d ctx), zero_ctx)))))"

end
