(* ===== verification/Md4_Reference.thy ===== *)
theory Md4_Reference
  imports Md4
begin

text \<open>
  The MD4 message digest as RFC 1320 states it (padding, three rounds driven by tables of word
  indices and shift amounts, little-endian output), the interface of a streaming digest as a
  locale, and the proof that \<open>md4.c\<close> provides it: however a message is cut into calls of
  \<open>MD4_Update\<close>, \<open>MD4_Final\<close> yields the digest of the whole message.
\<close>

section \<open>RFC 1320\<close>

definition rfc_F :: "u32 \<Rightarrow> u32 \<Rightarrow> u32 \<Rightarrow> u32" where
  "rfc_F x y z = (x AND y) OR (NOT x AND z)"

definition rfc_G :: "u32 \<Rightarrow> u32 \<Rightarrow> u32 \<Rightarrow> u32" where
  "rfc_G x y z = (x AND y) OR (x AND z) OR (y AND z)"

definition rfc_H :: "u32 \<Rightarrow> u32 \<Rightarrow> u32 \<Rightarrow> u32" where
  "rfc_H x y z = x XOR y XOR z"

text \<open>One operation \<open>[ABCD k s]\<close>; the four registers move on by one place after it.\<close>

fun rfc_step :: "(u32 \<Rightarrow> u32 \<Rightarrow> u32 \<Rightarrow> u32) \<Rightarrow> u32 \<Rightarrow> (nat \<Rightarrow> u32) \<Rightarrow> nat \<times> nat \<Rightarrow> registers \<Rightarrow> registers" where
  "rfc_step f t X (k, s) (a, b, c, d) = (d, word_rotl s (a + f b c d + X k + t), b, c)"

definition rfc_round1 :: "(nat \<times> nat) list" where
  "rfc_round1 = [(0,3),(1,7),(2,11),(3,19),(4,3),(5,7),(6,11),(7,19),
                 (8,3),(9,7),(10,11),(11,19),(12,3),(13,7),(14,11),(15,19)]"

definition rfc_round2 :: "(nat \<times> nat) list" where
  "rfc_round2 = [(0,3),(4,5),(8,9),(12,13),(1,3),(5,5),(9,9),(13,13),
                 (2,3),(6,5),(10,9),(14,13),(3,3),(7,5),(11,9),(15,13)]"

definition rfc_round3 :: "(nat \<times> nat) list" where
  "rfc_round3 = [(0,3),(8,9),(4,11),(12,15),(2,3),(10,9),(6,11),(14,15),
                 (1,3),(9,9),(5,11),(13,15),(3,3),(11,9),(7,11),(15,15)]"

fun add_registers :: "registers \<Rightarrow> registers \<Rightarrow> registers" where
  "add_registers (a, b, c, d) (a', b', c', d') = (a + a', b + b', c + c', d + d')"

text \<open>The word \<open>X[i]\<close> of a block: four bytes, the low-order byte first.\<close>

definition rfc_word :: "u8 list \<Rightarrow> nat \<Rightarrow> u32" where
  "rfc_word blk i = word_of_nat (\<Sum>j<4. unat (blk ! (i * 4 + j)) * 256 ^ j)"

definition rfc_block :: "u8 list \<Rightarrow> registers \<Rightarrow> registers" where
  "rfc_block blk r =
     (let X = rfc_word blk
      in add_registers
           (fold (rfc_step rfc_H 0x6ed9eba1 X) rfc_round3
             (fold (rfc_step rfc_G 0x5a827999 X) rfc_round2
               (fold (rfc_step rfc_F 0 X) rfc_round1 r))) r)"

text \<open>All whole 64-byte blocks of a byte string, in order.\<close>

fun rfc_blocks :: "u8 list \<Rightarrow> registers \<Rightarrow> registers" where
  "rfc_blocks bs r = (if length bs < 64 then r else rfc_blocks (drop 64 bs) (rfc_block (take 64 bs) r))"

declare rfc_blocks.simps [simp del]

definition rfc_iv :: registers where
  "rfc_iv = (0x67452301, 0xefcdab89, 0x98badcfe, 0x10325476)"

text \<open>Padding: a one bit, zeros up to 56 modulo 64, the bit length as 64 bits, low byte first.\<close>

definition rfc_pad :: "u8 list \<Rightarrow> u8 list" where
  "rfc_pad m = m @ [0x80] @ replicate ((119 - length m mod 64) mod 64) 0 @
     map (\<lambda>i. word_of_nat (8 * length m div 256 ^ i)) [0..<8]"

fun rfc_output :: "registers \<Rightarrow> u8 list" where
  "rfc_output (a, b, c, d) =
     concat (map (\<lambda>w. map (\<lambda>i. word_of_nat (unat w div 256 ^ i)) [0..<4]) [a, b, c, d])"

definition rfc_md4 :: "u8 list \<Rightarrow> u8 list" where
  "rfc_md4 m = rfc_output (rfc_blocks (rfc_pad m) rfc_iv)"

section \<open>The code's block transformation is the RFC's\<close>

lemma md4_F_eq: "md4_F = rfc_F"
  by (intro ext bit_word_eqI) (auto simp: md4_F_def rfc_F_def bit_simps)

lemma md4_G_eq: "md4_G = rfc_G"
  by (intro ext bit_word_eqI) (auto simp: md4_G_def rfc_G_def bit_simps)

lemma md4_H_eq: "md4_H = rfc_H"
  by (intro ext) (simp add: md4_H_def rfc_H_def)


lemma and_ones32: "(w :: u32) AND 0xffffffff = w"
proof -
  have "(0xffffffff :: u32) = -1" by simp
  then show ?thesis by (simp only: and.right_neutral)
qed

lemma rotate_by_shifts:
  assumes "0 < s" and "s < 32"
  shows "push_bit s w OR drop_bit (32 - s) w = word_rotl s (w :: u32)"
proof (rule bit_word_eqI)
  fix n
  assume n: "n < LENGTH(32)"
  show "bit (push_bit s w OR drop_bit (32 - s) w) n = bit (word_rotl s w) n"
  proof (cases "n < s")
    case True
    then have "(n + (32 - s)) mod 32 = n + (32 - s)" using assms by simp
    with True n assms show ?thesis
      by (simp add: bit_simps bit_word_rotl_iff add.commute [of "32 - s"] del: Nat.add_diff_assoc Nat.diff_diff_right)
  next
    case False
    then have "(n + (32 - s)) mod 32 = n - s" using n assms by (simp add: mod_if)
    moreover have "\<not> bit w (n + (32 - s))"
      using False n assms by (intro notI) (auto dest!: bit_imp_le_length)
    ultimately show ?thesis using False n assms
      by (simp add: bit_simps bit_word_rotl_iff add.commute [of "32 - s"] del: Nat.add_diff_assoc Nat.diff_diff_right)
  qed
qed

lemma STEP_rotl:
  "0 < s \<Longrightarrow> s < 32 \<Longrightarrow> STEP f a b c d x s = word_rotl s (a + f b c d + x)"
  by (simp only: STEP_def Let_def rotate_by_shifts and_ones32 add.assoc)

lemma join_le32:
  "ucast x OR push_bit 8 (ucast y) OR push_bit 16 (ucast z) OR push_bit 24 (ucast w) =
   (word_of_nat (unat x + 256 * unat y + 65536 * unat z + 16777216 * unat w) :: u32)"
  for x y z w :: u8
proof -
  have zw: "push_bit 16 (ucast z) AND push_bit 24 (ucast w :: u32) = (0 :: u32)"
    by (rule bit_word_eqI) (auto simp: bit_simps dest!: bit_imp_le_length)
  have yzw: "push_bit 8 (ucast y) AND (push_bit 16 (ucast z) OR push_bit 24 (ucast w :: u32)) = (0 :: u32)"
    by (rule bit_word_eqI) (auto simp: bit_simps dest!: bit_imp_le_length)
  have xyzw: "ucast x AND (push_bit 8 (ucast y) OR push_bit 16 (ucast z) OR push_bit 24 (ucast w :: u32)) = (0 :: u32)"
    by (rule bit_word_eqI) (auto simp: bit_simps dest!: bit_imp_le_length)
  have "ucast x OR push_bit 8 (ucast y) OR push_bit 16 (ucast z) OR push_bit 24 (ucast w) =
      ucast x + (push_bit 8 (ucast y) + (push_bit 16 (ucast z) + push_bit 24 (ucast w :: u32)))"
    by (simp only: disjunctive_add_eq_or [OF zw] disjunctive_add_eq_or [OF yzw] disjunctive_add_eq_or [OF xyzw])
  then show ?thesis
    by (simp add: push_bit_eq_mult mult.commute)
qed

lemma SET_portable_eq: "SET_portable ptr n = SET ptr n"
  by (simp add: SET_portable_def SET_def load_le32_def join_le32)

lemma SET_rfc_word: "SET ptr n = rfc_word ptr n"
proof -
  have "(\<Sum>j<4. unat (ptr ! (n * 4 + j)) * 256 ^ j) =
      unat (ptr ! (n * 4)) + unat (ptr ! (n * 4 + 1)) * 256 + unat (ptr ! (n * 4 + 2)) * 65536 +
      unat (ptr ! (n * 4 + 3)) * 16777216"
  proof -
    have "{..<4::nat} = {0, 1, 2, 3}" by auto
    then show ?thesis by simp
  qed
  then show ?thesis
    by (simp only: SET_def load_le32_def rfc_word_def mult.commute [of 256] mult.commute [of 65536]
          mult.commute [of 16777216])
qed


text \<open>The RFC's operation with the code's \<open>STEP\<close> in place of the rotation.\<close>

fun code_step :: "(u32 \<Rightarrow> u32 \<Rightarrow> u32 \<Rightarrow> u32) \<Rightarrow> u32 \<Rightarrow> (nat \<Rightarrow> u32) \<Rightarrow> nat \<times> nat \<Rightarrow> registers \<Rightarrow> registers" where
  "code_step f t X (k, s) (a, b, c, d) = (d, STEP f a b c d (X k + t) s, b, c)"

lemma code_step_rfc:
  assumes "\<forall>(k, s) \<in> set ks. 0 < s \<and> s < 32"
  shows "fold (code_step f t X) ks r = fold (rfc_step f t X) ks r"
proof (rule fold_cong)
  fix op
  assume "op \<in> set ks"
  then obtain k s where op: "op = (k, s)" "0 < s" "s < 32"
    using assms by (cases op) auto
  show "code_step f t X op = rfc_step f t X op"
  proof
    fix r
    show "code_step f t X op r = rfc_step f t X op r"
      by (cases r) (simp only: op code_step.simps rfc_step.simps STEP_rotl add.assoc)
  qed
qed auto

lemmas fold_unroll = fold_simps code_step.simps

lemma md4_round1_steps: "md4_round1 ptr (a, b, c, d) = fold (code_step md4_F 0 (SET ptr)) rfc_round1 (a, b, c, d)"
  by (simp only: md4_round1_def rfc_round1_def Let_def fold_unroll prod.case add_0_right)

lemma md4_round2_steps: "md4_round2 ptr (a, b, c, d) = fold (code_step md4_G ac1 (SET ptr)) rfc_round2 (a, b, c, d)"
  by (simp only: md4_round2_def rfc_round2_def Let_def fold_unroll prod.case)

lemma md4_round3_steps: "md4_round3 ptr (a, b, c, d) = fold (code_step md4_H ac2 (SET ptr)) rfc_round3 (a, b, c, d)"
  by (simp only: md4_round3_def rfc_round3_def Let_def fold_unroll prod.case)

lemma rfc_shifts:
  "\<forall>(k, s) \<in> set rfc_round1. 0 < s \<and> s < 32"
  "\<forall>(k, s) \<in> set rfc_round2. 0 < s \<and> s < 32"
  "\<forall>(k, s) \<in> set rfc_round3. 0 < s \<and> s < 32"
  by (simp_all add: rfc_round1_def rfc_round2_def rfc_round3_def)

lemma SET_eq_rfc_word: "SET ptr = rfc_word ptr"
  by (rule ext) (rule SET_rfc_word)

lemma md4_round1_rfc: "md4_round1 ptr r = fold (rfc_step rfc_F 0 (rfc_word ptr)) rfc_round1 r"
  by (cases r) (simp only: md4_round1_steps code_step_rfc [OF rfc_shifts(1)] SET_eq_rfc_word md4_F_eq)

lemma md4_round2_rfc: "md4_round2 ptr r = fold (rfc_step rfc_G ac1 (rfc_word ptr)) rfc_round2 r"
  by (cases r) (simp only: md4_round2_steps code_step_rfc [OF rfc_shifts(2)] SET_eq_rfc_word md4_G_eq)

lemma md4_round3_rfc: "md4_round3 ptr r = fold (rfc_step rfc_H ac2 (rfc_word ptr)) rfc_round3 r"
  by (cases r) (simp only: md4_round3_steps code_step_rfc [OF rfc_shifts(3)] SET_eq_rfc_word md4_H_eq)

lemma md4_block_registers:
  "md4_block ptr r = add_registers (md4_round3 ptr (md4_round2 ptr (md4_round1 ptr r))) r"
proof -
  obtain a b c d where r: "r = (a, b, c, d)" by (cases r)
  obtain a' b' c' d' where "md4_round3 ptr (md4_round2 ptr (md4_round1 ptr (a, b, c, d))) = (a', b', c', d')"
    by (metis prod.exhaust)
  then show ?thesis by (simp add: md4_block_def r)
qed

lemma md4_block_rfc: "md4_block ptr r = rfc_block ptr r"
  by (simp only: md4_block_registers rfc_block_def Let_def md4_round1_rfc md4_round2_rfc md4_round3_rfc
      ac1_def ac2_def)


section \<open>Runs over whole blocks\<close>

text \<open>A block transformation looks at the first 64 bytes only.\<close>

lemma rfc_word_take: "i < 16 \<Longrightarrow> rfc_word (take 64 blk) i = rfc_word blk i"
  unfolding rfc_word_def by (intro arg_cong [where f = word_of_nat] sum.cong) auto

lemma rfc_steps_words:
  assumes "\<forall>i < 16. X i = Y i" and "\<forall>(k, s) \<in> set ks. k < 16"
  shows "fold (rfc_step f t X) ks r = fold (rfc_step f t Y) ks r"
proof (rule fold_cong)
  fix op
  assume "op \<in> set ks"
  then obtain k s where op: "op = (k, s)" "X k = Y k"
    using assms by (cases op) auto
  show "rfc_step f t X op = rfc_step f t Y op"
  proof
    fix r
    show "rfc_step f t X op r = rfc_step f t Y op r"
      by (cases r) (simp add: op)
  qed
qed auto

lemma rfc_steps_take:
  "\<forall>(k, s) \<in> set ks. k < 16 \<Longrightarrow>
   fold (rfc_step f t (rfc_word (take 64 blk))) ks r = fold (rfc_step f t (rfc_word blk)) ks r"
  by (rule rfc_steps_words) (simp_all add: rfc_word_take)

lemma rfc_indices:
  "\<forall>(k, s) \<in> set rfc_round1. k < 16" "\<forall>(k, s) \<in> set rfc_round2. k < 16"
  "\<forall>(k, s) \<in> set rfc_round3. k < 16"
  by (simp_all add: rfc_round1_def rfc_round2_def rfc_round3_def)

lemma rfc_block_take: "rfc_block (take 64 blk) r = rfc_block blk r"
  by (simp only: rfc_block_def Let_def rfc_indices [THEN rfc_steps_take])

lemma rfc_block_append [simp]: "64 \<le> length xs \<Longrightarrow> rfc_block (xs @ ys) r = rfc_block xs r"
  using rfc_block_take [of "xs @ ys"] rfc_block_take [of xs] by simp

lemma rfc_blocks_short [simp]: "length bs < 64 \<Longrightarrow> rfc_blocks bs r = r"
  by (simp add: rfc_blocks.simps)

lemma rfc_blocks_step: "64 \<le> length bs \<Longrightarrow> rfc_blocks bs r = rfc_blocks (drop 64 bs) (rfc_block bs r)"
  by (subst rfc_blocks.simps) (simp add: rfc_block_take)

lemma rfc_blocks_append:
  "length xs = 64 * k \<Longrightarrow> rfc_blocks (xs @ ys) r = rfc_blocks ys (rfc_blocks xs r)"
proof (induction k arbitrary: xs r)
  case 0
  then show ?case by simp
next
  case (Suc k)
  then have len: "64 \<le> length xs" and rest: "length (drop 64 xs) = 64 * k" by auto
  have "rfc_blocks (xs @ ys) r = rfc_blocks (drop 64 xs @ ys) (rfc_block xs r)"
    using len by (simp add: rfc_blocks_step)
  also have "\<dots> = rfc_blocks ys (rfc_blocks (drop 64 xs) (rfc_block xs r))"
    by (simp add: Suc.IH [OF rest])
  also have "\<dots> = rfc_blocks ys (rfc_blocks xs r)"
    using len by (simp add: rfc_blocks_step)
  finally show ?case .
qed

lemma rfc_blocks_whole: "rfc_blocks (take (64 * (length bs div 64)) bs) r = rfc_blocks bs r"
proof -
  let ?n = "64 * (length bs div 64)"
  have "rfc_blocks (take ?n bs @ drop ?n bs) r = rfc_blocks (drop ?n bs) (rfc_blocks (take ?n bs) r)"
    by (rule rfc_blocks_append [where k = "length bs div 64"]) (simp add: min_absorb2)
  moreover have "length (drop ?n bs) < 64"
    by (simp add: minus_mult_div_eq_mod)
  ultimately show ?thesis by simp
qed

text \<open>
  The counter of \<open>body\<close> goes down by 64 to zero: for a positive multiple of 64 that the data
  covers, the loop ends after exactly the blocks asked for.
\<close>

lemma body_loop_blocks:
  "0 < k \<Longrightarrow> unat sz = 64 * k \<Longrightarrow> 64 * k \<le> length ptr \<Longrightarrow>
   body_loop r ptr sz = Inr (rfc_blocks (take (64 * k) ptr) r, drop (64 * k) ptr)"
proof (induction k arbitrary: ptr sz r)
  case 0
  then show ?case by simp
next
  case (Suc k)
  have len: "64 \<le> length ptr" and big: "64 \<le> sz"
    using Suc.prems by (auto simp: word_le_nat_alt)
  have rest: "unat (sz - 64) = 64 * k"
    using Suc.prems(2) big by (simp add: unat_sub word_le_nat_alt)
  have whole: "rfc_blocks (take (64 * Suc k) ptr) r = rfc_blocks (take (64 * k) (drop 64 ptr)) (rfc_block ptr r)"
  proof -
    have "take (64 * Suc k) ptr = take 64 ptr @ take (64 * k) (drop 64 ptr)"
      by (simp add: take_add)
    then show ?thesis
      using len by (simp add: rfc_blocks_append [where k = 1] rfc_blocks_step rfc_block_take)
  qed
  show ?case
  proof (cases "k = 0")
    case True
    then have "sz - 64 = 0" using rest by (simp add: unat_eq_0)
    then show ?thesis
      using len True whole by (simp add: body_loop.simps [of r] md4_block_rfc)
  next
    case False
    then have "sz - 64 \<noteq> 0" using rest by auto
    moreover have "64 * k \<le> length (drop 64 ptr)" using Suc.prems(3) by simp
    ultimately show ?thesis
      using len False whole Suc.IH [OF _ rest, of "drop 64 ptr" "rfc_block ptr r"]
      by (simp add: body_loop.simps [of r] md4_block_rfc add.commute)
  qed
qed

text \<open>
  Conversely the loop of \<open>body\<close> never ends inside its data when the count is not a positive
  multiple of 64 within reach: the counter misses zero and the reads leave the array.
\<close>

lemma body_loop_overrun:
  "\<not> (\<exists>k > 0. unat sz = 64 * k \<and> 64 * k \<le> length ptr) \<Longrightarrow> length ptr < 2 ^ 63 \<Longrightarrow>
   body_loop r ptr sz = Inl Out_Of_Bounds"
proof (induction r ptr sz rule: body_loop.induct)
  case (1 r ptr sz)
  show ?case
  proof (cases "length ptr < 64")
    case True
    then show ?thesis by (simp add: body_loop.simps)
  next
    case False
    have one: "sz - 64 \<noteq> 0"
    proof
      assume "sz - 64 = 0"
      then have "sz = 64" by simp
      then have "unat sz = 64 * 1" by simp
      with "1.prems"(1) False show False by (metis mult.right_neutral not_less zero_less_one)
    qed
    have "\<not> (\<exists>k > 0. unat (sz - 64) = 64 * k \<and> 64 * k \<le> length (drop 64 ptr))"
    proof
      assume "\<exists>k > 0. unat (sz - 64) = 64 * k \<and> 64 * k \<le> length (drop 64 ptr)"
      then obtain k where k: "0 < k" "unat (sz - 64) = 64 * k" "64 * k \<le> length ptr - 64" by auto
      have "unat sz = unat (sz - 64 + 64)" by simp
      also have "\<dots> = 64 * k + 64"
        using k "1.prems"(2) by (subst unat_add_lem [THEN iffD1]) auto
      finally have "unat sz = 64 * Suc k" by simp
      moreover have "64 * Suc k \<le> length ptr" using k False by simp
      ultimately show False using "1.prems"(1) by blast
    qed
    with "1.IH" [OF False refl refl refl] one "1.prems"(2) False
    show ?thesis by (simp add: body_loop.simps [of r])
  qed
qed


section \<open>What a context stands for\<close>

definition md4_core :: "MD4_CTX \<Rightarrow> u8 list \<Rightarrow> bool" where
  "md4_core ctx m \<longleftrightarrow>
     registers_of ctx = rfc_blocks m rfc_iv \<and> length (md_buffer ctx) = 64 \<and>
     take (length m mod 64) (md_buffer ctx) = drop (64 * (length m div 64)) m"

definition md4_counted :: "MD4_CTX \<Rightarrow> nat \<Rightarrow> bool" where
  "md4_counted ctx n \<longleftrightarrow>
     unat (md_lo ctx) = n mod 2 ^ 29 \<and> unat (md_hi ctx) = n div 2 ^ 29 mod 2 ^ 32"

definition md4_repr :: "MD4_CTX \<Rightarrow> u8 list \<Rightarrow> bool" where
  "md4_repr ctx m \<longleftrightarrow> md4_core ctx m \<and> md4_counted ctx (length m)"

lemma registers_of_upd [simp]:
  "registers_of (ctx\<lparr>md_a := a, md_b := b, md_c := c, md_d := d\<rparr>) = (a, b, c, d)"
  "registers_of (ctx\<lparr>md_buffer := buf\<rparr>) = registers_of ctx"
  "registers_of (ctx\<lparr>md_lo := lo, md_hi := hi\<rparr>) = registers_of ctx"
  "registers_of (ctx\<lparr>md_lo := lo\<rparr>) = registers_of ctx"
  by (simp_all add: registers_of_def)

lemma md4_repr_init: "length (md_buffer ctx) = 64 \<Longrightarrow> md4_repr (MD4_Init ctx) []"
  by (simp add: md4_repr_def md4_core_def md4_counted_def MD4_Init_def registers_of_def rfc_iv_def)

text \<open>The counter: 29 bits of bytes in \<open>lo\<close>, 32 more in \<open>hi\<close>, the carry between them right.\<close>

lemma and_mask_nat:
  "unat (w AND 0x3f) = unat w mod 64" "unat (v AND 0x3f) = unat v mod 64"
  "unat (v AND 0x1fffffff) = unat v mod 2 ^ 29"
  for w :: u32 and v :: u64
proof -
  have masks: "(0x3f :: u32) = mask 6" "(0x3f :: u64) = mask 6" "(0x1fffffff :: u64) = mask 29"
    by (simp_all add: mask_eq_exp_minus_1)
  show "unat (w AND 0x3f) = unat w mod 64" "unat (v AND 0x3f) = unat v mod 64"
      "unat (v AND 0x1fffffff) = unat v mod 2 ^ 29"
    by (simp_all only: masks take_bit_eq_mask [symmetric] unsigned_take_bit_eq)
       (simp_all add: take_bit_eq_mod)
qed

lemma MD4_count_fields:
  "registers_of (MD4_count ctx sz) = registers_of ctx" "md_buffer (MD4_count ctx sz) = md_buffer ctx"
  by (simp_all add: MD4_count_def Let_def)

lemma div_carry:
  fixes n s q :: nat
  assumes "0 < q"
  shows "(n + s) div q = n div q + s div q + (if (n mod q + s) mod q < n mod q then 1 else 0)"
proof -
  let ?a = "n mod q" and ?b = "s mod q"
  have sum: "(n + s) div q = n div q + s div q + (?a + ?b) div q"
    by (rule div_add1_eq)
  have bounds: "?a < q" "?b < q" using assms by simp_all
  have "(?a + s) mod q = (?a + ?b) mod q"
    by (rule mod_add_right_eq [symmetric])
  moreover have "(?a + ?b) div q = (if (?a + ?b) mod q < ?a then 1 else 0)"
  proof (cases "?a + ?b < q")
    case True
    then show ?thesis by simp
  next
    case False
    moreover have "?a + ?b - q < q" using bounds False by linarith
    ultimately have "(?a + ?b) mod q = ?a + ?b - q" and "(?a + ?b) div q = 1"
      using assms by (simp_all add: le_mod_geq le_div_geq)
    then show ?thesis using bounds False by simp
  qed
  ultimately show ?thesis using sum by presburger
qed

lemma MD4_count_counted:
  assumes "md4_counted ctx n"
  shows "md4_counted (MD4_count ctx sz) (n + unat sz)"
proof -
  have n: "unat (md_lo ctx) = n mod 2 ^ 29" "unat (md_hi ctx) = n div 2 ^ 29 mod 2 ^ 32"
    using assms by (simp_all add: md4_counted_def)
  let ?lo = "ucast ((ucast (md_lo ctx) + sz) AND 0x1fffffff) :: u32"
  have lo: "unat ?lo = (n mod 2 ^ 29 + unat sz) mod 2 ^ 29"
  proof -
    have "unat ((ucast (md_lo ctx) + sz) AND 0x1fffffff) = (n mod 2 ^ 29 + unat sz) mod 2 ^ 29"
      by (simp add: and_mask_nat unat_word_ariths unat_ucast_up n mod_mod_cancel)
    then show ?thesis
      by (simp add: unat_ucast_down)
  qed
  have less: "?lo < md_lo ctx \<longleftrightarrow> (n mod 2 ^ 29 + unat sz) mod 2 ^ 29 < n mod 2 ^ 29"
    by (simp add: word_less_nat_alt lo n)
  let ?carry = "if ?lo < md_lo ctx then md_hi ctx + 1 else md_hi ctx"
  have carry: "unat ?carry = (n div 2 ^ 29 + (if ?lo < md_lo ctx then 1 else 0)) mod 2 ^ 32"
    by (simp add: unat_word_ariths n mod_simps)
  have "unat (ucast (ucast ?carry + drop_bit 29 sz) :: u32) =
      (n div 2 ^ 29 + (if ?lo < md_lo ctx then 1 else 0) + unat sz div 2 ^ 29) mod 2 ^ 32"
    by (simp only: unat_ucast_down unat_word_ariths unat_ucast_up carry unsigned_drop_bit_eq)
       (use unat_bounds(4) [of sz] in \<open>simp add: drop_bit_eq_div mod_simps mod_mod_cancel take_bit_eq_mod\<close>)
  then have hi: "unat (ucast (ucast ?carry + drop_bit 29 sz) :: u32) = (n + unat sz) div 2 ^ 29 mod 2 ^ 32"
    using div_carry [of "2 ^ 29" n "unat sz"] by (simp only: less) (simp add: ac_simps)
  show ?thesis
    using lo hi by (simp add: md4_counted_def MD4_count_def Let_def mod_add_left_eq)
qed


section \<open>MD4_Update appends to the message\<close>

lemma and_not_mask_nat: "unat (v AND NOT 0x3f) = 64 * (unat v div 64)" for v :: u64
proof -
  have m: "(0x3f :: u64) = mask 6" by (simp add: mask_eq_exp_minus_1)
  have e: "v AND NOT (mask 6) = push_bit 6 (drop_bit 6 v)"
    by (rule bit_word_eqI) (auto simp: bit_simps)
  have "64 * (unat v div 64) < 2 ^ 64"
    using unat_bounds(4) [of v] by (auto intro: le_less_trans [OF times_div_less_eq_dividend])
  then show ?thesis
    unfolding m e
    by (simp only: unsigned_push_bit_eq unsigned_drop_bit_eq)
       (simp add: push_bit_eq_mult drop_bit_eq_div take_bit_eq_mod)
qed

lemma div_mod_room:
  fixes a b q :: nat
  assumes "a mod q + b < q"
  shows "(a + b) div q = a div q" and "(a + b) mod q = a mod q + b"
proof -
  have b: "b < q" using assms by linarith
  then show "(a + b) div q = a div q"
    using assms by (simp add: div_add1_eq [of a b q])
  show "(a + b) mod q = a mod q + b"
    using assms mod_add_left_eq [of a q b] by simp
qed

lemma unat_sub_small: "k \<le> 64 \<Longrightarrow> k \<le> unat sz \<Longrightarrow> unat (sz - word_of_nat k) = unat sz - k" for sz :: u64
  by (subst unat_sub) (simp_all add: word_le_nat_alt unat_of_nat)

lemma md4_core_room:
  assumes core: "md4_core ctx m" and d: "length m mod 64 + length d < 64"
  shows "md4_core (ctx\<lparr>md_buffer := overwrite (md_buffer ctx) (length m mod 64) d\<rparr>) (m @ d)"
proof -
  let ?q = "64 * (length m div 64)"
  have same: "(length m + length d) div 64 = length m div 64"
      "(length m + length d) mod 64 = length m mod 64 + length d"
    using d by (simp_all add: div_mod_room)
  have "rfc_blocks (m @ d) rfc_iv = rfc_blocks (take ?q (m @ d)) rfc_iv"
    using rfc_blocks_whole [of "m @ d" rfc_iv] by (simp add: same)
  also have "\<dots> = rfc_blocks m rfc_iv"
    using rfc_blocks_whole [of m rfc_iv] by simp
  finally have "rfc_blocks (m @ d) rfc_iv = rfc_blocks m rfc_iv" .
  moreover have "take (length m mod 64 + length d) (overwrite (md_buffer ctx) (length m mod 64) d) =
      drop ?q m @ d"
    using core d by (subst take_overwrite) (auto simp: md4_core_def)
  ultimately show ?thesis
    using core d by (simp add: md4_core_def same)
qed

lemma md4_core_short:
  "md4_core ctx m \<Longrightarrow> length m = 64 * j \<Longrightarrow> length d < 64 \<Longrightarrow>
   md4_core (ctx\<lparr>md_buffer := overwrite (md_buffer ctx) 0 d\<rparr>) (m @ d)"
  using md4_core_room [of ctx m d] by simp

lemma md4_full_buffer:
  assumes core: "md4_core ctx m" and d: "length m mod 64 + length d = 64"
  shows "overwrite (md_buffer ctx) (length m mod 64) d = drop (64 * (length m div 64)) m @ d"
  using core d by (auto simp: md4_core_def overwrite_def)

lemma md4_core_fill:
  assumes core: "md4_core ctx m" and d: "length m mod 64 + length d = 64"
    and regs: "registers_of ctx' = rfc_blocks (overwrite (md_buffer ctx) (length m mod 64) d) (registers_of ctx)"
    and buf: "length (md_buffer ctx') = 64"
  shows "md4_core ctx' (m @ d)" and "length (m @ d) = 64 * (length m div 64 + 1)"
proof -
  let ?q = "64 * (length m div 64)"
  show len: "length (m @ d) = 64 * (length m div 64 + 1)"
    unfolding length_append using d by presburger
  have "rfc_blocks (m @ d) rfc_iv = rfc_blocks (take ?q m @ (drop ?q m @ d)) rfc_iv"
    by (simp flip: append_assoc)
  also have "\<dots> = rfc_blocks (drop ?q m @ d) (rfc_blocks m rfc_iv)"
    by (subst rfc_blocks_append [where k = "length m div 64"]) (simp_all add: min_absorb2 rfc_blocks_whole)
  finally have "registers_of ctx' = rfc_blocks (m @ d) rfc_iv"
    using regs core by (simp add: md4_full_buffer [OF core d] md4_core_def)
  moreover have "(length m + length d) mod 64 = 0" "64 * ((length m + length d) div 64) = length m + length d"
    using len by simp_all
  ultimately show "md4_core ctx' (m @ d)"
    using buf by (simp add: md4_core_def)
qed

lemma md4_core_blocks:
  assumes core: "md4_core ctx m" and m: "length m = 64 * j"
    and regs: "registers_of ctx' = rfc_blocks d (registers_of ctx)" and d: "length d = 64 * k"
    and buf: "length (md_buffer ctx') = 64"
  shows "md4_core ctx' (m @ d)"
  using assms by (simp add: md4_core_def rfc_blocks_append [OF m] algebra_simps)

lemma body_blocks:
  assumes "0 < k" and "unat sz = 64 * k" and "64 * k \<le> length data"
  obtains ctx' where "body ctx data sz = Inr (ctx', drop (64 * k) data)"
    and "registers_of ctx' = rfc_blocks (take (64 * k) data) (registers_of ctx)"
    and "md_buffer ctx' = md_buffer ctx" and "md_lo ctx' = md_lo ctx" and "md_hi ctx' = md_hi ctx"
proof -
  obtain a b c d where r: "rfc_blocks (take (64 * k) data) (registers_of ctx) = (a, b, c, d)"
    by (metis prod.exhaust)
  have e: "body ctx data sz = Inr (ctx\<lparr>md_a := a, md_b := b, md_c := c, md_d := d\<rparr>, drop (64 * k) data)"
    by (simp add: body_def body_loop_blocks [OF assms] r)
  show thesis by (rule that [OF e]) (simp_all add: r)
qed

lemma body_one:
  assumes "length buf = 64"
  obtains ctx' where "body ctx buf 64 = Inr (ctx', [])"
    and "registers_of ctx' = rfc_blocks buf (registers_of ctx)"
    and "md_buffer ctx' = md_buffer ctx" and "md_lo ctx' = md_lo ctx" and "md_hi ctx' = md_hi ctx"
  using body_blocks [of 1 64 buf ctx thesis] assms by simp

lemma MD4_tail_core:
  assumes core: "md4_core ctx m" and m: "length m = 64 * j" and n: "unat sz \<le> length data"
  shows "\<exists>ctx'. MD4_tail ctx data sz = Inr ctx' \<and> md4_core ctx' (m @ take (unat sz) data) \<and>
           md_lo ctx' = md_lo ctx \<and> md_hi ctx' = md_hi ctx"
proof (cases "64 \<le> unat sz")
  case False
  then have "\<not> 64 \<le> sz" by (simp add: word_le_nat_alt)
  moreover have "length (md_buffer ctx) = 64" using core by (simp add: md4_core_def)
  ultimately show ?thesis
    using False n md4_core_short [OF core m, of "take (unat sz) data"]
    by (simp add: MD4_tail_def memcpy_ok)
next
  case True
  let ?k = "unat sz div 64" and ?r = "unat sz mod 64"
  have k: "0 < ?k" "64 * ?k \<le> length data" using True n by (auto simp: div_greater_zero_iff)
  obtain ctx1 where body: "body ctx data (sz AND NOT 0x3f) = Inr (ctx1, drop (64 * ?k) data)"
    and ctx1: "registers_of ctx1 = rfc_blocks (take (64 * ?k) data) (registers_of ctx)"
      "md_buffer ctx1 = md_buffer ctx" "md_lo ctx1 = md_lo ctx" "md_hi ctx1 = md_hi ctx"
    by (rule body_blocks [OF k(1) and_not_mask_nat k(2)])
  have buf: "length (md_buffer ctx1) = 64" using core ctx1 by (simp add: md4_core_def)
  have core1: "md4_core ctx1 (m @ take (64 * ?k) data)"
    using k buf by (intro md4_core_blocks [OF core m ctx1(1), where k = ?k]) auto
  have len1: "length (m @ take (64 * ?k) data) = 64 * (j + ?k)"
    using k m by (simp add: min_absorb2)
  have split: "take (unat sz) data = take (64 * ?k) data @ take ?r (drop (64 * ?k) data)"
    by (metis mult_div_mod_eq take_add)
  have "?r \<le> length (drop (64 * ?k) data)"
    using n by (simp add: minus_mult_div_eq_mod [symmetric] diff_le_mono)
  then show ?thesis
    using md4_core_short [OF core1 len1, of "take ?r (drop (64 * ?k) data)"] True buf ctx1
    by (simp add: MD4_tail_def word_le_nat_alt body [simplified] and_mask_nat memcpy_ok split)
qed

lemma MD4_Update_repr:
  assumes repr: "md4_repr ctx m" and n: "unat sz \<le> length data"
  shows "\<exists>ctx'. MD4_Update ctx data sz = Inr ctx' \<and> md4_repr ctx' (m @ take (unat sz) data)"
proof -
  let ?ctx0 = "MD4_count ctx sz" and ?used = "length m mod 64" and ?d = "take (unat sz) data"
  define free where "free = 64 - ?used"
  have free64: "free \<le> 64" "?used + free = 64" by (simp_all add: free_def)
  have core: "md4_core ?ctx0 m" using repr by (simp add: md4_repr_def md4_core_def MD4_count_fields)
  have counted: "md4_counted ?ctx0 (length (m @ ?d))"
    using MD4_count_counted [of ctx "length m" sz] repr n by (simp add: md4_repr_def)
  have used: "unat (md_lo ctx AND 0x3f) = ?used"
    using repr by (simp add: md4_repr_def md4_counted_def and_mask_nat mod_mod_cancel)
  have buf: "length (md_buffer ?ctx0) = 64" using core by (simp add: md4_core_def)
  have repr': "md4_repr ctx' (m @ ?d)"
    if "md4_core ctx' (m @ ?d)" "md_lo ctx' = md_lo ?ctx0" "md_hi ctx' = md_hi ?ctx0" for ctx'
    using that counted by (simp add: md4_repr_def md4_counted_def)
  consider (aligned) "?used = 0" | (room) "?used \<noteq> 0" "unat sz < free"
    | (fill) "?used \<noteq> 0" "free \<le> unat sz"
    by (meson not_le)
  then show ?thesis
  proof cases
    case aligned
    then obtain j where m: "length m = 64 * j" by auto
    from MD4_tail_core [OF core m n] show ?thesis
      using aligned used repr' by (auto simp: MD4_Update_def Let_def)
  next
    case room
    have "length m mod 64 + length ?d < 64" using room n free64 by simp
    from md4_core_room [OF core this] show ?thesis
      using room used n buf repr' by (simp add: MD4_Update_def Let_def memcpy_ok free_def)
  next
    case fill
    let ?f = "take free data" and ?sz' = "sz - word_of_nat free"
    let ?buf = "overwrite (md_buffer ?ctx0) ?used ?f"
    have f: "?used + length ?f = 64" and free: "free \<le> length data"
      using fill n free64 by auto
    have sz': "unat ?sz' = unat sz - free"
      using fill free64 by (intro unat_sub_small) simp_all
    have buf': "length ?buf = 64" using buf f by simp
    obtain ctx1 where body: "body (?ctx0\<lparr>md_buffer := ?buf\<rparr>) ?buf 64 = Inr (ctx1, [])"
      and ctx1: "registers_of ctx1 = rfc_blocks ?buf (registers_of (?ctx0\<lparr>md_buffer := ?buf\<rparr>))"
        "md_buffer ctx1 = md_buffer (?ctx0\<lparr>md_buffer := ?buf\<rparr>)" "md_lo ctx1 = md_lo (?ctx0\<lparr>md_buffer := ?buf\<rparr>)" "md_hi ctx1 = md_hi (?ctx0\<lparr>md_buffer := ?buf\<rparr>)"
      by (rule body_one [OF buf'])
    have core1: "md4_core ctx1 (m @ ?f)" "length (m @ ?f) = 64 * (length m div 64 + 1)"
      using md4_core_fill [OF core f, of ctx1] ctx1 buf' by simp_all
    have "unat ?sz' \<le> length (drop free data)" using sz' n by simp
    from MD4_tail_core [OF core1 this] obtain ctx2
      where "MD4_tail ctx1 (drop free data) ?sz' = Inr ctx2"
        and "md4_core ctx2 ((m @ ?f) @ take (unat ?sz') (drop free data))"
        and "md_lo ctx2 = md_lo ?ctx0" "md_hi ctx2 = md_hi ?ctx0"
      using ctx1 by auto
    moreover have "?f @ take (unat ?sz') (drop free data) = ?d"
      using fill by (simp add: sz' flip: take_add)
    ultimately show ?thesis
      using fill used free free64 buf body repr'
      by (auto simp: MD4_Update_def Let_def memcpy_ok simp flip: free_def)
  qed
qed


section \<open>MD4_Final yields the digest\<close>

lemma byte_of_low32:
  assumes "i < 4"
  shows "(word_of_nat (x mod 2 ^ 32 div 256 ^ i) :: u8) = word_of_nat (x div 256 ^ i)"
proof -
  have e: "256 ^ i = (2 :: nat) ^ (8 * i)" by (simp add: power_mult)
  have "take_bit 8 (drop_bit (8 * i) (take_bit 32 x)) = take_bit 8 (drop_bit (8 * i) x)"
    using assms by (intro bit_eqI) (auto simp: bit_simps)
  then show ?thesis
    by (simp add: word_of_nat_eq_iff e take_bit_eq_mod drop_bit_eq_div)
qed

lemma byte_at: "(ucast (drop_bit n w) :: u8) = word_of_nat (unat w div 2 ^ n)" for w :: u32
  by (metis drop_bit_eq_div of_nat_unat unat_drop_bit_eq)

lemma upt_4: "[0..<4] = [0, 1, 2, 3 :: nat]"
  by (simp add: upt_conv_Cons)

lemma OUT_bytes: "OUT w = map (\<lambda>i. word_of_nat (unat w div 256 ^ i)) [0..<4]"
  using byte_at [of 0 w] byte_at [of 8 w] byte_at [of 16 w] byte_at [of 24 w]
  by (simp add: OUT_def upt_4)

lemma length_OUT [simp]: "length (OUT w) = 4"
  by (simp add: OUT_def)

lemma length_bytes:
  assumes "md4_counted ctx n"
  shows "OUT (push_bit 3 (md_lo ctx)) @ OUT (md_hi ctx) = map (\<lambda>i. word_of_nat (8 * n div 256 ^ i)) [0..<8]"
proof -
  have lo: "unat (push_bit 3 (md_lo ctx)) = 8 * n mod 2 ^ 32"
    using assms
      mult_mod_right [of 8 n "2 ^ 29"]
    by (simp only: md4_counted_def unsigned_push_bit_eq) (simp add: take_bit_eq_mod push_bit_eq_mult mult.commute)
  have hi: "unat (md_hi ctx) = 8 * n div 2 ^ 32 mod 2 ^ 32"
    using assms div_mult2_eq [of "8 * n" 8 "2 ^ 29"] by (simp add: md4_counted_def)
  have "map (\<lambda>i. word_of_nat (8 * n div 256 ^ i)) [0..<8] =
      map (\<lambda>i. word_of_nat (8 * n div 256 ^ i)) [0..<4] @
      map (\<lambda>i. word_of_nat (8 * n div 2 ^ 32 div 256 ^ i) :: u8) [0..<4]"
  proof -
    have "[0..<8] = [0..<4] @ map ((+) 4) [0..<4 :: nat]" by (simp add: upt_conv_Cons)
    then show ?thesis
      by (simp add: power_add div_mult2_eq)
  qed
  also have "\<dots> = map (\<lambda>i. word_of_nat (8 * n mod 2 ^ 32 div 256 ^ i)) [0..<4] @
      map (\<lambda>i. word_of_nat (8 * n div 2 ^ 32 mod 2 ^ 32 div 256 ^ i)) [0..<4]"
    by (intro arg_cong2 [where f = "(@)"] map_cong refl byte_of_low32 [symmetric]) simp_all
  finally show ?thesis
    by (simp only: OUT_bytes lo hi)
qed

text \<open>The padding leaves a buffer with 56 bytes in use.\<close>

definition zeros :: "u8 list \<Rightarrow> u8 list" where
  "zeros m = replicate ((119 - length m mod 64) mod 64) 0"

lemma zeros_count:
  "u < 56 \<Longrightarrow> (119 - u) mod 64 = 55 - u" "56 \<le> u \<Longrightarrow> u < 64 \<Longrightarrow> (119 - u) mod 64 = 119 - u" for u :: nat
proof -
  assume "u < 56"
  then have "119 - u = 55 - u + 64" by simp
  then show "(119 - u) mod 64 = 55 - u" by (simp only: mod_add_self2) simp
qed simp

lemma MD4_pad_core:
  assumes repr: "md4_repr ctx m"
  shows "\<exists>ctx'. MD4_pad ctx = Inr ctx' \<and> md4_core ctx' (m @ 0x80 # zeros m) \<and>
           md_lo ctx' = md_lo ctx \<and> md_hi ctx' = md_hi ctx"
proof -
  define used where "used = length m mod 64"
  have core: "md4_core ctx m" and buf: "length (md_buffer ctx) = 64"
    using repr by (simp_all add: md4_repr_def md4_core_def)
  have u: "unat (md_lo ctx AND 0x3f) = used" "used < 64"
    using repr by (simp_all add: used_def md4_repr_def md4_counted_def and_mask_nat mod_mod_cancel)
  have set80: "(md_buffer ctx)[used := 0x80] = overwrite (md_buffer ctx) used [0x80]"
    using u buf by (simp add: overwrite_singleton)
  have joined: "overwrite (overwrite (md_buffer ctx) used [0x80]) (Suc used) (replicate k 0) =
      overwrite (md_buffer ctx) used (0x80 # replicate k 0)" if "used + 1 + k \<le> 64" for k
    using that buf overwrite_append [of used "[0x80]" "md_buffer ctx" "replicate k 0"] by simp
  show ?thesis
  proof (cases "used < 56")
    case True
    have z: "zeros m = replicate (55 - used) 0"
      using True by (simp only: zeros_def used_def [symmetric] zeros_count)
    have "\<not> 63 - used < 8" using True by simp
    have "used + length (0x80 # replicate (55 - used) (0 :: u8)) < 64" using True by simp
    from md4_core_room [OF core this [unfolded used_def], folded used_def] show ?thesis
      using True \<open>\<not> 63 - used < 8\<close> u buf joined [of "55 - used"]
      by (simp add: MD4_pad_def Let_def array_set_def set80 memset_ok z)
  next
    case False
    define d where "d = 0x80 # replicate (63 - used) (0 :: u8)"
    have full: "length m mod 64 + length d = 64" using u by (simp add: d_def flip: used_def)
    let ?buf = "overwrite (md_buffer ctx) used d"
    have buf': "length ?buf = 64" using buf full by (simp add: used_def)
    obtain ctx1 where body: "body (ctx\<lparr>md_buffer := ?buf\<rparr>) ?buf 64 = Inr (ctx1, [])"
      and ctx1: "registers_of ctx1 = rfc_blocks ?buf (registers_of (ctx\<lparr>md_buffer := ?buf\<rparr>))"
        "md_buffer ctx1 = md_buffer (ctx\<lparr>md_buffer := ?buf\<rparr>)" "md_lo ctx1 = md_lo (ctx\<lparr>md_buffer := ?buf\<rparr>)" "md_hi ctx1 = md_hi (ctx\<lparr>md_buffer := ?buf\<rparr>)"
      by (rule body_one [OF buf'])
    have core1: "md4_core ctx1 (m @ d)" and len1: "length (m @ d) = 64 * (length m div 64 + 1)"
      using md4_core_fill [OF core full, of ctx1] ctx1 buf' by (simp_all add: used_def)
    have z: "d @ replicate 56 0 = 0x80 # zeros m"
      using False u by (simp add: d_def zeros_def zeros_count flip: used_def replicate_add)
    have "63 - used < 8" using False by simp
    with md4_core_short [OF core1 len1, of "replicate 56 0"] show ?thesis
      using False u buf buf' joined [of "63 - used"] ctx1 body z
      by (simp add: MD4_pad_def Let_def array_set_def set80 memset_ok d_def)
  qed
qed

lemma rfc_output_registers:
  "rfc_output (registers_of ctx) = OUT (md_a ctx) @ OUT (md_b ctx) @ OUT (md_c ctx) @ OUT (md_d ctx)"
  by (simp add: registers_of_def OUT_bytes)

lemma MD4_Final_repr:
  assumes repr: "md4_repr ctx m"
  shows "MD4_Final ctx = Inr (rfc_md4 m, zero_ctx)"
proof -
  obtain ctx0 where pad: "MD4_pad ctx = Inr ctx0"
    and core: "md4_core ctx0 (m @ 0x80 # zeros m)"
    and count: "md_lo ctx0 = md_lo ctx" "md_hi ctx0 = md_hi ctx"
    using MD4_pad_core [OF repr] by blast
  let ?p = "m @ 0x80 # zeros m" and ?lo = "push_bit 3 (md_lo ctx)"
  define d where "d = OUT ?lo @ OUT (md_hi ctx)"
  have len_p: "length ?p mod 64 = 56"
  proof (cases "length m mod 64 < 56")
    case True
    then have "length m mod 64 + length (0x80 # zeros m) = 56" by (simp add: zeros_def zeros_count)
    then show ?thesis unfolding length_append by (subst div_mod_room(2)) simp_all
  next
    case False
    then have "length m mod 64 + length (0x80 # zeros m) = 56 + 64" by (simp add: zeros_def zeros_count)
    then show ?thesis unfolding length_append by (subst mod_add_left_eq [symmetric]) simp
  qed
  have full: "length ?p mod 64 + length d = 64" by (simp only: len_p) (simp add: d_def)
  have padded: "?p @ d = rfc_pad m"
    using repr length_bytes [of ctx "length m"] by (simp add: d_def rfc_pad_def zeros_def md4_repr_def)
  let ?buf = "overwrite (md_buffer ctx0) 56 d"
  have buf: "length (md_buffer ctx0) = 64" "length ?buf = 64"
    using core by (simp_all add: md4_core_def d_def)
  have stored: "overwrite (overwrite (md_buffer ctx0) 56 (OUT ?lo)) 60 (OUT (md_hi ctx)) = ?buf"
    using overwrite_append [of 56 "OUT ?lo" "md_buffer ctx0" "OUT (md_hi ctx)"] buf by (simp add: d_def)
    obtain ctx1 where body: "body (ctx0\<lparr>md_lo := ?lo, md_buffer := ?buf\<rparr>) ?buf 64 = Inr (ctx1, [])"
      and ctx1: "registers_of ctx1 = rfc_blocks ?buf (registers_of (ctx0\<lparr>md_lo := ?lo, md_buffer := ?buf\<rparr>))"
        "md_buffer ctx1 = md_buffer (ctx0\<lparr>md_lo := ?lo, md_buffer := ?buf\<rparr>)" "md_lo ctx1 = md_lo (ctx0\<lparr>md_lo := ?lo, md_buffer := ?buf\<rparr>)" "md_hi ctx1 = md_hi (ctx0\<lparr>md_lo := ?lo, md_buffer := ?buf\<rparr>)"
      by (rule body_one [OF buf(2)])
  have "md4_core ctx1 (?p @ d)"
    using md4_core_fill(1) [OF core full, of ctx1] ctx1 buf by (simp only: len_p) simp
  then have "registers_of ctx1 = rfc_blocks (rfc_pad m) rfc_iv"
    by (simp only: md4_core_def padded)
  then have "OUT (md_a ctx1) @ OUT (md_b ctx1) @ OUT (md_c ctx1) @ OUT (md_d ctx1) = rfc_md4 m"
    by (simp only: rfc_md4_def flip: rfc_output_registers)
  then show ?thesis
    using buf body by (simp add: MD4_Final_def pad count Let_def memcpy_ok stored)
qed


section \<open>The streaming interface as a contract\<close>

text \<open>
  What a caller relies on: a context stands for the bytes fed so far, an update appends the
  first \<open>sz\<close> bytes it is given, and the final call gives the digest of all of them.
\<close>

primrec feed :: "('c \<Rightarrow> u8 list \<Rightarrow> u64 \<Rightarrow> 'c outcome) \<Rightarrow> u8 list list \<Rightarrow> 'c \<Rightarrow> 'c outcome" where
  "feed upd [] c = Inr c"
| "feed upd (d # ds) c = bindE (upd c d (word_of_nat (length d))) (feed upd ds)"

locale stream_digest =
  fixes start :: "'c \<Rightarrow> 'c"
    and update :: "'c \<Rightarrow> u8 list \<Rightarrow> u64 \<Rightarrow> 'c outcome"
    and final :: "'c \<Rightarrow> (u8 list \<times> 'c) outcome"
    and digest :: "u8 list \<Rightarrow> u8 list"
    and fresh :: "'c \<Rightarrow> bool"
    and stands_for :: "'c \<Rightarrow> u8 list \<Rightarrow> bool"
    and wiped :: 'c
  assumes start_law: "fresh c \<Longrightarrow> stands_for (start c) []"
    and update_law: "stands_for c m \<Longrightarrow> unat sz \<le> length d \<Longrightarrow>
      \<exists>c'. update c d sz = Inr c' \<and> stands_for c' (m @ take (unat sz) d)"
    and final_law: "stands_for c m \<Longrightarrow> final c = Inr (digest m, wiped)"
begin

lemma feed_stands_for:
  "stands_for c m \<Longrightarrow> \<forall>d \<in> set ds. length d < 2 ^ 64 \<Longrightarrow>
   \<exists>c'. feed update ds c = Inr c' \<and> stands_for c' (m @ concat ds)"
proof (induction ds arbitrary: c m)
  case Nil
  then show ?case by simp
next
  case (Cons d ds)
  then have len: "unat (word_of_nat (length d) :: u64) = length d"
    by (simp add: unat_of_nat)
  obtain c' where "update c d (word_of_nat (length d)) = Inr c'" and "stands_for c' (m @ d)"
    using update_law [OF Cons.prems(1), of "word_of_nat (length d)" d] by (auto simp: len)
  with Cons.IH [of c' "m @ d"] Cons.prems(2) show ?case by simp
qed

lemma digest_of_chunks:
  assumes "fresh c" and "\<forall>d \<in> set ds. length d < 2 ^ 64"
  shows "bindE (feed update ds (start c)) final = Inr (digest (concat ds), wiped)"
  using feed_stands_for [OF start_law [OF assms(1)] assms(2)] final_law by fastforce

lemma digest_one_shot:
  assumes "fresh c" and "unat sz \<le> length d"
  shows "bindE (update (start c) d sz) final = Inr (digest (take (unat sz) d), wiped)"
  using update_law [OF start_law [OF assms(1)] assms(2)] final_law by fastforce

end

interpretation md4: stream_digest MD4_Init MD4_Update MD4_Final rfc_md4
    "\<lambda>ctx. length (md_buffer ctx) = 64" md4_repr zero_ctx
  by unfold_locales (simp_all add: md4_repr_init MD4_Update_repr MD4_Final_repr)

section \<open>Evaluation\<close>

text \<open>
  The digests of RFC 1320's test suite, evaluated in the kernel. Word numerals are not reduced
  modulo \<open>2 ^ 32\<close> by rewriting, so each operation goes through its value as an integer.
\<close>

lemma rfc_step_eval:
  assumes "0 < s" and "s < 32"
  shows "rfc_step f t X (k, s) (a, b, c, d) =
     (let w = uint (a + f b c d + X k + t)
      in (d, word_of_int (take_bit 32 (push_bit s w) OR drop_bit (32 - s) w), b, c))"
proof -
  have "word_rotl s w = word_of_int (take_bit 32 (push_bit s (uint w)) OR drop_bit (32 - s) (uint w))" for w :: u32
  proof -
    have "uint (word_rotl s w) = take_bit 32 (push_bit s (uint w)) OR drop_bit (32 - s) (uint w)"
      unfolding rotate_by_shifts [OF assms, symmetric]
      using unsigned_less [of w, where ?'a = int]
      by (simp only: unsigned_or_eq unsigned_push_bit_eq unsigned_drop_bit_eq)
         (simp add: take_bit_eq_mod mod_pos_pos_trivial)
    then show ?thesis by (metis word_of_int_uint)
  qed
  then show ?thesis by (simp add: Let_def)
qed

lemma rfc_block_words:
  assumes "\<forall>i < 16. rfc_word blk i = X i"
  shows "rfc_block blk r =
    add_registers
      (fold (rfc_step rfc_H 0x6ed9eba1 X) rfc_round3
        (fold (rfc_step rfc_G 0x5a827999 X) rfc_round2
          (fold (rfc_step rfc_F 0 X) rfc_round1 r))) r"
  unfolding rfc_block_def Let_def
  by (simp only: rfc_indices [THEN rfc_steps_words [OF assms]])

definition abc_words :: "nat \<Rightarrow> u32" where
  "abc_words i = (if i = 0 then 0x80636261 else if i = 14 then 24 else 0)"

lemma abc_padded: "rfc_pad [0x61, 0x62, 0x63] = 0x61 # 0x62 # 0x63 # 0x80 # replicate 52 0 @ [24, 0, 0, 0, 0, 0, 0, 0]"
  by (simp add: rfc_pad_def upt_conv_Cons)

lemma all_less_16:
  "(\<forall>i < 16. P i) \<longleftrightarrow> P 0 \<and> P 1 \<and> P 2 \<and> P 3 \<and> P 4 \<and> P 5 \<and> P 6 \<and> P 7 \<and> P 8 \<and> P 9 \<and> P 10 \<and>
     P 11 \<and> P 12 \<and> P 13 \<and> P 14 \<and> P 15" for P :: "nat \<Rightarrow> bool"
  by (simp add: All_less_Suc numeral_eq_Suc conj_ac)

lemma lessThan_4: "{..<4} = {0, 1, 2, 3 :: nat}"
  by auto

lemma abc_words: "\<forall>i < 16. rfc_word (0x61 # 0x62 # 0x63 # 0x80 # replicate 52 0 @ [24, 0, 0, 0, 0, 0, 0, 0]) i = abc_words i"
  by (simp add: all_less_16 rfc_word_def lessThan_4 abc_words_def nth_append)

lemmas rfc_eval = rfc_step_eval abc_words_def rfc_iv_def

lemma abc_rounds:
  "fold (rfc_step rfc_F 0 abc_words) rfc_round1 rfc_iv = (2727978304, 3664868245, 616213963, 81891987)"
  "fold (rfc_step rfc_G 0x5a827999 abc_words) rfc_round2 (2727978304, 3664868245, 616213963, 81891987) = (1922455884, 2387811215, 1037313058, 1316886344)"
  "fold (rfc_step rfc_H 0x6ed9eba1 abc_words) rfc_round3 (1922455884, 2387811215, 1037313058, 1316886344) = (314320291, 1661629990, 1330635873, 2369802756)"
  by (simp_all add: rfc_eval rfc_F_def rfc_G_def rfc_H_def rfc_round1_def rfc_round2_def rfc_round3_def
      del: rfc_step.simps)

lemma rfc_md4_abc:
  "rfc_md4 [0x61, 0x62, 0x63] =
   [0xa4, 0x48, 0x01, 0x7a, 0xaf, 0x21, 0xd8, 0x52, 0x5f, 0xc1, 0x0a, 0xe8, 0x7a, 0xa6, 0x72, 0x9d]"
  by (simp add: rfc_md4_def abc_padded rfc_blocks_step rfc_block_words [OF abc_words] abc_rounds) (simp add: rfc_iv_def upt_4)


section \<open>Properties of the digest\<close>

text \<open>
  C8. Whatever the context held before, and however a message is cut into pieces,
  \<open>MD4_Init\<close>, one \<open>MD4_Update\<close> per piece and \<open>MD4_Final\<close> never read or write out of
  bounds, store the MD4 digest of the whole message as RFC 1320 defines it, and leave the
  context wiped.
\<close>

theorem md4_streaming_correct:
  assumes "length (md_buffer ctx) = 64" and "\<forall>d \<in> set ds. length d < 2 ^ 64"
  shows "bindE (feed MD4_Update ds (MD4_Init ctx)) MD4_Final = Inr (rfc_md4 (concat ds), zero_ctx)"
  by (rule md4.digest_of_chunks [OF assms])

theorem md4_streaming_correct_witness:
  "bindE (feed MD4_Update [[0x61], [0x62, 0x63]] (MD4_Init zero_ctx)) MD4_Final =
   Inr ([0xa4, 0x48, 0x01, 0x7a, 0xaf, 0x21, 0xd8, 0x52, 0x5f, 0xc1, 0x0a, 0xe8, 0x7a, 0xa6, 0x72, 0x9d], zero_ctx)"
proof -
  have "length (md_buffer zero_ctx) = 64" by (simp add: zero_ctx_def)
  from md4_streaming_correct [OF this, of "[[0x61], [0x62, 0x63]]"] show ?thesis
    by (simp add: rfc_md4_abc)
qed

text \<open>
  C29. The do-while loop of \<open>body\<close>, which counts a 64-bit size down by 64 to exactly zero,
  comes back for precisely the sizes its callers may pass: the positive multiples of 64 that
  the data covers. Any other size makes it read past the data.
\<close>

theorem body_returns_iff:
  assumes "length data < 2 ^ 63"
  shows "returns (body ctx data sz) \<longleftrightarrow> (\<exists>k > 0. unat sz = 64 * k \<and> 64 * k \<le> length data)"
proof (cases "\<exists>k > 0. unat sz = 64 * k \<and> 64 * k \<le> length data")
  case True
  then show ?thesis by (auto simp: body_def body_loop_blocks split: prod.split)
next
  case False
  then show ?thesis by (simp only: body_def body_loop_overrun [OF False assms]) simp
qed

theorem body_returns_iff_witness: "\<not> returns (body zero_ctx (replicate 128 0) 96)"
proof -
  have "\<not> (\<exists>k > 0. unat (96 :: u64) = 64 * k \<and> 64 * k \<le> length (replicate 128 (0 :: u8)))"
    by simp presburger
  then show ?thesis
    using body_returns_iff [of "replicate 128 0" zero_ctx 96] by simp
qed

text \<open>
  The two preprocessor branches of \<open>SET\<close> read the same word, the little-endian one of RFC
  1320: a build for another byte order computes the same digest.
\<close>

theorem SET_branches_agree: "SET_portable ptr n = SET ptr n \<and> SET ptr n = rfc_word ptr n"
  by (simp add: SET_portable_eq SET_rfc_word)

end
