(* ===== verification/Md4_Portable.thy ===== *)
theory Md4_Portable
  imports Md4_Reference
begin

text \<open>
  The other build of \<open>md4.c\<close>, for machines that are not little-endian or need aligned loads: \<open>SET\<close>
  stores the word it reads in the field \<open>block\<close> of the context, \<open>GET\<close> reads it there. The function
  \<open>body\<close> with these macros does what it does with the others, and leaves the words of the last
  block in the context.
\<close>

section \<open>The macros and the rounds\<close>

definition SET_store :: "u8 list \<Rightarrow> nat \<Rightarrow> u32 list \<Rightarrow> u32 list" where
  "SET_store ptr n block = block[n := SET_portable ptr n]"

definition GET :: "u32 list \<Rightarrow> nat \<Rightarrow> u32" where
  "GET block n = block ! n"

text \<open>The value of an assignment is what was stored.\<close>

definition portable_round1 :: "u8 list \<Rightarrow> u32 list \<Rightarrow> registers \<Rightarrow> u32 list \<times> registers" where
  "portable_round1 ptr block = (\<lambda>(a, b, c, d).
     let block = SET_store ptr 0 block; a = STEP md4_F a b c d (GET block 0) 3;
         block = SET_store ptr 1 block; d = STEP md4_F d a b c (GET block 1) 7;
         block = SET_store ptr 2 block; c = STEP md4_F c d a b (GET block 2) 11;
         block = SET_store ptr 3 block; b = STEP md4_F b c d a (GET block 3) 19;
         block = SET_store ptr 4 block; a = STEP md4_F a b c d (GET block 4) 3;
         block = SET_store ptr 5 block; d = STEP md4_F d a b c (GET block 5) 7;
         block = SET_store ptr 6 block; c = STEP md4_F c d a b (GET block 6) 11;
         block = SET_store ptr 7 block; b = STEP md4_F b c d a (GET block 7) 19;
         block = SET_store ptr 8 block; a = STEP md4_F a b c d (GET block 8) 3;
         block = SET_store ptr 9 block; d = STEP md4_F d a b c (GET block 9) 7;
         block = SET_store ptr 10 block; c = STEP md4_F c d a b (GET block 10) 11;
         block = SET_store ptr 11 block; b = STEP md4_F b c d a (GET block 11) 19;
         block = SET_store ptr 12 block; a = STEP md4_F a b c d (GET block 12) 3;
         block = SET_store ptr 13 block; d = STEP md4_F d a b c (GET block 13) 7;
         block = SET_store ptr 14 block; c = STEP md4_F c d a b (GET block 14) 11;
         block = SET_store ptr 15 block; b = STEP md4_F b c d a (GET block 15) 19
     in (block, a, b, c, d))"

definition portable_round2 :: "u32 list \<Rightarrow> registers \<Rightarrow> registers" where
  "portable_round2 block = (\<lambda>(a, b, c, d).
     let a = STEP md4_G a b c d (GET block 0 + ac1) 3;
         d = STEP md4_G d a b c (GET block 4 + ac1) 5;
         c = STEP md4_G c d a b (GET block 8 + ac1) 9;
         b = STEP md4_G b c d a (GET block 12 + ac1) 13;
         a = STEP md4_G a b c d (GET block 1 + ac1) 3;
         d = STEP md4_G d a b c (GET block 5 + ac1) 5;
         c = STEP md4_G c d a b (GET block 9 + ac1) 9;
         b = STEP md4_G b c d a (GET block 13 + ac1) 13;
         a = STEP md4_G a b c d (GET block 2 + ac1) 3;
         d = STEP md4_G d a b c (GET block 6 + ac1) 5;
         c = STEP md4_G c d a b (GET block 10 + ac1) 9;
         b = STEP md4_G b c d a (GET block 14 + ac1) 13;
         a = STEP md4_G a b c d (GET block 3 + ac1) 3;
         d = STEP md4_G d a b c (GET block 7 + ac1) 5;
         c = STEP md4_G c d a b (GET block 11 + ac1) 9;
         b = STEP md4_G b c d a (GET block 15 + ac1) 13
     in (a, b, c, d))"

definition portable_round3 :: "u32 list \<Rightarrow> registers \<Rightarrow> registers" where
  "portable_round3 block = (\<lambda>(a, b, c, d).
     let a = STEP md4_H a b c d (GET block 0 + ac2) 3;
         d = STEP md4_H d a b c (GET block 8 + ac2) 9;
         c = STEP md4_H c d a b (GET block 4 + ac2) 11;
         b = STEP md4_H b c d a (GET block 12 + ac2) 15;
         a = STEP md4_H a b c d (GET block 2 + ac2) 3;
         d = STEP md4_H d a b c (GET block 10 + ac2) 9;
         c = STEP md4_H c d a b (GET block 6 + ac2) 11;
         b = STEP md4_H b c d a (GET block 14 + ac2) 15;
         a = STEP md4_H a b c d (GET block 1 + ac2) 3;
         d = STEP md4_H d a b c (GET block 9 + ac2) 9;
         c = STEP md4_H c d a b (GET block 5 + ac2) 11;
         b = STEP md4_H b c d a (GET block 13 + ac2) 15;
         a = STEP md4_H a b c d (GET block 3 + ac2) 3;
         d = STEP md4_H d a b c (GET block 11 + ac2) 9;
         c = STEP md4_H c d a b (GET block 7 + ac2) 11;
         b = STEP md4_H b c d a (GET block 15 + ac2) 15
     in (a, b, c, d))"

definition portable_block :: "u8 list \<Rightarrow> u32 list \<times> registers \<Rightarrow> u32 list \<times> registers" where
  "portable_block ptr = (\<lambda>(block, a, b, c, d).
     let (saved_a, saved_b, saved_c, saved_d) = (a, b, c, d);
         (block, a, b, c, d) = portable_round1 ptr block (a, b, c, d);
         (a, b, c, d) = portable_round3 block (portable_round2 block (a, b, c, d))
     in (block, a + saved_a, b + saved_b, c + saved_c, d + saved_d))"

function portable_loop :: "u32 list \<times> registers \<Rightarrow> u8 list \<Rightarrow> u64 \<Rightarrow> ((u32 list \<times> registers) \<times> u8 list) outcome" where
  "portable_loop st ptr sz =
     (if length ptr < 64 then Inl Out_Of_Bounds
      else let st = portable_block ptr st;
               ptr = drop 64 ptr;
               sz = sz - 64
           in if sz \<noteq> 0 then portable_loop st ptr sz else Inr (st, ptr))"
  by pat_completeness auto
termination
  by (relation "measure (\<lambda>(st, ptr, sz). length ptr)") auto

declare portable_loop.simps [simp del]

definition portable_body :: "MD4_CTX \<Rightarrow> u8 list \<Rightarrow> u64 \<Rightarrow> (MD4_CTX \<times> u8 list) outcome" where
  "portable_body ctx data sz =
     bindE (portable_loop (md_block ctx, registers_of ctx) data sz) (\<lambda>((block, a, b, c, d), ptr).
       Inr (ctx\<lparr>md_a := a, md_b := b, md_c := c, md_d := d, md_block := block\<rparr>, ptr))"

section \<open>Both builds agree\<close>

text \<open>The sixteen words at \<open>ptr\<close>.\<close>

definition block_words :: "u8 list \<Rightarrow> u32 list" where
  "block_words ptr = map (SET ptr) [0..<16]"

lemma length_SET_store [simp]: "length (SET_store ptr n block) = length block"
  by (simp add: SET_store_def)

lemma length_block_words [simp]: "length (block_words ptr) = 16"
  by (simp add: block_words_def)

lemma GET_SET_store [simp]: "n < length block \<Longrightarrow> GET (SET_store ptr n block) n = SET ptr n"
  by (simp add: GET_def SET_store_def SET_portable_eq)

lemma GET_block_words [simp]: "n < 16 \<Longrightarrow> GET (block_words ptr) n = SET ptr n"
  by (simp add: GET_def block_words_def)

lemma fold_SET_store_nth:
  "i < length block \<Longrightarrow> fold (SET_store ptr) ns block ! i = (if i \<in> set ns then SET ptr i else block ! i)"
  by (induction ns arbitrary: block) (auto simp: SET_store_def SET_portable_eq nth_list_update)

lemma length_fold_SET_store [simp]: "length (fold (SET_store ptr) ns block) = length block"
  by (induction ns arbitrary: block) auto

lemma fold_SET_store: "length block = 16 \<Longrightarrow> fold (SET_store ptr) [0..<16] block = block_words ptr"
  by (rule nth_equalityI) (auto simp: fold_SET_store_nth block_words_def)

lemma indices_16: "[0..<16] = [0, 1, 2, 3, 4, 5, 6, 7, 8, 9, 10, 11, 12, 13, 14, 15 :: nat]"
  by (simp add: upt_rec)

text \<open>A \<open>STEP\<close> with \<open>SET\<close> stores a word and uses it at once.\<close>

lemma store_then_step:
  "n < length block \<Longrightarrow>
   (let blk = SET_store ptr n block; r = STEP f a b c d (GET blk n) s in k blk r) =
   (let r = STEP f a b c d (SET ptr n) s in k (SET_store ptr n block) r)"
  by (simp add: Let_def)

lemma let_pair_out: "(let x = v in (w, k x)) = (w, let x = v in k x)"
  by (simp add: Let_def)

lemma word_indices:
  "0 < (16 :: nat)" "1 < (16 :: nat)" "2 < (16 :: nat)" "3 < (16 :: nat)" "4 < (16 :: nat)"
  "5 < (16 :: nat)" "6 < (16 :: nat)" "7 < (16 :: nat)" "8 < (16 :: nat)" "9 < (16 :: nat)"
  "10 < (16 :: nat)" "11 < (16 :: nat)" "12 < (16 :: nat)" "13 < (16 :: nat)" "14 < (16 :: nat)"
  "15 < (16 :: nat)"
  by simp_all

lemma portable_round1_eq:
  assumes "length block = 16"
  shows "portable_round1 ptr block (a, b, c, d) = (block_words ptr, md4_round1 ptr (a, b, c, d))"
proof -
  have "fold (SET_store ptr) [0, 1, 2, 3, 4, 5, 6, 7, 8, 9, 10, 11, 12, 13, 14, 15] block = block_words ptr"
    using fold_SET_store [OF assms, of ptr] by (simp only: indices_16)
  then have stored: "SET_store ptr 15 (SET_store ptr 14 (SET_store ptr 13 (SET_store ptr 12 (SET_store ptr 11 (SET_store ptr 10
    (SET_store ptr 9 (SET_store ptr 8 (SET_store ptr 7 (SET_store ptr 6 (SET_store ptr 5 (SET_store ptr 4
    (SET_store ptr 3 (SET_store ptr 2 (SET_store ptr 1 (SET_store ptr 0 block))))))))))))))) = block_words ptr"
    by (simp only: fold_simps)
  show ?thesis
    unfolding portable_round1_def md4_round1_def prod.case
    by (simp only: store_then_step length_SET_store assms word_indices simp_thms cong del: let_weak_cong)
       (simp only: stored let_pair_out [where w = "block_words ptr"] cong del: let_weak_cong)
qed

lemma portable_round2_eq: "portable_round2 (block_words ptr) = md4_round2 ptr"
  by (simp only: portable_round2_def md4_round2_def GET_block_words word_indices simp_thms cong del: let_weak_cong)

lemma portable_round3_eq: "portable_round3 (block_words ptr) = md4_round3 ptr"
  by (simp only: portable_round3_def md4_round3_def GET_block_words word_indices simp_thms cong del: let_weak_cong)

lemma portable_block_eq:
  assumes "length block = 16"
  shows "portable_block ptr (block, r) = (block_words ptr, md4_block ptr r)"
proof -
  obtain a b c d where r: "r = (a, b, c, d)"
    by (cases r)
  obtain a' b' c' d' where r': "md4_round3 ptr (md4_round2 ptr (md4_round1 ptr (a, b, c, d))) = (a', b', c', d')"
    by (cases "md4_round3 ptr (md4_round2 ptr (md4_round1 ptr (a, b, c, d)))")
  obtain a1 b1 c1 d1 where r1: "md4_round1 ptr (a, b, c, d) = (a1, b1, c1, d1)"
    by (cases "md4_round1 ptr (a, b, c, d)")
  show ?thesis
    using r' by (simp add: r r1 portable_block_def md4_block_def portable_round1_eq assms portable_round2_eq portable_round3_eq)
qed

lemma body_loop_rest:
  "body_loop r ptr sz = Inr (r', rest) \<Longrightarrow> length rest + 64 \<le> length ptr"
proof (induction r ptr sz rule: body_loop.induct)
  case (1 r ptr sz)
  show ?case
    using 1 by (cases r) (fastforce simp: body_loop.simps [of _ ptr] Let_def split: if_splits)
qed

lemma portable_loop_eq:
  "length block = 16 \<Longrightarrow>
   portable_loop (block, r) ptr sz =
     (case body_loop r ptr sz of
        Inl e \<Rightarrow> Inl e
      | Inr (r', rest) \<Rightarrow> Inr ((block_words (drop (length ptr - length rest - 64) ptr), r'), rest))"
proof (induction "length ptr" arbitrary: block r ptr sz rule: less_induct)
  case less
  show ?case
  proof (cases "length ptr < 64")
    case True
    then show ?thesis
      by (simp add: portable_loop.simps [of _ ptr] body_loop.simps [of _ ptr])
  next
    case long: False
    show ?thesis
    proof (cases "sz - 64 = 0")
      case True
      then show ?thesis
        using long less.prems
        by (simp add: portable_loop.simps [of _ ptr] body_loop.simps [of _ ptr] portable_block_eq Let_def)
    next
      case False
      have IH: "portable_loop (block_words ptr, md4_block ptr r) (drop 64 ptr) (sz - 64) =
        (case body_loop (md4_block ptr r) (drop 64 ptr) (sz - 64) of
           Inl e \<Rightarrow> Inl e
         | Inr (r', rest) \<Rightarrow>
             Inr ((block_words (drop (length (drop 64 ptr) - length rest - 64) (drop 64 ptr)), r'), rest))"
        using long by (intro less.hyps) simp_all
      have room: "length rest + 128 \<le> length ptr"
        if "body_loop (md4_block ptr r) (drop 64 ptr) (sz - 64) = Inr (r', rest)" for r' rest
        using body_loop_rest [OF that] long by simp
      show ?thesis
        using long less.prems False IH room
        by (auto simp: portable_loop.simps [of _ ptr] body_loop.simps [of _ ptr] portable_block_eq Let_def
            add.commute split: sum.splits)
    qed
  qed
qed

text \<open>
  C9. Both builds of \<open>md4.c\<close> compute the same: \<open>body\<close> with the \<open>SET\<close> and \<open>GET\<close> that go through the
  array \<open>block\<close> of the context faults when \<open>body\<close> with the unaligned loads does, ends at the same
  place with the same registers otherwise, and differs in nothing but that array, which then
  holds the sixteen words of the last block it processed.
\<close>

theorem builds_agree:
  assumes "length (md_block ctx) = 16"
  shows "portable_body ctx data sz =
    (case body ctx data sz of
       Inl e \<Rightarrow> Inl e
     | Inr (ctx', rest) \<Rightarrow>
         Inr (ctx'\<lparr>md_block := map (rfc_word (drop (length data - length rest - 64) data)) [0..<16]\<rparr>, rest))"
  using assms
  by (auto simp: portable_body_def body_def portable_loop_eq block_words_def SET_eq_rfc_word
      split: sum.splits)

theorem builds_agree_witness:
  "portable_body zero_ctx (replicate 70 7) 64 =
    (case body zero_ctx (replicate 70 7) 64 of
       Inl e \<Rightarrow> Inl e
     | Inr (ctx', rest) \<Rightarrow>
         Inr (ctx'\<lparr>md_block := map (rfc_word (drop (length (replicate 70 7 :: u8 list) - length rest - 64) (replicate 70 7)))
                [0..<16]\<rparr>, rest))"
  by (rule builds_agree) (simp add: zero_ctx_def)

end
