(* ===== verification/Rasta_Types.thy ===== *)
theory Rasta_Types
  imports Rasta_Prelude
begin

text \<open>
  The data of the safety layer: the types of \<open>pdu.h\<close>, \<open>sm.h\<close>, \<open>time_mon.h\<close> and
  \<open>safecom_vtable.h\<close>, pointers as a block and an offset, and the memory and environment the
  functions share. Code that the library calls but does not contain (the application's
  callbacks, \<open>clock()\<close>, whatever the machine leaves in dead or uninitialised stack memory)
  appears only as fields of the environment that nothing constrains.
\<close>

section \<open>Pointers\<close>

text \<open>
  The arrays that can be pointed to: the four \<open>static uint8_t buffer[]\<close> of the payload
  builders in \<open>pdu.c\<close>, the array \<open>safety_code\<close> of a finished call of \<open>calculate_MD4\<close>, and
  arrays of the caller (received SPDUs, data to send).
\<close>

datatype blk = ConnReq_buffer | ConnResp_buffer | DiscReq_buffer | Data_buffer | Dead_frame | Ext nat

datatype ptr = NULL | Ptr blk nat

section \<open>Callbacks\<close>

text \<open>
  Function pointers by the name of the function; \<open>None\<close> is the null pointer. A \<open>SafeComVtable\<close>
  lives inside one of the two \<open>SafeCom\<close> instances of the library.
\<close>

datatype send_fn = OsCom_SendSpdu_fn | IscDispApp_SendSpdu_fn | App_SendSpdu nat
datatype recv_fn = OsCom_ReceiveMsg_fn | Fec_ReceiveBtp_fn | App_ReceiveMsg nat

record SafeComVtable =
  SendSpdu :: "send_fn option"
  ReceiveMsg :: "recv_fn option"

datatype inst = RassInstance | SicInstance

section \<open>Protocol data units\<close>

datatype MessageType = CONNECTION_REQUEST | CONNECTION_RESPONSE | RETRANSMISSION_REQUEST
  | RETRANSMISSION_RESPONSE | DISCONNECTION_REQUEST | HEARTBEAT | DATA | RETRANSMITTED_DATA

text \<open>The enumerators' values; the field itself can hold any value read from the wire.\<close>

fun message_code :: "MessageType \<Rightarrow> u32" where
  "message_code CONNECTION_REQUEST = 6200"
| "message_code CONNECTION_RESPONSE = 6201"
| "message_code RETRANSMISSION_REQUEST = 6212"
| "message_code RETRANSMISSION_RESPONSE = 6213"
| "message_code DISCONNECTION_REQUEST = 6216"
| "message_code HEARTBEAT = 6220"
| "message_code DATA = 6240"
| "message_code RETRANSMITTED_DATA = 6241"

record PDU_S =
  message_length :: u16
  message_type :: u32
  receiver_id :: u32
  sender_id :: u32
  sequence_number :: u32
  confirmed_sequence_number :: u32
  timestamp :: u32
  confirmed_timestamp :: u32
  payload :: ptr
  safety_code :: ptr

text \<open>\<open>PDU_S pdu = { 0 };\<close>\<close>

definition zero_pdu :: PDU_S where
  "zero_pdu = \<lparr>message_length = 0, message_type = 0, receiver_id = 0, sender_id = 0,
     sequence_number = 0, confirmed_sequence_number = 0, timestamp = 0, confirmed_timestamp = 0,
     payload = NULL, safety_code = NULL\<rparr>"

datatype DiscReasonType = USER_REQUEST | UNDEFINED_MSG_TYPE_RECV | NOT_EXPECTED_RECV_MSG_TYPE
  | SEQ_NBR_ERR_FOR_CONNECTION | TIMEOUT_INCOMING_MSG | STATE_SERVICE_NOT_ALLOWED
  | PROTOCOL_VERSION_ERROR | FAIL_RETRANSMISSION | SEQ_ERR

fun reason_code :: "DiscReasonType \<Rightarrow> u8" where
  "reason_code USER_REQUEST = 0"
| "reason_code UNDEFINED_MSG_TYPE_RECV = 1"
| "reason_code NOT_EXPECTED_RECV_MSG_TYPE = 2"
| "reason_code SEQ_NBR_ERR_FOR_CONNECTION = 3"
| "reason_code TIMEOUT_INCOMING_MSG = 4"
| "reason_code STATE_SERVICE_NOT_ALLOWED = 5"
| "reason_code PROTOCOL_VERSION_ERROR = 6"
| "reason_code FAIL_RETRANSMISSION = 7"
| "reason_code SEQ_ERR = 8"

section \<open>The context of a connection\<close>

record TimeoutsConfig =
  Th :: u32
  Tmax :: u32
  Tseq :: u32

text \<open>The only time source the library installs is \<open>GetCurrentTimestamp\<close>.\<close>

datatype time_fn = GetCurrentTimestamp_fn

record TimeMonitoring =
  timeouts :: TimeoutsConfig
  Tlocal :: "time_fn option"
  Ti :: i32
  Trtd :: u32
  Talive :: u32
  TA :: u32
  TB :: u32

datatype State = STATE_CLOSED | STATE_DOWN | STATE_START | STATE_UP | STATE_RETR_REQ | STATE_RETR_RUN

datatype Event = EVENT_TH_ELAPSED | EVENT_TI_ELAPSED | EVENT_OPEN_CONN | EVENT_CLOSE_CONN
  | EVENT_SEND_DATA | EVENT_RECV_CONN_REQ | EVENT_RECV_CONN_RESP | EVENT_RECV_RETR_REQ
  | EVENT_RECV_RETR_RESP | EVENT_RECV_DISC_REQ | EVENT_RECV_HB | EVENT_RECV_DATA
  | EVENT_RECV_RETR_DATA

datatype SmRole = ROLE_CLIENT | ROLE_SERVER

datatype EventHandler = handle_closed_fn | handle_down_fn | handle_start_fn | handle_up_fn
  | handle_retr_req_fn | handle_retr_run_fn

record SmType =
  channel :: u32
  sm_state :: State
  sm_role :: SmRole
  snr :: i32
  snt :: i32
  cst :: i32
  csr :: i32
  tsr :: i32
  ctsr :: i32
  handle_event :: "EventHandler option"
  vtable :: "inst option"
  sm_time :: TimeMonitoring

text \<open>\<open>SmType sms[N] = { 0 };\<close>\<close>

definition zero_time :: TimeMonitoring where
  "zero_time = \<lparr>timeouts = \<lparr>Th = 0, Tmax = 0, Tseq = 0\<rparr>, Tlocal = None, Ti = 0, Trtd = 0, Talive = 0,
     TA = 0, TB = 0\<rparr>"

definition zero_sm :: SmType where
  "zero_sm = \<lparr>channel = 0, sm_state = STATE_CLOSED, sm_role = ROLE_CLIENT, snr = 0, snt = 0, cst = 0,
     csr = 0, tsr = 0, ctsr = 0, handle_event = None, vtable = None, sm_time = zero_time\<rparr>"

section \<open>Memory and environment\<close>

text \<open>One call of a \<open>SendSpdu\<close> callback: the function, its arguments, and the bytes it is shown.\<close>

record spdu_call =
  call_fn :: send_fn
  call_node :: u32
  call_len :: u32
  call_data :: "u8 list"

text \<open>
  \<^item> the static buffers of \<open>pdu.c\<close>, the static \<open>buff_to_send\<close> of \<open>sm.c\<close>, the static \<open>seed\<close> of
    \<open>snt_rand_value\<close>, and the caller's arrays;
  \<^item> \<open>dead_frame\<close>: what \<open>calculate_MD4\<close> last wrote to its local array \<open>safety_code\<close>. The code
    keeps a pointer to that array after the call has returned. Reading it then is undefined in C;
    here the \<open>n\<close>-th such read sees the old byte changed by \<open>decay n\<close>, and nothing is assumed
    of \<open>decay\<close>;
  \<^item> \<open>uninit\<close>: the contents of a local array before it is written;
  \<^item> \<open>clock_value n\<close>: what the \<open>n\<close>-th call of \<open>clock()\<close> returns;
  \<^item> \<open>sent\<close>: the calls of \<open>SendSpdu\<close> so far.
\<close>

record world =
  conn_req_buffer :: "u8 list"
  conn_resp_buffer :: "u8 list"
  disc_req_buffer :: "u8 list"
  data_buffer :: "u8 list"
  ext :: "nat \<Rightarrow> u8 list"
  dead_frame :: "u8 list"
  dead_reads :: nat
  decay :: "nat \<Rightarrow> u8 \<Rightarrow> u8"
  uninit :: "nat \<Rightarrow> u8"
  buff_to_send :: "u8 list"
  seed :: u32
  clock_value :: "nat \<Rightarrow> u64"
  clock_calls :: nat
  vtables :: "inst \<Rightarrow> SafeComVtable"
  sent :: "spdu_call list"

definition array_of :: "world \<Rightarrow> blk \<Rightarrow> u8 list" where
  "array_of w b = (case b of ConnReq_buffer \<Rightarrow> conn_req_buffer w | ConnResp_buffer \<Rightarrow> conn_resp_buffer w
     | DiscReq_buffer \<Rightarrow> disc_req_buffer w | Data_buffer \<Rightarrow> data_buffer w | Dead_frame \<Rightarrow> dead_frame w
     | Ext n \<Rightarrow> ext w n)"

text \<open>The sizes of the arrays the library declares; fixed for the life of the program.\<close>

definition wf_world :: "world \<Rightarrow> bool" where
  "wf_world w \<longleftrightarrow> length (conn_req_buffer w) = 14 \<and> length (conn_resp_buffer w) = 14 \<and>
     length (disc_req_buffer w) = 4 \<and> length (data_buffer w) = 4 \<and> length (dead_frame w) = 16 \<and>
     length (buff_to_send w) = 100"

text \<open>A local array of \<open>n\<close> bytes on entry to its block.\<close>

definition local_array :: "world \<Rightarrow> nat \<Rightarrow> u8 list" where
  "local_array w n = map (uninit w) [0..<n]"

lemma length_local_array [simp]: "length (local_array w n) = n"
  by (simp add: local_array_def)

text \<open>The expression \<open>p[i]\<close>.\<close>

definition load :: "ptr \<Rightarrow> nat \<Rightarrow> world \<Rightarrow> (u8 \<times> world) outcome" where
  "load p i w = (case p of NULL \<Rightarrow> Inl Null_Deref
     | Ptr b off \<Rightarrow> bindE (array_get (array_of w b) (off + i)) (\<lambda>v.
         if b = Dead_frame
         then Inr (decay w (dead_reads w) v, w\<lparr>dead_reads := Suc (dead_reads w)\<rparr>)
         else Inr (v, w)))"

text \<open>The bytes \<open>p[i], \<dots>, p[i + n - 1]\<close>, read in this order.\<close>

primrec load_bytes :: "ptr \<Rightarrow> nat \<Rightarrow> nat \<Rightarrow> world \<Rightarrow> (u8 list \<times> world) outcome" where
  "load_bytes p i 0 w = Inr ([], w)"
| "load_bytes p i (Suc n) w =
     bindE (load p i w) (\<lambda>(v, w). bindE (load_bytes p (Suc i) n w) (\<lambda>(vs, w). Inr (v # vs, w)))"

text \<open>
  In closed form: the \<open>n\<close> bytes at \<open>p\<close> can be read when they lie inside the array; what is then
  seen, and the effect of looking at a dead frame.
\<close>

definition readable :: "world \<Rightarrow> ptr \<Rightarrow> nat \<Rightarrow> bool" where
  "readable w p n \<longleftrightarrow> n = 0 \<or> (case p of NULL \<Rightarrow> False | Ptr b off \<Rightarrow> off + n \<le> length (array_of w b))"

definition seen_bytes :: "world \<Rightarrow> ptr \<Rightarrow> nat \<Rightarrow> u8 list" where
  "seen_bytes w p n = (case p of NULL \<Rightarrow> []
     | Ptr b off \<Rightarrow>
         if b = Dead_frame
         then map (\<lambda>j. decay w (dead_reads w + j) (dead_frame w ! (off + j))) [0..<n]
         else take n (drop off (array_of w b)))"

definition note_reads :: "ptr \<Rightarrow> nat \<Rightarrow> world \<Rightarrow> world" where
  "note_reads p n w = (case p of NULL \<Rightarrow> w
     | Ptr b off \<Rightarrow> if b = Dead_frame then w\<lparr>dead_reads := dead_reads w + n\<rparr> else w)"

lemma array_of_dead_reads [simp]: "array_of (w\<lparr>dead_reads := k\<rparr>) b = array_of w b"
  by (cases b) (simp_all add: array_of_def)

lemma array_of_note_reads [simp]: "array_of (note_reads p n w) b = array_of w b"
  by (cases p) (simp_all add: note_reads_def)

lemma readable_note_reads [simp]: "readable (note_reads p n w) q k = readable w q k"
  by (simp add: readable_def cong: ptr.case_cong)

lemma readable_0 [simp]: "readable w p 0"
  by (simp add: readable_def)

lemma readable_Ptr: "readable w (Ptr b off) n \<longleftrightarrow> n = 0 \<or> off + n \<le> length (array_of w b)"
  by (simp add: readable_def)

lemma note_reads_fields [simp]:
  "conn_req_buffer (note_reads p n w) = conn_req_buffer w"
  "conn_resp_buffer (note_reads p n w) = conn_resp_buffer w"
  "disc_req_buffer (note_reads p n w) = disc_req_buffer w"
  "data_buffer (note_reads p n w) = data_buffer w"
  "ext (note_reads p n w) = ext w" "dead_frame (note_reads p n w) = dead_frame w"
  "decay (note_reads p n w) = decay w" "uninit (note_reads p n w) = uninit w"
  "buff_to_send (note_reads p n w) = buff_to_send w" "seed (note_reads p n w) = seed w"
  "clock_value (note_reads p n w) = clock_value w" "clock_calls (note_reads p n w) = clock_calls w"
  "vtables (note_reads p n w) = vtables w" "sent (note_reads p n w) = sent w"
  by (cases p; simp add: note_reads_def)+

lemma wf_world_note_reads [simp]: "wf_world (note_reads p n w) = wf_world w"
  by (simp add: wf_world_def)

lemma length_seen_bytes: "readable w p n \<Longrightarrow> length (seen_bytes w p n) = (if p = NULL then 0 else n)"
  by (cases p) (auto simp: readable_def seen_bytes_def)

lemma load_live:
  "b \<noteq> Dead_frame \<Longrightarrow> load (Ptr b off) i w = bindE (array_get (array_of w b) (off + i)) (\<lambda>v. Inr (v, w))"
  by (simp add: load_def)

lemma load_bytes_live:
  "off + i + n \<le> length (array_of w b) \<Longrightarrow> b \<noteq> Dead_frame \<Longrightarrow>
   load_bytes (Ptr b off) i n w = Inr (take n (drop (off + i) (array_of w b)), w)"
proof (induction n arbitrary: i)
  case 0
  then show ?case by simp
next
  case (Suc n)
  then have "load_bytes (Ptr b off) (Suc i) n w = Inr (take n (drop (Suc (off + i)) (array_of w b)), w)"
    by simp
  with Suc.prems show ?case
    by (simp add: load_def array_get_def Cons_nth_drop_Suc [symmetric])
qed

lemma load_bytes_dead:
  "off + i + n \<le> length (dead_frame w) \<Longrightarrow>
   load_bytes (Ptr Dead_frame off) i n w =
   Inr (map (\<lambda>j. decay w (dead_reads w + j) (dead_frame w ! (off + i + j))) [0..<n],
        w\<lparr>dead_reads := dead_reads w + n\<rparr>)"
proof (induction n arbitrary: i w)
  case 0
  then show ?case by simp
next
  case (Suc n)
  have "load_bytes (Ptr Dead_frame off) (Suc i) n (w\<lparr>dead_reads := Suc (dead_reads w)\<rparr>) =
      Inr (map (\<lambda>j. decay w (Suc (dead_reads w) + j) (dead_frame w ! (off + Suc i + j))) [0..<n],
           w\<lparr>dead_reads := Suc (dead_reads w) + n\<rparr>)"
    using Suc.IH [of "Suc i" "w\<lparr>dead_reads := Suc (dead_reads w)\<rparr>"] Suc.prems by simp
  with Suc.prems show ?case
    by (simp add: load_def array_get_def array_of_def map_upt_Suc del: upt_Suc)
qed

lemma load_bytes_readable:
  assumes "readable w p n"
  shows "load_bytes p 0 n w = Inr (seen_bytes w p n, note_reads p n w)"
proof (cases p)
  case NULL
  then show ?thesis using assms by (simp add: readable_def seen_bytes_def note_reads_def)
next
  case (Ptr b off)
  then show ?thesis
    using assms load_bytes_live [of off 0 n w b] load_bytes_dead [of off 0 n w]
    by (cases "n = 0"; cases "b = Dead_frame")
       (auto simp: readable_def seen_bytes_def note_reads_def array_of_def)
qed

text \<open>The \<open>n\<close>-byte loop over a pointer leaves the array as soon as it is too short.\<close>

lemma load_outside:
  "off + i \<ge> length (array_of w b) \<Longrightarrow> load (Ptr b off) i w = Inl Out_Of_Bounds"
  by (simp add: load_def array_get_def)

lemma load_inside:
  assumes "off + i < length (array_of w b)"
  obtains v w' where "load (Ptr b off) i w = Inr (v, w')" and "array_of w' b = array_of w b"
  using assms by (cases "b = Dead_frame") (auto simp: load_def array_get_def)

lemma load_bytes_outside:
  "0 < n \<Longrightarrow> length (array_of w b) < off + i + n \<Longrightarrow> load_bytes (Ptr b off) i n w = Inl Out_Of_Bounds"
proof (induction n arbitrary: i w)
  case 0
  then show ?case by simp
next
  case (Suc n)
  show ?case
  proof (cases "off + i < length (array_of w b)")
    case True
    obtain v w' where "load (Ptr b off) i w = Inr (v, w')" and "array_of w' b = array_of w b"
      by (rule load_inside [OF True])
    then show ?thesis using Suc.IH [of w' "Suc i"] Suc.prems True by (cases n) auto
  next
    case False
    then show ?thesis by (simp add: load_outside)
  qed
qed

lemma load_bytes_unreadable: "p \<noteq> NULL \<Longrightarrow> \<not> readable w p n \<Longrightarrow> load_bytes p 0 n w = Inl Out_Of_Bounds"
  by (cases p) (auto simp: readable_def intro!: load_bytes_outside)

lemma load_bytes_fault: "p \<noteq> NULL \<Longrightarrow> load_bytes p i n w = Inl e \<Longrightarrow> e = Out_Of_Bounds"
proof (induction n arbitrary: i w)
  case 0
  then show ?case by simp
next
  case (Suc n)
  then show ?case
    by (cases p) (auto simp: bindE_def load_def array_get_def split: sum.splits if_splits prod.splits)
qed

lemma load_bytes_length: "load_bytes p i n w = Inr (vs, w') \<Longrightarrow> length vs = n"
  by (induction n arbitrary: i w vs w') (auto elim!: bindE_InrE)


section \<open>Program start\<close>

text \<open>
  Memory when the program starts: static arrays are zero, the static \<open>seed\<close> is 12345, no
  instance has callbacks yet. The caller's arrays, the decay of dead frames, uninitialised
  memory and the clock are the environment's.
\<close>

definition initial_world :: "(nat \<Rightarrow> u8 list) \<Rightarrow> (nat \<Rightarrow> u8 \<Rightarrow> u8) \<Rightarrow> (nat \<Rightarrow> u8) \<Rightarrow> (nat \<Rightarrow> u64) \<Rightarrow> world" where
  "initial_world arrays dec un clk =
     \<lparr>conn_req_buffer = replicate 14 0, conn_resp_buffer = replicate 14 0, disc_req_buffer = replicate 4 0,
      data_buffer = replicate 4 0, ext = arrays, dead_frame = replicate 16 0, dead_reads = 0, decay = dec,
      uninit = un, buff_to_send = replicate 100 0, seed = 12345, clock_value = clk, clock_calls = 0,
      vtables = (\<lambda>_. \<lparr>SendSpdu = None, ReceiveMsg = None\<rparr>), sent = []\<rparr>"

lemma wf_initial_world [simp]: "wf_world (initial_world arrays dec un clk)"
  by (simp add: wf_world_def initial_world_def)

end
