(* ===== verification/Time_Mon.thy ===== *)
theory Time_Mon
  imports Rasta_Types
begin

text \<open>
  The time source of \<open>safecom/src/time_mon.c\<close> and the call of it through the function pointer
  \<open>self->time.Tlocal\<close>. \<open>clock()\<close> is a parameter: the environment fixes what each call returns.
  \<open>CLOCKS_PER_SEC\<close> is 1000000 on every XSI-conforming system.
\<close>

definition CLOCKS_PER_SEC :: u32 where
  "CLOCKS_PER_SEC = 1000000"

definition GetCurrentTimestamp :: "world \<Rightarrow> u32 \<times> world" where
  "GetCurrentTimestamp w =
     (let ticks = ucast (clock_value w (clock_calls w)) :: u32;
          seconds = ticks div CLOCKS_PER_SEC
      in (seconds, w\<lparr>clock_calls := Suc (clock_calls w)\<rparr>))"

definition call_Tlocal :: "SmType \<Rightarrow> world \<Rightarrow> (u32 \<times> world) outcome" where
  "call_Tlocal sm w = (case Tlocal (sm_time sm) of None \<Rightarrow> Inl Null_Call
     | Some GetCurrentTimestamp_fn \<Rightarrow> Inr (GetCurrentTimestamp w))"

text \<open>The reading that the \<open>n\<close>-th call gives.\<close>

definition reading :: "world \<Rightarrow> nat \<Rightarrow> u32" where
  "reading w n = ucast (clock_value w n) div CLOCKS_PER_SEC"

lemma GetCurrentTimestamp_reading:
  "GetCurrentTimestamp w = (reading w (clock_calls w), w\<lparr>clock_calls := Suc (clock_calls w)\<rparr>)"
  by (simp add: GetCurrentTimestamp_def reading_def Let_def)

lemma call_Tlocal_ok:
  "Tlocal (sm_time sm) = Some f \<Longrightarrow>
   call_Tlocal sm w = Inr (reading w (clock_calls w), w\<lparr>clock_calls := Suc (clock_calls w)\<rparr>)"
  by (cases f) (simp add: call_Tlocal_def GetCurrentTimestamp_reading)

lemma unat_reading: "unat (reading w n) = unat (clock_value w n) mod 2 ^ 32 div 1000000"
  by (simp add: reading_def CLOCKS_PER_SEC_def unat_div_distrib unat_ucast_down)

text \<open>
  The clock of the library: a time stamp is processor time in whole seconds, taken from the
  low 32 bits of \<open>clock()\<close>. It never exceeds 4294 and starts again at 0 when these bits wrap, so
  the difference of two time stamps is not the time between them across a wrap.
\<close>

theorem GetCurrentTimestamp_range:
  "unat (fst (GetCurrentTimestamp w)) = unat (clock_value w (clock_calls w)) mod 2 ^ 32 div 1000000 \<and>
   unat (fst (GetCurrentTimestamp w)) \<le> 4294 \<and>
   clock_calls (snd (GetCurrentTimestamp w)) = Suc (clock_calls w)"
proof -
  have "x mod 2 ^ 32 div 1000000 \<le> (4294 :: nat)" for x
  proof -
    have "x mod 2 ^ 32 \<le> (2 ^ 32 - 1 :: nat)" by simp
    then have "x mod 2 ^ 32 div 1000000 \<le> (2 ^ 32 - 1) div (1000000 :: nat)" by (rule div_le_mono)
    then show ?thesis by simp
  qed
  then show ?thesis by (simp only: GetCurrentTimestamp_reading unat_reading fst_conv snd_conv) simp
qed

end
