(* ===== verification/Pdu.thy ===== *)
theory Pdu
  imports Time_Mon Md4_Reference
begin

text \<open>
  \<open>safecom/src/pdu.c\<close>: the big-endian field accessors, serialisation and deserialisation of a
  protocol data unit, the payload builders with their static buffers, the safety code, and the
  constructors of the seven PDUs the state machine sends. Buffers are byte lists of the declared
  size, a store outside of which is \<open>Out_Of_Bounds\<close>; an offset never reaches \<open>2 ^ 64\<close>, so
  \<open>size_t\<close> offsets are natural numbers. The assertions on the arguments \<open>pdu\<close>, \<open>buffer\<close> and
  \<open>offset\<close> hold by construction, as these are always addresses of variables.
\<close>

section \<open>Field accessors\<close>

text \<open>The state of a serialisation: the buffer, \<open>*offset\<close>, and the rest of the memory.\<close>

type_synonym wstate = "u8 list \<times> nat \<times> world"

definition write_uint16 :: "u16 \<Rightarrow> wstate \<Rightarrow> wstate outcome" where
  "write_uint16 v = (\<lambda>(buffer, offset, w).
     bindE (array_set buffer offset (ucast (drop_bit 8 v))) (\<lambda>buffer.
     bindE (array_set buffer (offset + 1) (ucast v)) (\<lambda>buffer.
     Inr (buffer, offset + 2, w))))"

definition write_uint32 :: "u32 \<Rightarrow> wstate \<Rightarrow> wstate outcome" where
  "write_uint32 v = (\<lambda>(buffer, offset, w).
     bindE (array_set buffer offset (ucast (drop_bit 24 v))) (\<lambda>buffer.
     bindE (array_set buffer (offset + 1) (ucast (drop_bit 16 v))) (\<lambda>buffer.
     bindE (array_set buffer (offset + 2) (ucast (drop_bit 8 v))) (\<lambda>buffer.
     bindE (array_set buffer (offset + 3) (ucast v)) (\<lambda>buffer.
     Inr (buffer, offset + 4, w))))))"

text \<open>The state of a deserialisation: \<open>*offset\<close> and the memory.\<close>

definition read_uint16 :: "ptr \<Rightarrow> nat \<Rightarrow> world \<Rightarrow> (u16 \<times> nat \<times> world) outcome" where
  "read_uint16 p offset w =
     assertE (p \<noteq> NULL) (
     bindE (load p offset w) (\<lambda>(b0, w).
     bindE (load p (offset + 1) w) (\<lambda>(b1, w).
     Inr (push_bit 8 (ucast b0) OR ucast b1, offset + 2, w))))"

definition read_uint32 :: "ptr \<Rightarrow> nat \<Rightarrow> world \<Rightarrow> (u32 \<times> nat \<times> world) outcome" where
  "read_uint32 p offset w =
     assertE (p \<noteq> NULL) (
     bindE (load p offset w) (\<lambda>(b0, w).
     bindE (load p (offset + 1) w) (\<lambda>(b1, w).
     bindE (load p (offset + 2) w) (\<lambda>(b2, w).
     bindE (load p (offset + 3) w) (\<lambda>(b3, w).
     Inr (push_bit 24 (ucast b0) OR push_bit 16 (ucast b1) OR push_bit 8 (ucast b2) OR ucast b3,
          offset + 4, w))))))"

section \<open>Serialisation\<close>

text \<open>The loops \<open>for (...) buffer[offset++] = p[i];\<close>, with \<open>n\<close> turns to go.\<close>

primrec copy_loop :: "nat \<Rightarrow> ptr \<Rightarrow> nat \<Rightarrow> wstate \<Rightarrow> wstate outcome" where
  "copy_loop 0 p i s = Inr s"
| "copy_loop (Suc n) p i s =
     (case s of (buffer, offset, w) \<Rightarrow>
        bindE (load p i w) (\<lambda>(v, w).
        bindE (array_set buffer offset v) (\<lambda>buffer.
        copy_loop n p (Suc i) (buffer, Suc offset, w))))"

text \<open>
  \<open>pdu->message_length - PDU_FIXED_FIELDS_LENGTH\<close>: an \<open>unsigned int\<close> subtraction, then widened to
  \<open>size_t\<close>. Its \<open>assert(payload_length >= 0)\<close> compares an unsigned value with zero.
\<close>

definition payload_length :: "PDU_S \<Rightarrow> nat" where
  "payload_length pdu = unat (ucast (message_length pdu) - 36 :: u32)"

definition write_payload :: "PDU_S \<Rightarrow> wstate \<Rightarrow> wstate outcome" where
  "write_payload pdu s =
     (if payload pdu \<noteq> NULL
      then assertE (payload_length pdu \<ge> 0) (copy_loop (payload_length pdu) (payload pdu) 0 s)
      else Inr s)"

definition write_safety_code :: "PDU_S \<Rightarrow> wstate \<Rightarrow> wstate outcome" where
  "write_safety_code pdu s =
     (if safety_code pdu \<noteq> NULL then copy_loop 8 (safety_code pdu) 0 s else Inr s)"

definition serialize_pdu :: "PDU_S \<Rightarrow> u8 list \<Rightarrow> nat \<Rightarrow> world \<Rightarrow> (u8 list \<times> world) outcome" where
  "serialize_pdu pdu buffer buffer_size w =
     (if buffer_size < unat (message_length pdu) then Inr (buffer, w)
      else bindE (run
        [write_uint16 (message_length pdu),
         write_uint16 (ucast (message_type pdu)),
         write_uint32 (receiver_id pdu),
         write_uint32 (sender_id pdu),
         write_uint32 (sequence_number pdu),
         write_uint32 (confirmed_sequence_number pdu),
         write_uint32 (timestamp pdu),
         write_uint32 (confirmed_timestamp pdu),
         write_payload pdu,
         write_safety_code pdu] (buffer, 0, w)) (\<lambda>(buffer, offset, w). Inr (buffer, w)))"

section \<open>Deserialisation\<close>

definition ptr_add :: "ptr \<Rightarrow> nat \<Rightarrow> ptr" where
  "ptr_add p n = (case p of NULL \<Rightarrow> NULL | Ptr b off \<Rightarrow> Ptr b (off + n))"

definition deserialize_pdu :: "ptr \<Rightarrow> nat \<Rightarrow> PDU_S \<Rightarrow> world \<Rightarrow> (PDU_S \<times> world) outcome" where
  "deserialize_pdu buffer buffer_size pdu w =
     assertE (buffer \<noteq> NULL) (
     if buffer_size < 36 then Inr (pdu, w)
     else
       bindE (read_uint16 buffer 0 w) (\<lambda>(v, offset, w).
       let pdu = pdu\<lparr>message_length := v\<rparr> in
       bindE (read_uint16 buffer offset w) (\<lambda>(v, offset, w).
       let pdu = pdu\<lparr>message_type := ucast v\<rparr> in
       bindE (read_uint32 buffer offset w) (\<lambda>(v, offset, w).
       let pdu = pdu\<lparr>receiver_id := v\<rparr> in
       bindE (read_uint32 buffer offset w) (\<lambda>(v, offset, w).
       let pdu = pdu\<lparr>sender_id := v\<rparr> in
       bindE (read_uint32 buffer offset w) (\<lambda>(v, offset, w).
       let pdu = pdu\<lparr>sequence_number := v\<rparr> in
       bindE (read_uint32 buffer offset w) (\<lambda>(v, offset, w).
       let pdu = pdu\<lparr>confirmed_sequence_number := v\<rparr> in
       bindE (read_uint32 buffer offset w) (\<lambda>(v, offset, w).
       let pdu = pdu\<lparr>timestamp := v\<rparr> in
       bindE (read_uint32 buffer offset w) (\<lambda>(v, offset, w).
       let pdu = pdu\<lparr>confirmed_timestamp := v\<rparr> in
       if buffer_size < unat (message_length pdu) then Inr (pdu, w)
       else
         let payload_length = payload_length pdu in
         assertE (payload_length \<ge> 0) (
         let pdu = pdu\<lparr>payload := ptr_add buffer offset\<rparr>;
             offset = offset + payload_length;
             pdu = pdu\<lparr>safety_code := ptr_add buffer offset\<rparr>
         in Inr (pdu, w)))))))))))"

section \<open>Payloads\<close>

definition PROTOCOL_VERSION :: u32 where
  "PROTOCOL_VERSION = 0x30333031"

definition N_SEND_MAX :: u32 where
  "N_SEND_MAX = 0xFFFF"

definition ConnReqPayload :: "world \<Rightarrow> ptr \<times> world" where
  "ConnReqPayload w =
     (let buffer = conn_req_buffer w;
          buffer = buffer[0 := ucast (drop_bit 24 PROTOCOL_VERSION AND 0xFF)];
          buffer = buffer[1 := ucast (drop_bit 16 PROTOCOL_VERSION AND 0xFF)];
          buffer = buffer[2 := ucast (drop_bit 8 PROTOCOL_VERSION AND 0xFF)];
          buffer = buffer[3 := ucast (PROTOCOL_VERSION AND 0xFF)];
          buffer = buffer[4 := ucast (drop_bit 8 N_SEND_MAX AND 0xFF)];
          buffer = buffer[5 := ucast (N_SEND_MAX AND 0xFF)];
          buffer = fold (\<lambda>i buffer. buffer[i := 0]) [6..<14] buffer
      in (Ptr ConnReq_buffer 0, w\<lparr>conn_req_buffer := buffer\<rparr>))"

definition ConnRespPayload :: "world \<Rightarrow> ptr \<times> world" where
  "ConnRespPayload w =
     (let buffer = conn_resp_buffer w;
          buffer = buffer[0 := ucast (drop_bit 24 PROTOCOL_VERSION AND 0xFF)];
          buffer = buffer[1 := ucast (drop_bit 16 PROTOCOL_VERSION AND 0xFF)];
          buffer = buffer[2 := ucast (drop_bit 8 PROTOCOL_VERSION AND 0xFF)];
          buffer = buffer[3 := ucast (PROTOCOL_VERSION AND 0xFF)];
          buffer = buffer[4 := ucast (drop_bit 8 N_SEND_MAX AND 0xFF)];
          buffer = buffer[5 := ucast (N_SEND_MAX AND 0xFF)];
          buffer = fold (\<lambda>i buffer. buffer[i := 0]) [6..<14] buffer
      in (Ptr ConnResp_buffer 0, w\<lparr>conn_resp_buffer := buffer\<rparr>))"

definition DiscReqPayload :: "DiscReasonType \<Rightarrow> u16 \<Rightarrow> world \<Rightarrow> ptr \<times> world" where
  "DiscReqPayload discReason detailedReason w =
     (let buffer = disc_req_buffer w;
          buffer = buffer[0 := ucast (drop_bit 8 detailedReason)];
          buffer = buffer[1 := ucast detailedReason];
          buffer = buffer[2 := 0];
          buffer = buffer[3 := reason_code discReason]
      in (Ptr DiscReq_buffer 0, w\<lparr>disc_req_buffer := buffer\<rparr>))"

text \<open>\<open>DataPayload\<close> (which nothing calls): the loop over \<open>i\<close> with \<open>n\<close> turns to go.\<close>

primrec DataPayload_loop :: "nat \<Rightarrow> ptr \<Rightarrow> nat \<Rightarrow> world \<Rightarrow> world outcome" where
  "DataPayload_loop 0 pMsgData i w = Inr w"
| "DataPayload_loop (Suc n) pMsgData i w =
     bindE (load pMsgData i w) (\<lambda>(v, w).
     bindE (array_set (data_buffer w) i v) (\<lambda>buffer.
     DataPayload_loop n pMsgData (Suc i) (w\<lparr>data_buffer := buffer\<rparr>)))"

definition DataPayload :: "u8 \<Rightarrow> ptr \<Rightarrow> world \<Rightarrow> (ptr \<times> world) outcome" where
  "DataPayload msgSize pMsgData w =
     bindE (DataPayload_loop (unat msgSize) pMsgData 0 w) (\<lambda>w. Inr (Ptr Data_buffer 0, w))"

section \<open>The safety code\<close>

text \<open>The local \<open>MD4_CTX ctx;\<close> before \<open>MD4_Init\<close>.\<close>

definition local_ctx :: "world \<Rightarrow> MD4_CTX" where
  "local_ctx w = \<lparr>md_lo = ucast (uninit w 0), md_hi = ucast (uninit w 1), md_a = ucast (uninit w 2),
     md_b = ucast (uninit w 3), md_c = ucast (uninit w 4), md_d = ucast (uninit w 5),
     md_buffer = local_array w 64, md_block = map ucast (local_array w 16)\<rparr>"

definition calculate_MD4 :: "PDU_S \<Rightarrow> world \<Rightarrow> (PDU_S \<times> world) outcome" where
  "calculate_MD4 pdu w =
     bindE (serialize_pdu pdu (local_array w 50) (unat (message_length pdu)) w) (\<lambda>(buffer, w).
     bindE (MD4_Update (MD4_Init (local_ctx w)) buffer (ucast (ucast (message_length pdu) - 8 :: u32)))
       (\<lambda>ctx.
     bindE (MD4_Final ctx) (\<lambda>(code, ctx).
     Inr (pdu\<lparr>safety_code := Ptr Dead_frame 0\<rparr>, w\<lparr>dead_frame := code\<rparr>))))"


section \<open>The PDU constructors\<close>

text \<open>The variables a handler works on: \<open>*self\<close>, \<open>*pdu\<close> and the memory.\<close>

record frame =
  self :: SmType
  pdu_of :: PDU_S
  mem :: world

definition with_code :: "frame \<Rightarrow> frame outcome" where
  "with_code c = bindE (calculate_MD4 (pdu_of c) (mem c)) (\<lambda>(pdu, w). Inr (c\<lparr>pdu_of := pdu, mem := w\<rparr>))"

definition ConnReq :: "frame \<Rightarrow> frame outcome" where
  "ConnReq c =
     bindE (call_Tlocal (self c) (mem c)) (\<lambda>(now, w).
     let (p, w) = ConnReqPayload w in
     with_code (c\<lparr>mem := w, pdu_of := (pdu_of c)
       \<lparr>message_length := 36 + 14,
        message_type := message_code CONNECTION_REQUEST,
        receiver_id := 0,
        sender_id := 0,
        sequence_number := snt (self c),
        confirmed_sequence_number := 0,
        timestamp := now,
        confirmed_timestamp := 0,
        payload := p\<rparr>\<rparr>))"

definition ConnResp :: "frame \<Rightarrow> frame outcome" where
  "ConnResp c =
     bindE (call_Tlocal (self c) (mem c)) (\<lambda>(now, w).
     let (p, w) = ConnRespPayload w in
     with_code (c\<lparr>mem := w, pdu_of := (pdu_of c)
       \<lparr>message_length := 36 + 14,
        message_type := message_code CONNECTION_RESPONSE,
        receiver_id := 0,
        sender_id := 0,
        sequence_number := snt (self c),
        confirmed_sequence_number := cst (self c),
        timestamp := now,
        confirmed_timestamp := ctsr (self c),
        payload := p\<rparr>\<rparr>))"

text \<open>\<open>self->snt++\<close>, on the bits of the \<open>int32_t\<close>.\<close>

definition count_sent :: "frame \<Rightarrow> frame" where
  "count_sent c = c\<lparr>self := (self c)\<lparr>snt := snt (self c) + 1\<rparr>\<rparr>"

definition RetrReq :: "frame \<Rightarrow> frame outcome" where
  "RetrReq c =
     (let c = count_sent c in
     bindE (call_Tlocal (self c) (mem c)) (\<lambda>(now, w).
     with_code (c\<lparr>mem := w, pdu_of := (pdu_of c)
       \<lparr>message_length := 36,
        message_type := message_code RETRANSMISSION_REQUEST,
        receiver_id := 0,
        sender_id := 0,
        sequence_number := snt (self c),
        confirmed_sequence_number := cst (self c),
        timestamp := now,
        confirmed_timestamp := ctsr (self c),
        payload := NULL\<rparr>\<rparr>)))"

definition RetrResp :: "frame \<Rightarrow> frame outcome" where
  "RetrResp c =
     (let c = count_sent c in
     bindE (call_Tlocal (self c) (mem c)) (\<lambda>(now, w).
     with_code (c\<lparr>mem := w, pdu_of := (pdu_of c)
       \<lparr>message_length := 36,
        message_type := message_code RETRANSMISSION_RESPONSE,
        receiver_id := 0,
        sender_id := 0,
        sequence_number := snt (self c),
        confirmed_sequence_number := cst (self c),
        timestamp := now,
        confirmed_timestamp := ctsr (self c),
        payload := NULL\<rparr>\<rparr>)))"

definition DiscReq :: "DiscReasonType \<Rightarrow> u16 \<Rightarrow> frame \<Rightarrow> frame outcome" where
  "DiscReq discReason detailedReason c =
     (let c = count_sent c in
     bindE (call_Tlocal (self c) (mem c)) (\<lambda>(now, w).
     let (p, w) = DiscReqPayload discReason detailedReason w in
     with_code (c\<lparr>mem := w, pdu_of := (pdu_of c)
       \<lparr>message_length := 36 + 4,
        message_type := message_code DISCONNECTION_REQUEST,
        receiver_id := 0,
        sender_id := 0,
        sequence_number := snt (self c),
        confirmed_sequence_number := cst (self c),
        timestamp := now,
        confirmed_timestamp := ctsr (self c),
        payload := p\<rparr>\<rparr>)))"

definition HB :: "frame \<Rightarrow> frame outcome" where
  "HB c =
     (let c = count_sent c in
     bindE (call_Tlocal (self c) (mem c)) (\<lambda>(now, w).
     with_code (c\<lparr>mem := w, pdu_of := (pdu_of c)
       \<lparr>message_length := 36,
        message_type := message_code HEARTBEAT,
        receiver_id := 0,
        sender_id := 0,
        sequence_number := snt (self c),
        confirmed_sequence_number := cst (self c),
        timestamp := now,
        confirmed_timestamp := ctsr (self c),
        payload := NULL\<rparr>\<rparr>)))"

text \<open>\<open>Data\<close> takes the length as a \<open>uint8_t\<close>.\<close>

definition Data :: "u8 \<Rightarrow> ptr \<Rightarrow> frame \<Rightarrow> frame outcome" where
  "Data msgLen pMsgData c =
     (let c = count_sent c in
     bindE (call_Tlocal (self c) (mem c)) (\<lambda>(now, w).
     with_code (c\<lparr>mem := w, pdu_of := (pdu_of c)
       \<lparr>message_length := 36 + ucast msgLen,
        message_type := message_code DATA,
        receiver_id := 0,
        sender_id := 0,
        sequence_number := snt (self c),
        confirmed_sequence_number := cst (self c),
        timestamp := now,
        confirmed_timestamp := ctsr (self c),
        payload := pMsgData\<rparr>\<rparr>)))"

section \<open>What serialisation writes\<close>

definition header :: "PDU_S \<Rightarrow> u8 list" where
  "header pdu = be16 (message_length pdu) @ be16 (ucast (message_type pdu)) @ be32 (receiver_id pdu) @
     be32 (sender_id pdu) @ be32 (sequence_number pdu) @ be32 (confirmed_sequence_number pdu) @
     be32 (timestamp pdu) @ be32 (confirmed_timestamp pdu)"

definition payload_bytes :: "PDU_S \<Rightarrow> nat" where
  "payload_bytes pdu = (if payload pdu = NULL then 0 else payload_length pdu)"

definition code_bytes :: "PDU_S \<Rightarrow> nat" where
  "code_bytes pdu = (if safety_code pdu = NULL then 0 else 8)"

definition serialisable :: "world \<Rightarrow> PDU_S \<Rightarrow> bool" where
  "serialisable w pdu \<longleftrightarrow>
     readable w (payload pdu) (payload_bytes pdu) \<and> readable w (safety_code pdu) (code_bytes pdu)"

text \<open>The bytes of the telegram, and the memory after looking at them.\<close>

definition telegram :: "world \<Rightarrow> PDU_S \<Rightarrow> u8 list" where
  "telegram w pdu = header pdu @ seen_bytes w (payload pdu) (payload_bytes pdu) @
     seen_bytes (note_reads (payload pdu) (payload_bytes pdu) w) (safety_code pdu) (code_bytes pdu)"

definition after_telegram :: "PDU_S \<Rightarrow> world \<Rightarrow> world" where
  "after_telegram pdu w = note_reads (safety_code pdu) (code_bytes pdu)
     (note_reads (payload pdu) (payload_bytes pdu) w)"

lemma length_header [simp]: "length (header pdu) = 28"
  by (simp add: header_def)

lemma overwrite_two:
  "off + 2 \<le> length buf \<Longrightarrow> (buf[off := a])[Suc off := b] = overwrite buf off [a, b]"
  using overwrite_snoc [of off "[a]" buf b] by (simp add: overwrite_singleton)

lemma write_uint16_ok:
  assumes "length xs + 2 \<le> length buf"
  shows "write_uint16 v (overwrite buf 0 xs, length xs, w) =
    Inr (overwrite buf 0 (xs @ be16 v), length (xs @ be16 v), w)"
proof -
  have "write_uint16 v (overwrite buf 0 xs, length xs, w) =
      Inr (overwrite (overwrite buf 0 xs) (0 + length xs) (be16 v), length xs + 2, w)"
    using assms overwrite_two [of "length xs" "overwrite buf 0 xs"]
    by (simp add: write_uint16_def array_set_ok be16_def)
  then show ?thesis using assms by (simp only: overwrite_append) simp
qed

lemma write_uint32_ok:
  assumes "length xs + 4 \<le> length buf"
  shows "write_uint32 v (overwrite buf 0 xs, length xs, w) =
    Inr (overwrite buf 0 (xs @ be32 v), length (xs @ be32 v), w)"
proof -
  have four: "(((b[k := a0])[Suc k := a1])[k + 2 := a2])[k + 3 := a3] = overwrite b k [a0, a1, a2, a3]"
    if "k + 4 \<le> length b" for b :: "u8 list" and k a0 a1 a2 a3
    using that overwrite_two [of k b a0 a1] overwrite_two [of "k + 2" "overwrite b k [a0, a1]" a2 a3]
      overwrite_append [of k "[a0, a1]" b "[a2, a3]"]
    by (simp add: numeral_eq_Suc)
  have "write_uint32 v (overwrite buf 0 xs, length xs, w) =
      Inr (overwrite (overwrite buf 0 xs) (0 + length xs) (be32 v), length xs + 4, w)"
    using assms four [of "length xs" "overwrite buf 0 xs"]
    by (simp add: write_uint32_def array_set_ok be32_def)
  then show ?thesis using assms by (simp only: overwrite_append) simp
qed

lemma write_at:
  "length xs = off \<Longrightarrow> off + 2 \<le> length buf \<Longrightarrow>
   write_uint16 v (overwrite buf 0 xs, off, w) = Inr (overwrite buf 0 (xs @ be16 v), off + 2, w)"
  "length xs = off \<Longrightarrow> off + 4 \<le> length buf \<Longrightarrow>
   write_uint32 u (overwrite buf 0 xs, off, w) = Inr (overwrite buf 0 (xs @ be32 u), off + 4, w)"
  using write_uint16_ok [of xs buf v w] write_uint32_ok [of xs buf u w] by auto

lemma copy_loop_load:
  "p \<noteq> NULL \<Longrightarrow> off \<le> length buf \<Longrightarrow>
   copy_loop n p i (buf, off, w) =
   bindE (load_bytes p i n w) (\<lambda>(vs, w').
     if off + n \<le> length buf then Inr (overwrite buf off vs, off + n, w') else Inl Out_Of_Bounds)"
proof (induction n arbitrary: i buf off w)
  case 0
  then show ?case by simp
next
  case (Suc n)
  show ?case
  proof (cases "load p i w")
    case (Inl e)
    then show ?thesis by simp
  next
    case (Inr vw)
    obtain v w1 where l: "load p i w = Inr (v, w1)" using Inr by (cases vw) simp
    show ?thesis
    proof (cases "off < length buf")
      case True
      have "overwrite (buf[off := v]) (Suc off) vs = overwrite buf off (v # vs)" if "length vs = n" for vs
        using True overwrite_append [of off "[v]" buf vs] by (simp add: overwrite_singleton)
      with True Suc.IH [of "Suc off" "buf[off := v]" "Suc i" w1] Suc.prems show ?thesis
        by (auto simp: l array_set_ok bindE_assoc intro!: bindE_cong dest: load_bytes_length)
    next
      case False
      with Suc.prems(2) have "off = length buf" by simp
      then show ?thesis
        using load_bytes_fault [OF Suc.prems(1), of "Suc i" n w1]
        by (cases "load_bytes p (Suc i) n w1") (auto simp: l array_set_def)
    qed
  qed
qed


lemma write_header:
  assumes "28 \<le> length buf"
  shows "run
        [write_uint16 (message_length pdu),
         write_uint16 (ucast (message_type pdu)),
         write_uint32 (receiver_id pdu),
         write_uint32 (sender_id pdu),
         write_uint32 (sequence_number pdu),
         write_uint32 (confirmed_sequence_number pdu),
         write_uint32 (timestamp pdu),
         write_uint32 (confirmed_timestamp pdu)] (buf, 0, w) = Inr (overwrite buf 0 (header pdu), 28, w)"
  using assms write_at(1) [of "[]" 0 buf]
  by (simp add: header_def write_at numeral_2_eq_2 [symmetric] del: One_nat_def add_2_eq_Suc add_2_eq_Suc')

text \<open>A buffer shorter than the header is overrun while the fields are written.\<close>

lemma header_overrun:
  assumes "length buf < 28"
  shows "run
        [write_uint16 (message_length pdu),
         write_uint16 (ucast (message_type pdu)),
         write_uint32 (receiver_id pdu),
         write_uint32 (sender_id pdu),
         write_uint32 (sequence_number pdu),
         write_uint32 (confirmed_sequence_number pdu),
         write_uint32 (timestamp pdu),
         write_uint32 (confirmed_timestamp pdu)] (buf, 0, w) = Inl Out_Of_Bounds"
  using assms
  by (simp add: write_uint16_def write_uint32_def array_set_def)


text \<open>One optional copy: nothing for a null pointer, otherwise all or nothing.\<close>

lemma copy_optional:
  assumes "length xs = off" and "off \<le> length buf"
  shows "(if p \<noteq> NULL then copy_loop n p 0 (overwrite buf 0 xs, off, w) else Inr (overwrite buf 0 xs, off, w)) =
    (let k = (if p = NULL then 0 else n)
     in if readable w p k \<and> off + k \<le> length buf
        then Inr (overwrite buf 0 (xs @ seen_bytes w p k), off + k, note_reads p k w)
        else Inl Out_Of_Bounds)"
proof (cases "p = NULL")
  case True
  then show ?thesis using assms by (simp add: seen_bytes_def note_reads_def)
next
  case False
  have join: "overwrite (overwrite buf 0 xs) off vs = overwrite buf 0 (xs @ vs)" for vs
    using assms overwrite_append [of 0 xs buf vs] by simp
  show ?thesis
  proof (cases "readable w p n")
    case True
    then show ?thesis
      using False assms by (simp add: copy_loop_load load_bytes_readable join Let_def)
  next
    case unreadable: False
    then show ?thesis
      using False assms by (simp add: copy_loop_load load_bytes_unreadable Let_def)
  qed
qed

lemma length_telegram:
  "serialisable w pdu \<Longrightarrow> length (telegram w pdu) = 28 + payload_bytes pdu + code_bytes pdu"
  by (simp add: serialisable_def telegram_def length_seen_bytes payload_bytes_def code_bytes_def)

lemma write_tail:
  assumes "28 \<le> length buf"
  shows "run [write_payload pdu, write_safety_code pdu] (overwrite buf 0 (header pdu), 28, w) =
    (if serialisable w pdu \<and> length (telegram w pdu) \<le> length buf
     then Inr (overwrite buf 0 (telegram w pdu), length (telegram w pdu), after_telegram pdu w)
     else Inl Out_Of_Bounds)"
proof -
  let ?n = "payload_bytes pdu" and ?k = "code_bytes pdu"
  let ?w = "note_reads (payload pdu) ?n w"
  have payload: "write_payload pdu (overwrite buf 0 (header pdu), 28, w) =
    (if readable w (payload pdu) ?n \<and> 28 + ?n \<le> length buf
     then Inr (overwrite buf 0 (header pdu @ seen_bytes w (payload pdu) ?n), 28 + ?n, ?w)
     else Inl Out_Of_Bounds)"
    using copy_optional [of "header pdu" 28 buf "payload pdu" "payload_length pdu" w] assms
    by (cases "payload pdu = NULL") (simp_all add: write_payload_def payload_bytes_def Let_def)
  show ?thesis
  proof (cases "readable w (payload pdu) ?n \<and> 28 + ?n \<le> length buf")
    case True
    let ?xs = "header pdu @ seen_bytes w (payload pdu) ?n"
    have "length ?xs = 28 + ?n"
      using True by (simp add: length_seen_bytes payload_bytes_def)
    then have code: "write_safety_code pdu (overwrite buf 0 ?xs, 28 + ?n, ?w) =
      (if readable w (safety_code pdu) ?k \<and> 28 + ?n + ?k \<le> length buf
       then Inr (overwrite buf 0 (?xs @ seen_bytes ?w (safety_code pdu) ?k), 28 + ?n + ?k,
                 note_reads (safety_code pdu) ?k ?w)
       else Inl Out_Of_Bounds)"
      using copy_optional [of ?xs "28 + ?n" buf "safety_code pdu" 8 ?w] True
      by (simp add: write_safety_code_def code_bytes_def Let_def)
    have "run [write_payload pdu, write_safety_code pdu] (overwrite buf 0 (header pdu), 28, w) =
        bindE (write_safety_code pdu (overwrite buf 0 ?xs, 28 + ?n, ?w)) Inr"
      using True by (simp add: payload bindE_def split: sum.splits)
    also have "\<dots> = (if serialisable w pdu \<and> length (telegram w pdu) \<le> length buf
      then Inr (overwrite buf 0 (telegram w pdu), length (telegram w pdu), after_telegram pdu w)
      else Inl Out_Of_Bounds)"
    proof (cases "readable w (safety_code pdu) ?k")
      case readable: True
      then have "serialisable w pdu" using True by (simp add: serialisable_def)
      then show ?thesis
        using readable True length_telegram [of w pdu]
        by (simp add: code after_telegram_def telegram_def)
    next
      case False
      then show ?thesis by (simp add: code serialisable_def)
    qed
    finally show ?thesis .
  next
    case False
    then show ?thesis by (auto simp: payload serialisable_def length_telegram)
  qed
qed

lemma serialize_pdu_spec:
  "serialize_pdu pdu buf sz w =
     (if sz < unat (message_length pdu) then Inr (buf, w)
      else if serialisable w pdu \<and> length (telegram w pdu) \<le> length buf
      then Inr (overwrite buf 0 (telegram w pdu), after_telegram pdu w)
      else Inl Out_Of_Bounds)"
proof -
  have split: "run
        [write_uint16 (message_length pdu), write_uint16 (ucast (message_type pdu)),
         write_uint32 (receiver_id pdu), write_uint32 (sender_id pdu),
         write_uint32 (sequence_number pdu), write_uint32 (confirmed_sequence_number pdu),
         write_uint32 (timestamp pdu), write_uint32 (confirmed_timestamp pdu),
         write_payload pdu, write_safety_code pdu] (buf, 0, w) =
    bindE (run
        [write_uint16 (message_length pdu), write_uint16 (ucast (message_type pdu)),
         write_uint32 (receiver_id pdu), write_uint32 (sender_id pdu),
         write_uint32 (sequence_number pdu), write_uint32 (confirmed_sequence_number pdu),
         write_uint32 (timestamp pdu), write_uint32 (confirmed_timestamp pdu)] (buf, 0, w))
      (run [write_payload pdu, write_safety_code pdu])"
    by (simp only: run_append [symmetric] append.simps)
  show ?thesis
  proof (cases "28 \<le> length buf")
    case True
    then show ?thesis
      by (simp only: serialize_pdu_def split write_header write_tail bindE_simps) simp
  next
    case False
    then have "\<not> (serialisable w pdu \<and> length (telegram w pdu) \<le> length buf)"
      by (auto simp: length_telegram)
    moreover have "length buf < 28" using False by simp
    ultimately show ?thesis
      by (simp only: serialize_pdu_def split header_overrun bindE_simps if_False)
  qed
qed


section \<open>The safety code covers header and payload\<close>

text \<open>
  The PDUs that the constructors fill in: the length covers the header, the payload and eight
  bytes of safety code, and only a PDU without payload has no payload pointer.
\<close>

definition well_sized :: "PDU_S \<Rightarrow> bool" where
  "well_sized pdu \<longleftrightarrow> 36 \<le> unat (message_length pdu) \<and> (payload pdu = NULL \<longrightarrow> message_length pdu = 36)"

definition protected_bytes :: "world \<Rightarrow> PDU_S \<Rightarrow> u8 list" where
  "protected_bytes w pdu = header pdu @ seen_bytes w (payload pdu) (payload_bytes pdu)"

lemma length_minus:
  fixes ml :: u16
  assumes "k \<le> unat ml" and "k < 2 ^ 16"
  shows "unat (ucast ml - word_of_nat k :: u32) = unat ml - k"
proof -
  have "unat (word_of_nat k :: u32) = k" using assms(2) by (simp add: unat_of_nat)
  with assms(1) show ?thesis by (simp add: unat_sub_if' unat_ucast_up)
qed

lemma payload_length_sized: "36 \<le> unat (message_length pdu) \<Longrightarrow> payload_length pdu = unat (message_length pdu) - 36"
  using length_minus [of 36 "message_length pdu"] by (simp add: payload_length_def)

lemma payload_length_short:
  "unat (message_length pdu) < 36 \<Longrightarrow> payload_length pdu = unat (message_length pdu) + 4294967260"
  by (simp add: payload_length_def unat_sub_if' unat_ucast_up)

lemma payload_bytes_sized: "well_sized pdu \<Longrightarrow> payload_bytes pdu = unat (message_length pdu) - 36"
  by (auto simp: well_sized_def payload_bytes_def payload_length_sized)

lemma length_protected:
  "well_sized pdu \<Longrightarrow> serialisable w pdu \<Longrightarrow> length (protected_bytes w pdu) = unat (message_length pdu) - 8"
  by (auto simp: protected_bytes_def length_seen_bytes serialisable_def payload_bytes_sized well_sized_def)

lemma telegram_protected:
  "telegram w pdu = protected_bytes w pdu @
     seen_bytes (note_reads (payload pdu) (payload_bytes pdu) w) (safety_code pdu) (code_bytes pdu)"
  by (simp add: telegram_def protected_bytes_def)

lemma length_rfc_md4 [simp]: "length (rfc_md4 m) = 16"
  by (cases "rfc_blocks (rfc_pad m) rfc_iv") (simp add: rfc_md4_def)

lemma local_ctx_buffer [simp]: "length (md_buffer (local_ctx w)) = 64"
  by (simp add: local_ctx_def)

lemma calculate_MD4_spec:
  assumes "well_sized pdu"
  shows "calculate_MD4 pdu w =
    (if serialisable w pdu \<and> length (telegram w pdu) \<le> 50
     then Inr (pdu\<lparr>safety_code := Ptr Dead_frame 0\<rparr>,
               (after_telegram pdu w)\<lparr>dead_frame := rfc_md4 (protected_bytes w pdu)\<rparr>)
     else Inl Out_Of_Bounds)"
proof (cases "serialisable w pdu \<and> length (telegram w pdu) \<le> 50")
  case True
  let ?n = "unat (message_length pdu) - 8" and ?buf = "overwrite (local_array w 50) 0 (telegram w pdu)"
  let ?sz = "ucast (ucast (message_length pdu) - 8 :: u32) :: u64"
  have eight: "8 \<le> unat (message_length pdu)" using assms by (simp add: well_sized_def)
  have n: "unat ?sz = ?n"
    using length_minus [of 8, OF eight] by (simp add: unat_ucast_up)
  have len: "length (protected_bytes w pdu) = ?n" using True length_protected [OF assms] by simp
  then have "?n \<le> length (telegram w pdu)" by (simp add: telegram_protected)
  then have fits: "unat ?sz \<le> length ?buf" using True n by simp
  have "take ?n ?buf = protected_bytes w pdu"
    using len by (simp add: overwrite_zero telegram_protected)
  then have "bindE (MD4_Update (MD4_Init (local_ctx (after_telegram pdu w))) ?buf ?sz) MD4_Final =
      Inr (rfc_md4 (protected_bytes w pdu), zero_ctx)"
    using md4.digest_one_shot [OF local_ctx_buffer fits] n by simp
  then obtain ctx where "MD4_Update (MD4_Init (local_ctx (after_telegram pdu w))) ?buf ?sz = Inr ctx"
    and "MD4_Final ctx = Inr (rfc_md4 (protected_bytes w pdu), zero_ctx)"
    by (rule bindE_InrE)
  then show ?thesis using True by (simp add: calculate_MD4_def serialize_pdu_spec)
next
  case False
  then show ?thesis by (auto simp: calculate_MD4_def serialize_pdu_spec)
qed

end
