(* ===== verification/Telegram.thy ===== *)
theory Telegram
  imports Pdu
begin

text \<open>
  What the wire format of \<open>pdu.c\<close> promises: reading a telegram back, the contents of the
  telegram of each kind, and the common contract of the PDU constructors. The properties of the
  codec and of the safety code are at the end.
\<close>

declare add_2_eq_Suc [simp del] add_2_eq_Suc' [simp del]

section \<open>Reading live memory\<close>

text \<open>The bytes \<open>bs\<close> stand at \<open>p[k]\<close>, in an array that is alive.\<close>

definition holds_at :: "world \<Rightarrow> ptr \<Rightarrow> nat \<Rightarrow> u8 list \<Rightarrow> bool" where
  "holds_at w p k bs \<longleftrightarrow> (case p of NULL \<Rightarrow> False
     | Ptr b off \<Rightarrow> b \<noteq> Dead_frame \<and> take (length bs) (drop (off + k) (array_of w b)) = bs)"

lemma take_eq_append_iff:
  "take (length (xs @ ys)) l = xs @ ys \<longleftrightarrow> take (length xs) l = xs \<and> take (length ys) (drop (length xs) l) = ys"
proof
  assume eq: "take (length (xs @ ys)) l = xs @ ys"
  then have "length xs + length ys \<le> length l"
    by (metis length_append length_take min.cobounded1)
  with eq show "take (length xs) l = xs \<and> take (length ys) (drop (length xs) l) = ys"
    by (simp add: take_add append_eq_append_conv)
next
  assume "take (length xs) l = xs \<and> take (length ys) (drop (length xs) l) = ys"
  then show "take (length (xs @ ys)) l = xs @ ys" by (simp add: take_add)
qed

lemma holds_at_append:
  "holds_at w p k (xs @ ys) \<longleftrightarrow> holds_at w p k xs \<and> holds_at w p (k + length xs) ys"
proof (cases p)
  case (Ptr b off)
  have "off + (k + length xs) = length xs + (off + k)" by simp
  then show ?thesis
    by (simp only: holds_at_def Ptr ptr.case take_eq_append_iff drop_drop) blast
qed (simp add: holds_at_def)

lemma holds_at_load: "holds_at w p k (v # vs) \<Longrightarrow> load p k w = Inr (v, w) \<and> holds_at w p (Suc k) vs"
proof (cases p)
  case (Ptr b off)
  assume h: "holds_at w p k (v # vs)"
  then have "take (Suc (length vs)) (drop (off + k) (array_of w b)) = v # vs" "b \<noteq> Dead_frame"
    by (simp_all add: holds_at_def Ptr)
  moreover from this have "drop (off + k) (array_of w b) = v # drop (off + Suc k) (array_of w b)"
    using drop_drop [of 1 "off + k" "array_of w b"]
    by (cases "drop (off + k) (array_of w b)") simp_all
  moreover from this have "off + k < length (array_of w b)" by (metis drop_all list.discI not_less)
  ultimately show ?thesis
    by (simp add: Ptr holds_at_def load_def array_get_def nth_via_drop)
qed (simp add: holds_at_def)

lemma read_uint16_at:
  assumes "holds_at w p k (be16 v)"
  shows "read_uint16 p k w = Inr (v, k + 2, w)"
proof -
  have "p \<noteq> NULL" using assms by (auto simp: holds_at_def)
  moreover have "load p k w = Inr (ucast (drop_bit 8 v), w)" "load p (k + 1) w = Inr (ucast v, w)"
    using assms by (auto simp: be16_def dest!: holds_at_load)
  ultimately show ?thesis by (simp add: read_uint16_def join_be16)
qed

lemma read_uint32_at:
  assumes "holds_at w p k (be32 v)"
  shows "read_uint32 p k w = Inr (v, k + 4, w)"
proof -
  have "p \<noteq> NULL" using assms by (auto simp: holds_at_def)
  moreover have "load p k w = Inr (ucast (drop_bit 24 v), w)" "load p (k + 1) w = Inr (ucast (drop_bit 16 v), w)"
      "load p (k + 2) w = Inr (ucast (drop_bit 8 v), w)" "load p (k + 3) w = Inr (ucast v, w)"
    using assms by (auto simp: be32_def numeral_2_eq_2 numeral_3_eq_3 dest!: holds_at_load)
  ultimately show ?thesis by (simp add: read_uint32_def join_be32)
qed

section \<open>Deserialisation in closed form\<close>

text \<open>
  The fields are set from the header; payload and safety code are pointers into the received
  array, set only when the array is as long as the telegram says.
\<close>

definition decoded :: "PDU_S \<Rightarrow> PDU_S \<Rightarrow> PDU_S" where
  "decoded h pdu = pdu\<lparr>message_length := message_length h,
     message_type := ucast (ucast (message_type h) :: u16), receiver_id := receiver_id h,
     sender_id := sender_id h, sequence_number := sequence_number h,
     confirmed_sequence_number := confirmed_sequence_number h, timestamp := timestamp h,
     confirmed_timestamp := confirmed_timestamp h\<rparr>"

lemma deserialize_pdu_at:
  assumes "holds_at w p 0 (header h)" and "36 \<le> sz"
  shows "deserialize_pdu p sz pdu w =
    Inr (if sz < unat (message_length h) then decoded h pdu
         else (decoded h pdu)\<lparr>payload := ptr_add p 28, safety_code := ptr_add p (28 + payload_length h)\<rparr>, w)"
proof -
  have "p \<noteq> NULL" using assms(1) by (auto simp: holds_at_def)
  have at16: "holds_at w p 0 (be16 (message_length h))" "holds_at w p 2 (be16 (ucast (message_type h)))"
    and at32: "holds_at w p 4 (be32 (receiver_id h))" "holds_at w p 8 (be32 (sender_id h))"
    "holds_at w p 12 (be32 (sequence_number h))" "holds_at w p 16 (be32 (confirmed_sequence_number h))"
    "holds_at w p 20 (be32 (timestamp h))" "holds_at w p 24 (be32 (confirmed_timestamp h))"
    using assms(1) by (simp_all add: header_def holds_at_append)
  show ?thesis
    using \<open>p \<noteq> NULL\<close> assms(2)
    by (simp add: deserialize_pdu_def at16 [THEN read_uint16_at] at32 [THEN read_uint32_at] Let_def
        decoded_def payload_length_def)
qed

lemma deserialize_pdu_short:
  "p \<noteq> NULL \<Longrightarrow> sz < 36 \<Longrightarrow> deserialize_pdu p sz pdu w = Inr (pdu, w)"
  by (simp add: deserialize_pdu_def)


section \<open>The contents of each telegram\<close>

text \<open>
  The table of the protocol: what a telegram of type \<open>t\<close> with \<open>n\<close> bytes of payload at \<open>p\<close>
  carries when the connection \<open>sm\<close> sends it at time \<open>now\<close>.
\<close>

definition outgoing :: "MessageType \<Rightarrow> ptr \<Rightarrow> nat \<Rightarrow> SmType \<Rightarrow> u32 \<Rightarrow> PDU_S" where
  "outgoing t p n sm now =
     \<lparr>message_length = 36 + word_of_nat n, message_type = message_code t, receiver_id = 0, sender_id = 0,
      sequence_number = snt sm,
      confirmed_sequence_number = (if t = CONNECTION_REQUEST then 0 else cst sm),
      timestamp = now,
      confirmed_timestamp = (if t = CONNECTION_REQUEST then 0 else ctsr sm),
      payload = p, safety_code = Ptr Dead_frame 0\<rparr>"

text \<open>The version 03.01, the receive window 65535 and eight reserved bytes.\<close>

definition handshake_payload :: "u8 list" where
  "handshake_payload = [0x30, 0x33, 0x30, 0x31, 0xFF, 0xFF, 0, 0, 0, 0, 0, 0, 0, 0]"

definition disc_payload :: "DiscReasonType \<Rightarrow> u16 \<Rightarrow> u8 list" where
  "disc_payload reason detail = be16 detail @ [0, reason_code reason]"

lemma length_handshake_payload [simp]: "length handshake_payload = 14"
  by (simp add: handshake_payload_def)

lemma length_disc_payload [simp]: "length (disc_payload r d) = 4"
  by (simp add: disc_payload_def)

lemma version_bytes:
  "ucast (drop_bit 24 PROTOCOL_VERSION AND 0xFF) = (0x30 :: u8)"
  "ucast (drop_bit 16 PROTOCOL_VERSION AND 0xFF) = (0x33 :: u8)"
  "ucast (drop_bit 8 PROTOCOL_VERSION AND 0xFF) = (0x30 :: u8)"
  "ucast (PROTOCOL_VERSION AND 0xFF) = (0x31 :: u8)"
  "ucast (drop_bit 8 N_SEND_MAX AND 0xFF) = (0xFF :: u8)"
  "ucast (N_SEND_MAX AND 0xFF) = (0xFF :: u8)"
  by (simp_all add: PROTOCOL_VERSION_def N_SEND_MAX_def)

lemma handshake_buffer:
  assumes "length xs = 14"
  shows "xs[0 := 0x30, Suc 0 := 0x33, 2 := 0x30, 3 := 0x31, 4 := 0xFF, 5 := 0xFF, 6 := 0, 7 := 0,
    8 := 0, 9 := 0, 10 := 0, 11 := 0, 12 := 0, 13 := 0] = handshake_payload"
proof -
  have "map ((!) xs) [0..<14] = xs" using assms map_nth [of xs] by simp
  then obtain a b c d e f g h i j k l m n where "xs = [a, b, c, d, e, f, g, h, i, j, k, l, m, n]"
    by (simp add: upt_conv_Cons) metis
  then show ?thesis by (simp add: handshake_payload_def numeral_eq_Suc)
qed

lemma ConnReqPayload_stores:
  "length (conn_req_buffer w) = 14 \<Longrightarrow>
   ConnReqPayload w = (Ptr ConnReq_buffer 0, w\<lparr>conn_req_buffer := handshake_payload\<rparr>)"
  by (simp add: ConnReqPayload_def Let_def version_bytes upt_conv_Cons handshake_buffer)

lemma ConnRespPayload_stores:
  "length (conn_resp_buffer w) = 14 \<Longrightarrow>
   ConnRespPayload w = (Ptr ConnResp_buffer 0, w\<lparr>conn_resp_buffer := handshake_payload\<rparr>)"
  by (simp add: ConnRespPayload_def Let_def version_bytes upt_conv_Cons handshake_buffer)

lemma DiscReqPayload_stores:
  "length (disc_req_buffer w) = 4 \<Longrightarrow>
   DiscReqPayload r d w = (Ptr DiscReq_buffer 0, w\<lparr>disc_req_buffer := disc_payload r d\<rparr>)"
  by (auto simp: DiscReqPayload_def Let_def disc_payload_def be16_def numeral_eq_Suc length_Suc_conv)


section \<open>The contract of the constructors\<close>

text \<open>
  A frame is ready when the clock is installed, the arrays have their sizes, and the safety code
  a received PDU came with can be read. What a constructor leaves in memory: the parts no
  constructor touches, the payload where the PDU points, and the digest in the dead frame.
\<close>

definition code_live :: "world \<Rightarrow> PDU_S \<Rightarrow> bool" where
  "code_live w pdu \<longleftrightarrow> readable w (safety_code pdu) (code_bytes pdu)"

definition ready :: "frame \<Rightarrow> bool" where
  "ready c \<longleftrightarrow> Tlocal (sm_time (self c)) \<noteq> None \<and> wf_world (mem c) \<and> code_live (mem c) (pdu_of c)"

definition same_environment :: "world \<Rightarrow> world \<Rightarrow> bool" where
  "same_environment w w' \<longleftrightarrow> ext w' = ext w \<and> decay w' = decay w \<and> uninit w' = uninit w \<and>
     clock_value w' = clock_value w \<and> vtables w' = vtables w"

definition built :: "u8 list \<Rightarrow> PDU_S \<Rightarrow> world \<Rightarrow> world \<Rightarrow> bool" where
  "built content pdu w w' \<longleftrightarrow> same_environment w w' \<and> wf_world w' \<and> seed w' = seed w \<and>
     buff_to_send w' = buff_to_send w \<and> clock_calls w' = Suc (clock_calls w) \<and> sent w' = sent w \<and>
     readable w' (payload pdu) (length content) \<and> seen_bytes w' (payload pdu) (length content) = content \<and>
     (\<forall>k. note_reads (payload pdu) k w' = w') \<and>
     dead_frame w' = rfc_md4 (header pdu @ content)"

text \<open>The number of telegrams the constructor counts with \<open>self->snt++\<close>.\<close>

definition counted :: "bool \<Rightarrow> SmType \<Rightarrow> SmType" where
  "counted b sm = (if b then sm\<lparr>snt := snt sm + 1\<rparr> else sm)"

locale pdu_constructor =
  fixes build :: "frame \<Rightarrow> frame outcome"
    and kind :: MessageType
    and counts :: bool
    and place :: ptr
    and content :: "u8 list"
  assumes content_fits: "length content \<le> 14"
    and build_law: "ready c \<Longrightarrow>
      \<exists>w'. let sm = counted counts (self c);
               pdu = outgoing kind place (length content) sm (reading (mem c) (clock_calls (mem c)))
           in build c = Inr (c\<lparr>self := sm, pdu_of := pdu, mem := w'\<rparr>) \<and> built content pdu (mem c) w'"
    and build_unready: "Tlocal (sm_time (self c)) = None \<Longrightarrow> build c = Inl Null_Call"

lemma outgoing_sizes:
  assumes "n < 2 ^ 16 - 36"
  shows "unat (message_length (outgoing t p n sm now)) = 36 + n"
  using assms by (simp add: outgoing_def unat_word_ariths unat_of_nat)

lemma outgoing_fields [simp]:
  "payload (outgoing t p n sm now) = p" "safety_code (outgoing t p n sm now) = Ptr Dead_frame 0"
  by (simp_all add: outgoing_def)

lemma header_safety_code [simp]: "header (pdu\<lparr>safety_code := q\<rparr>) = header pdu"
  by (simp add: header_def)

text \<open>The common end of all constructors: the PDU is filled in, the safety code is computed.\<close>

lemma with_code_fills:
  assumes wf: "wf_world w0" and live: "code_live w0 pdu0"
    and same: "same_environment w w0" "seed w0 = seed w" "buff_to_send w0 = buff_to_send w"
      "clock_calls w0 = Suc (clock_calls w)" "sent w0 = sent w"
    and fits: "length content \<le> 14" and null: "place = NULL \<Longrightarrow> content = []"
    and place: "\<And>b off. place = Ptr b off \<Longrightarrow> b \<noteq> Dead_frame \<and> off = 0 \<and> array_of w0 b = content"
    and pdu: "pdu = outgoing t place (length content) sm now"
  shows "\<exists>w'. with_code (c\<lparr>mem := w0, pdu_of := pdu\<lparr>safety_code := safety_code pdu0\<rparr>\<rparr>) =
      Inr (c\<lparr>pdu_of := pdu, mem := w'\<rparr>) \<and> built content pdu w w'"
proof -
  let ?pdu = "pdu\<lparr>safety_code := safety_code pdu0\<rparr>"
  have fields: "payload pdu = place" "content = [] \<Longrightarrow> message_length pdu = 36"
      "pdu\<lparr>safety_code := Ptr Dead_frame 0\<rparr> = pdu"
    by (simp_all add: pdu outgoing_def)
  have len: "unat (message_length pdu) = 36 + length content"
    using fits by (simp add: pdu outgoing_sizes)
  have sized: "well_sized ?pdu"
    using null len fields by (auto simp: well_sized_def)
  have bytes: "payload_bytes ?pdu = length content"
    using payload_bytes_sized [OF sized] by (simp add: len)
  have seen: "seen_bytes w' place (length content) = content" "readable w' place (length content)"
    if "\<And>b. b \<noteq> Dead_frame \<Longrightarrow> array_of w' b = array_of w0 b" for w'
    using that place null by (auto simp: seen_bytes_def readable_def split: ptr.split)
  have noted: "note_reads place k w' = w'" for k w'
    using place by (simp add: note_reads_def split: ptr.split)
  have ser: "serialisable w0 ?pdu"
    using live seen(2) [of w0] bytes by (simp add: serialisable_def code_live_def code_bytes_def fields)
  have prot: "protected_bytes w0 ?pdu = header pdu @ content"
    using seen(1) [of w0] bytes by (simp add: protected_bytes_def fields)
  have "length (telegram w0 ?pdu) \<le> 50"
    using fits length_telegram [OF ser] bytes by (simp add: code_bytes_def)
  then have eq: "with_code (c\<lparr>mem := w0, pdu_of := ?pdu\<rparr>) =
      Inr (c\<lparr>pdu_of := pdu, mem := (after_telegram ?pdu w0)\<lparr>dead_frame := rfc_md4 (header pdu @ content)\<rparr>\<rparr>)"
    using ser by (simp add: with_code_def calculate_MD4_spec [OF sized] prot fields)
  have arrays: "b \<noteq> Dead_frame \<Longrightarrow> array_of ((after_telegram ?pdu w0)\<lparr>dead_frame := d\<rparr>) b = array_of w0 b" for b d
    by (cases b) (simp_all add: array_of_def after_telegram_def)
  show ?thesis
    using eq wf same seen [OF arrays] noted fields
    by (intro exI [of _ "(after_telegram ?pdu w0)\<lparr>dead_frame := rfc_md4 (header pdu @ content)\<rparr>"])
       (simp add: built_def same_environment_def wf_world_def after_telegram_def)
qed

lemma Tlocal_set: "Tlocal (sm_time sm) \<noteq> None \<Longrightarrow>
  call_Tlocal sm w = Inr (reading w (clock_calls w), w\<lparr>clock_calls := Suc (clock_calls w)\<rparr>)"
  using call_Tlocal_ok by blast

lemma Tlocal_unset: "Tlocal (sm_time sm) = None \<Longrightarrow> call_Tlocal sm w = Inl Null_Call"
  by (simp add: call_Tlocal_def)

lemma same_environment_refl [simp]: "same_environment w w"
  by (simp add: same_environment_def)

lemma same_environment_trans: "same_environment u v \<Longrightarrow> same_environment v w \<Longrightarrow> same_environment u w"
  by (simp add: same_environment_def)

lemma code_live_update [simp]:
  "code_live (w\<lparr>clock_calls := n\<rparr>) pdu = code_live w pdu"
  by (cases "safety_code pdu") (simp_all add: code_live_def readable_def array_of_def cong: blk.case_cong)

text \<open>Filling a static buffer does not shorten any array.\<close>

lemma code_live_buffers:
  assumes "wf_world w" and "code_live w pdu"
  shows "code_live (w\<lparr>clock_calls := n, conn_req_buffer := handshake_payload\<rparr>) pdu"
    and "code_live (w\<lparr>clock_calls := n, conn_resp_buffer := handshake_payload\<rparr>) pdu"
    and "code_live (w\<lparr>clock_calls := n, disc_req_buffer := disc_payload r d\<rparr>) pdu"
  using assms
  by (auto simp: code_live_def readable_def wf_world_def array_of_def split: ptr.splits blk.splits)

lemma counted_simps [simp]:
  "counted False sm = sm" "counted True sm = sm\<lparr>snt := snt sm + 1\<rparr>"
  "sm_time (counted b sm) = sm_time sm" "vtable (counted b sm) = vtable sm"
  "channel (counted b sm) = channel sm" "sm_state (counted b sm) = sm_state sm"
  by (simp_all add: counted_def)

text \<open>A PDU whose fields were all assigned is the table's entry.\<close>

lemma filled_in:
  "pdu\<lparr>message_length := l, message_type := t, receiver_id := r, sender_id := s, sequence_number := n,
    confirmed_sequence_number := cn, timestamp := ts, confirmed_timestamp := ct, payload := p\<rparr> =
   \<lparr>message_length = l, message_type = t, receiver_id = r, sender_id = s, sequence_number = n,
    confirmed_sequence_number = cn, timestamp = ts, confirmed_timestamp = ct, payload = p,
    safety_code = safety_code pdu\<rparr>"
  by (cases pdu) simp

lemmas constructor_simps = Tlocal_set count_sent_def ConnReqPayload_stores ConnRespPayload_stores
  DiscReqPayload_stores filled_in Let_def

lemma build_lawI:
  assumes "ready c"
    and eq: "build c = with_code (c\<lparr>self := counted b (self c), mem := w0,
      pdu_of := (outgoing t place (length content) (counted b (self c)) (reading (mem c) (clock_calls (mem c))))
        \<lparr>safety_code := safety_code (pdu_of c)\<rparr>\<rparr>)"
    and w0: "wf_world w0" "code_live w0 (pdu_of c)" "same_environment (mem c) w0" "seed w0 = seed (mem c)"
      "buff_to_send w0 = buff_to_send (mem c)" "clock_calls w0 = Suc (clock_calls (mem c))"
      "sent w0 = sent (mem c)"
    and content: "length content \<le> 14" "place = NULL \<Longrightarrow> content = []"
      "\<And>b off. place = Ptr b off \<Longrightarrow> b \<noteq> Dead_frame \<and> off = 0 \<and> array_of w0 b = content"
  shows "\<exists>w'. let sm = counted b (self c);
               pdu = outgoing t place (length content) sm (reading (mem c) (clock_calls (mem c)))
           in build c = Inr (c\<lparr>self := sm, pdu_of := pdu, mem := w'\<rparr>) \<and> built content pdu (mem c) w'"
  using with_code_fills [OF w0 content refl, where t = t and sm = "counted b (self c)"
      and now = "reading (mem c) (clock_calls (mem c))" and c = "c\<lparr>self := counted b (self c)\<rparr>"]
  by (simp add: eq Let_def)

text \<open>The world in which each constructor computes the safety code.\<close>

lemma ready_world:
  assumes "ready c"
  shows "Tlocal (sm_time (self c)) \<noteq> None" and "wf_world (mem c)" and "code_live (mem c) (pdu_of c)"
  using assms by (simp_all add: ready_def)

lemmas law_simps = constructor_simps outgoing_def code_live_buffers same_environment_def array_of_def wf_world_def

interpretation conn_req: pdu_constructor ConnReq CONNECTION_REQUEST False "Ptr ConnReq_buffer 0" handshake_payload
proof (unfold_locales, goal_cases)
  case (2 c)
  with ready_world [OF 2] show ?case
    by (intro build_lawI [where ?w0.0 = "mem c\<lparr>clock_calls := Suc (clock_calls (mem c)), conn_req_buffer := handshake_payload\<rparr>"])
       (simp_all add: ConnReq_def law_simps)
qed (simp_all add: ConnReq_def Tlocal_unset)

interpretation conn_resp: pdu_constructor ConnResp CONNECTION_RESPONSE False "Ptr ConnResp_buffer 0" handshake_payload
proof (unfold_locales, goal_cases)
  case (2 c)
  with ready_world [OF 2] show ?case
    by (intro build_lawI [where ?w0.0 = "mem c\<lparr>clock_calls := Suc (clock_calls (mem c)), conn_resp_buffer := handshake_payload\<rparr>"])
       (simp_all add: ConnResp_def law_simps)
qed (simp_all add: ConnResp_def Tlocal_unset)

interpretation disc_req: pdu_constructor "DiscReq r d" DISCONNECTION_REQUEST True "Ptr DiscReq_buffer 0" "disc_payload r d"
  for r d
proof (unfold_locales, goal_cases)
  case (2 c)
  with ready_world [OF 2] show ?case
    by (intro build_lawI [where ?w0.0 = "mem c\<lparr>clock_calls := Suc (clock_calls (mem c)), disc_req_buffer := disc_payload r d\<rparr>"])
       (simp_all add: DiscReq_def law_simps)
qed (simp_all add: DiscReq_def Let_def count_sent_def Tlocal_unset)

interpretation retr_req: pdu_constructor RetrReq RETRANSMISSION_REQUEST True NULL "[]"
proof (unfold_locales, goal_cases)
  case (2 c)
  with ready_world [OF 2] show ?case
    by (intro build_lawI [where ?w0.0 = "mem c\<lparr>clock_calls := Suc (clock_calls (mem c))\<rparr>"])
       (simp_all add: RetrReq_def law_simps)
qed (simp_all add: RetrReq_def Let_def count_sent_def Tlocal_unset)

interpretation retr_resp: pdu_constructor RetrResp RETRANSMISSION_RESPONSE True NULL "[]"
proof (unfold_locales, goal_cases)
  case (2 c)
  with ready_world [OF 2] show ?case
    by (intro build_lawI [where ?w0.0 = "mem c\<lparr>clock_calls := Suc (clock_calls (mem c))\<rparr>"])
       (simp_all add: RetrResp_def law_simps)
qed (simp_all add: RetrResp_def Let_def count_sent_def Tlocal_unset)

interpretation heartbeat: pdu_constructor HB HEARTBEAT True NULL "[]"
proof (unfold_locales, goal_cases)
  case (2 c)
  with ready_world [OF 2] show ?case
    by (intro build_lawI [where ?w0.0 = "mem c\<lparr>clock_calls := Suc (clock_calls (mem c))\<rparr>"])
       (simp_all add: HB_def law_simps)
qed (simp_all add: HB_def Let_def count_sent_def Tlocal_unset)


section \<open>Data telegrams\<close>

text \<open>
  The telegram is built in a buffer of 50 bytes and the length is not checked: 28 bytes of header
  leave room for 22 bytes of payload, less eight when the PDU already has a safety code.
\<close>

lemma Data_spec:
  assumes clock: "Tlocal (sm_time (self c)) \<noteq> None" and p: "p \<noteq> NULL"
  shows "Data n p c =
    (let sm = counted True (self c);
         w = (mem c)\<lparr>clock_calls := Suc (clock_calls (mem c))\<rparr>;
         pdu = outgoing DATA p (unat n) sm (reading (mem c) (clock_calls (mem c)));
         k = code_bytes (pdu_of c)
     in if readable w p (unat n) \<and> code_live w (pdu_of c) \<and> unat n + k \<le> 22
        then Inr (c\<lparr>self := sm, pdu_of := pdu,
          mem := (note_reads (safety_code (pdu_of c)) k (note_reads p (unat n) w))
            \<lparr>dead_frame := rfc_md4 (header pdu @ seen_bytes w p (unat n))\<rparr>\<rparr>)
        else Inl Out_Of_Bounds)"
proof -
  let ?sm = "counted True (self c)" and ?w = "(mem c)\<lparr>clock_calls := Suc (clock_calls (mem c))\<rparr>"
  define pdu where "pdu = outgoing DATA p (unat n) ?sm (reading (mem c) (clock_calls (mem c)))"
  let ?pdu = "pdu\<lparr>safety_code := safety_code (pdu_of c)\<rparr>"
  have "unat n < 256" using unat_bounds(1) .
  then have len: "unat (message_length pdu) = 36 + unat n" by (simp add: pdu_def outgoing_sizes)
  have fields: "payload pdu = p" "pdu\<lparr>safety_code := Ptr Dead_frame 0\<rparr> = pdu"
    by (simp_all add: pdu_def outgoing_def)
  have sized: "well_sized ?pdu" using p len fields by (simp add: well_sized_def)
  have bytes: "payload_bytes ?pdu = unat n" using payload_bytes_sized [OF sized] len by simp
  have ser: "serialisable ?w ?pdu \<longleftrightarrow> readable ?w p (unat n) \<and> code_live ?w (pdu_of c)"
    by (simp only: serialisable_def bytes) (simp add: code_live_def code_bytes_def fields)
  have tel: "serialisable ?w ?pdu \<Longrightarrow> length (telegram ?w ?pdu) \<le> 50 \<longleftrightarrow> unat n + code_bytes (pdu_of c) \<le> 22"
    by (simp add: length_telegram bytes) (simp add: code_bytes_def)
  have "Data n p c = with_code (c\<lparr>self := ?sm, mem := ?w, pdu_of := ?pdu\<rparr>)"
    using clock by (simp add: Data_def constructor_simps pdu_def outgoing_def)
  also have "\<dots> = (if readable ?w p (unat n) \<and> code_live ?w (pdu_of c) \<and> unat n + code_bytes (pdu_of c) \<le> 22
      then Inr (c\<lparr>self := ?sm, pdu_of := pdu, mem := (after_telegram ?pdu ?w)\<lparr>dead_frame := rfc_md4 (protected_bytes ?w ?pdu)\<rparr>\<rparr>)
      else Inl Out_Of_Bounds)"
    using ser tel by (auto simp: with_code_def calculate_MD4_spec [OF sized] fields)
  finally have eq: "Data n p c = \<dots>" .
  have mem: "after_telegram ?pdu ?w = note_reads (safety_code (pdu_of c)) (code_bytes (pdu_of c)) (note_reads p (unat n) ?w)"
      "protected_bytes ?w ?pdu = header pdu @ seen_bytes ?w p (unat n)"
    by (simp_all only: after_telegram_def protected_bytes_def bytes) (simp_all add: fields code_bytes_def)
  show ?thesis
    by (simp only: Let_def eq mem pdu_def [symmetric])
qed


section \<open>Properties of the codec\<close>

lemma deserialized_fields:
  "message_length (decoded h pdu) = message_length h" "receiver_id (decoded h pdu) = receiver_id h"
  "sender_id (decoded h pdu) = sender_id h" "sequence_number (decoded h pdu) = sequence_number h"
  "confirmed_sequence_number (decoded h pdu) = confirmed_sequence_number h"
  "timestamp (decoded h pdu) = timestamp h" "confirmed_timestamp (decoded h pdu) = confirmed_timestamp h"
  "message_type (decoded h pdu) = ucast (ucast (message_type h) :: u16)"
  "payload (decoded h pdu) = payload pdu" "safety_code (decoded h pdu) = safety_code pdu"
  by (simp_all add: decoded_def)

lemma ucast_16_of_32: "ucast (ucast v :: u16) = take_bit 16 v" for v :: u32
  by (rule bit_word_eqI) (auto simp: bit_simps)

text \<open>A telegram in a received array: its header, its payload and its safety code.\<close>

lemma received_telegram:
  assumes "take ml (ext r n) = header h @ xs @ code" and "ml = 28 + (length xs + length code)"
    and "length xs = payload_length h"
  shows "holds_at r (Ptr (Ext n) 0) 0 (header h)"
    and "seen_bytes r (ptr_add (Ptr (Ext n) 0) 28) (length xs) = xs"
    and "seen_bytes r (ptr_add (Ptr (Ext n) 0) (28 + payload_length h)) (length code) = code"
    and "ml \<le> length (ext r n)"
proof -
  let ?a = "ext r n"
  have len: "length (take ml ?a) = ml" using assms by simp
  then show "ml \<le> length ?a" by simp
  have "take (length (header h @ xs @ code)) ?a = header h @ xs @ code" using assms by simp
  then have "take 28 ?a = header h" "take (length xs) (drop 28 ?a) = xs"
      "take (length code) (drop (length xs + 28) ?a) = code"
    using take_eq_append_iff [of "header h" "xs @ code" ?a] take_eq_append_iff [of xs code "drop 28 ?a"]
    by (simp_all add: add.commute)
  then show "holds_at r (Ptr (Ext n) 0) 0 (header h)"
    and "seen_bytes r (ptr_add (Ptr (Ext n) 0) 28) (length xs) = xs"
    and "seen_bytes r (ptr_add (Ptr (Ext n) 0) (28 + payload_length h)) (length code) = code"
    using assms(3) by (simp_all add: holds_at_def seen_bytes_def ptr_add_def array_of_def add.commute)
qed

text \<open>
  C27. \<open>serialize_pdu\<close> on every input: with a size argument below the length field it writes
  nothing; otherwise it writes the 28 header bytes in big-endian order, the payload and the
  safety code where their pointers are set, and leaves the rest of the buffer alone; it leaves
  the arrays exactly when a source is too short or the buffer is smaller than these bytes.
\<close>

theorem serialize_pdu_exact:
  "serialize_pdu pdu buf sz w =
     (if sz < unat (message_length pdu) then Inr (buf, w)
      else if serialisable w pdu \<and> 28 + payload_bytes pdu + code_bytes pdu \<le> length buf
      then Inr (telegram w pdu @ drop (28 + payload_bytes pdu + code_bytes pdu) buf, after_telegram pdu w)
      else Inl Out_Of_Bounds)"
  using length_telegram [of w pdu] by (auto simp: serialize_pdu_spec overwrite_zero)

text \<open>
  C10. Reading back what was written: when the receiver's array holds the bytes that
  \<open>serialize_pdu\<close> produced for a PDU with payload pointer, length and safety code filled in,
  \<open>deserialize_pdu\<close> recovers every field (the message type to 16 bits), and its two pointers
  lead to the payload and the safety code that were sent.
\<close>

theorem pdu_roundtrip:
  assumes ser: "serialize_pdu pdu buf sz w = Inr (buf', w')" and sz: "unat (message_length pdu) \<le> sz"
    and sized: "well_sized pdu" and code: "safety_code pdu \<noteq> NULL"
    and got: "take (unat (message_length pdu)) (ext r n) = take (unat (message_length pdu)) buf'"
  shows "\<exists>pdu'. deserialize_pdu (Ptr (Ext n) 0) (unat (message_length pdu)) zero_pdu r = Inr (pdu', r) \<and>
    message_length pdu' = message_length pdu \<and> message_type pdu' = take_bit 16 (message_type pdu) \<and>
    receiver_id pdu' = receiver_id pdu \<and> sender_id pdu' = sender_id pdu \<and>
    sequence_number pdu' = sequence_number pdu \<and>
    confirmed_sequence_number pdu' = confirmed_sequence_number pdu \<and>
    timestamp pdu' = timestamp pdu \<and> confirmed_timestamp pdu' = confirmed_timestamp pdu \<and>
    seen_bytes r (payload pdu') (payload_bytes pdu) = seen_bytes w (payload pdu) (payload_bytes pdu) \<and>
    seen_bytes r (safety_code pdu') 8 =
      seen_bytes (note_reads (payload pdu) (payload_bytes pdu) w) (safety_code pdu) 8"
proof -
  let ?ml = "unat (message_length pdu)" and ?xs = "seen_bytes w (payload pdu) (payload_bytes pdu)"
  let ?code = "seen_bytes (note_reads (payload pdu) (payload_bytes pdu) w) (safety_code pdu) 8"
  have ok: "serialisable w pdu" "buf' = overwrite buf 0 (telegram w pdu)" "length (telegram w pdu) \<le> length buf"
    using ser sz by (auto simp: serialize_pdu_spec split: if_splits)
  have bytes: "payload_bytes pdu = ?ml - 36" "payload_length pdu = ?ml - 36" "36 \<le> ?ml" "code_bytes pdu = 8"
    using sized code payload_bytes_sized [OF sized] payload_length_sized [of pdu]
    by (simp_all add: well_sized_def code_bytes_def)
  have c8: "length ?code = 8"
    using ok(1) code bytes by (simp add: serialisable_def length_seen_bytes)
  have xs: "length ?xs = ?ml - 36"
    using ok(1) bytes sized by (auto simp: serialisable_def length_seen_bytes well_sized_def)
  have tel: "take ?ml (ext r n) = header pdu @ ?xs @ ?code"
    using got ok bytes length_telegram [OF ok(1)] by (simp add: overwrite_zero telegram_def)
  have "?ml = 28 + (length ?xs + length ?code)" "length ?xs = payload_length pdu"
    using bytes(3) by (simp_all only: xs c8 bytes(2))
  note r = received_telegram(1-3) [OF tel this, unfolded xs c8]
  let ?pdu = "(decoded pdu zero_pdu)\<lparr>payload := ptr_add (Ptr (Ext n) 0) 28,
    safety_code := ptr_add (Ptr (Ext n) 0) (28 + payload_length pdu)\<rparr>"
  have "deserialize_pdu (Ptr (Ext n) 0) ?ml zero_pdu r = Inr (?pdu, r)"
    using deserialize_pdu_at [OF r(1) bytes(3), of zero_pdu] by simp
  moreover have "message_type ?pdu = take_bit 16 (message_type pdu)"
    by (simp add: decoded_def ucast_16_of_32)
  ultimately show ?thesis
    using r(2,3) bytes(1) by (intro exI [of _ ?pdu]) (simp add: deserialized_fields)
qed


definition sample_world :: world where
  "sample_world = initial_world (\<lambda>_. replicate 60 7) (\<lambda>_ b. b) (\<lambda>_. 0) (\<lambda>_. 0)"

definition sample_pdu :: PDU_S where
  "sample_pdu = zero_pdu\<lparr>message_length := 40, message_type := 6240, sequence_number := 9,
     payload := Ptr (Ext 0) 0, safety_code := Ptr (Ext 0) 8\<rparr>"

lemma sample_facts:
  "payload_length sample_pdu = 4" "payload_bytes sample_pdu = 4" "code_bytes sample_pdu = 8"
  "serialisable sample_world sample_pdu" "well_sized sample_pdu"
  by (simp_all add: payload_bytes_def code_bytes_def serialisable_def well_sized_def payload_length_def
      sample_pdu_def sample_world_def initial_world_def readable_def array_of_def)

theorem pdu_roundtrip_witness:
  "\<exists>buf' w' pdu'. serialize_pdu sample_pdu (replicate 50 0) 40 sample_world = Inr (buf', w') \<and>
     deserialize_pdu (Ptr (Ext 1) 0) 40 zero_pdu (sample_world\<lparr>ext := \<lambda>_. buf'\<rparr>) =
       Inr (pdu', sample_world\<lparr>ext := \<lambda>_. buf'\<rparr>) \<and> sequence_number pdu' = 9"
proof -
  let ?t = "telegram sample_world sample_pdu" and ?w = "after_telegram sample_pdu sample_world"
  have ser: "serialize_pdu sample_pdu (replicate 50 0) 40 sample_world = Inr (?t @ replicate 10 0, ?w)"
    using sample_facts by (simp add: serialize_pdu_exact) (simp add: sample_pdu_def)
  have "unat (message_length sample_pdu) \<le> 40" "safety_code sample_pdu \<noteq> NULL" "unat (message_length sample_pdu) = 40"
    "sequence_number sample_pdu = 9"
    by (simp_all add: sample_pdu_def)
  with pdu_roundtrip [OF ser, of "sample_world\<lparr>ext := \<lambda>_. ?t @ replicate 10 0\<rparr>" 1] ser sample_facts(5)
  show ?thesis by auto
qed

text \<open>
  A truncated SPDU is not reported: \<open>deserialize_pdu\<close> returns normally with both pointers of
  the zero-initialised PDU still null, and below 36 bytes it leaves the whole PDU zero.
\<close>

theorem truncated_spdu_not_reported:
  assumes "holds_at w (Ptr (Ext n) 0) 0 (header h)" and "sz < unat (message_length h)"
  shows "\<exists>pdu. deserialize_pdu (Ptr (Ext n) 0) sz zero_pdu w = Inr (pdu, w) \<and>
    payload pdu = NULL \<and> safety_code pdu = NULL \<and> (if sz < 36 then pdu = zero_pdu
      else message_length pdu = message_length h \<and> sequence_number pdu = sequence_number h)"
proof (cases "sz < 36")
  case True
  then show ?thesis by (simp add: deserialize_pdu_short) (simp add: zero_pdu_def)
next
  case False
  then show ?thesis
    using assms deserialize_pdu_at [OF assms(1), of sz zero_pdu]
    by (simp add: deserialized_fields) (simp add: zero_pdu_def)
qed

theorem truncated_spdu_not_reported_witness:
  "\<exists>pdu w. deserialize_pdu (Ptr (Ext 0) 0) 38 zero_pdu w = Inr (pdu, w) \<and> message_length pdu = 40 \<and> payload pdu = NULL"
proof -
  let ?w = "sample_world\<lparr>ext := \<lambda>_. header sample_pdu @ replicate 10 0\<rparr>"
  have "holds_at ?w (Ptr (Ext 0) 0) 0 (header sample_pdu)" by (simp add: holds_at_def array_of_def)
  moreover have "message_length sample_pdu = 40" by (simp add: sample_pdu_def)
  ultimately show ?thesis
    using truncated_spdu_not_reported [of ?w 0 sample_pdu 38] by auto
qed

text \<open>
  C36. The safety-code pointer of a received SPDU is inside the received array exactly when the
  length field is at least 36. Below, the unsigned subtraction wraps, the pointer lies about four
  gigabytes behind the array, and the assertion on the payload length still holds.
\<close>

theorem code_pointer_inside_iff:
  assumes "holds_at w (Ptr (Ext n) 0) 0 (header h)" and "36 \<le> length (ext w n)"
    and "unat (message_length h) \<le> length (ext w n)" and "length (ext w n) < 2 ^ 31"
  shows "\<exists>pdu. deserialize_pdu (Ptr (Ext n) 0) (length (ext w n)) zero_pdu w = Inr (pdu, w) \<and>
    (readable w (safety_code pdu) 8 \<longleftrightarrow> 36 \<le> unat (message_length h))"
proof -
  let ?pdu = "(decoded h zero_pdu)\<lparr>payload := ptr_add (Ptr (Ext n) 0) 28,
    safety_code := ptr_add (Ptr (Ext n) 0) (28 + payload_length h)\<rparr>"
  have "deserialize_pdu (Ptr (Ext n) 0) (length (ext w n)) zero_pdu w = Inr (?pdu, w)"
    using deserialize_pdu_at [OF assms(1,2), of zero_pdu] assms(3) by simp
  moreover have "readable w (safety_code ?pdu) 8 \<longleftrightarrow> 36 + payload_length h \<le> length (ext w n)"
    by (simp add: ptr_add_def readable_def array_of_def)
  moreover have "36 + payload_length h \<le> length (ext w n) \<longleftrightarrow> 36 \<le> unat (message_length h)"
    using assms(3,4) payload_length_sized [of h] payload_length_short [of h]
    by (cases "36 \<le> unat (message_length h)") simp_all
  ultimately show ?thesis by blast
qed

theorem code_pointer_inside_iff_witness:
  "\<exists>pdu w. deserialize_pdu (Ptr (Ext 0) 0) 48 zero_pdu w = Inr (pdu, w) \<and> \<not> readable w (safety_code pdu) 8"
proof -
  let ?h = "sample_pdu\<lparr>message_length := 35\<rparr>"
  let ?w = "sample_world\<lparr>ext := \<lambda>_. header ?h @ replicate 20 0\<rparr>"
  have "holds_at ?w (Ptr (Ext 0) 0) 0 (header ?h)" by (simp add: holds_at_def array_of_def)
  from code_pointer_inside_iff [OF this] show ?thesis by auto
qed

text \<open>
  C28. The safety code: for a PDU whose length covers header, payload and eight bytes of code and
  which fits the 50-byte buffer, \<open>calculate_MD4\<close> leaves the RFC 1320 digest of header and
  payload in its array and points the PDU at it; the digest does not depend on uninitialised
  memory or on an earlier safety code. Beyond 50 bytes the stack buffer is overrun.
\<close>

theorem safety_code_is_md4:
  assumes "well_sized pdu" and "serialisable w pdu"
  shows "\<exists>w'. calculate_MD4 pdu w =
      (if 28 + payload_bytes pdu + code_bytes pdu \<le> 50
       then Inr (pdu\<lparr>safety_code := Ptr Dead_frame 0\<rparr>, w') else Inl Out_Of_Bounds) \<and>
    dead_frame w' = rfc_md4 (header pdu @ seen_bytes w (payload pdu) (payload_bytes pdu))"
  using assms
  by (intro exI [of _ "(after_telegram pdu w)\<lparr>dead_frame := rfc_md4 (protected_bytes w pdu)\<rparr>"])
     (simp add: calculate_MD4_spec length_telegram protected_bytes_def)

theorem safety_code_is_md4_witness:
  "\<exists>w'. calculate_MD4 sample_pdu sample_world = Inr (sample_pdu\<lparr>safety_code := Ptr Dead_frame 0\<rparr>, w') \<and>
    dead_frame w' = rfc_md4 (header sample_pdu @ [7, 7, 7, 7])"
proof -
  have "seen_bytes sample_world (payload sample_pdu) 4 = [7, 7, 7, 7]"
    by (simp add: sample_pdu_def sample_world_def initial_world_def seen_bytes_def array_of_def numeral_eq_Suc)
  with safety_code_is_md4 [OF sample_facts(5) sample_facts(4)] show ?thesis
    by (simp add: sample_facts)
qed

text \<open>
  C37. \<open>Data\<close> for a fresh PDU returns exactly for messages of at most 22 bytes; a longer one
  overruns the stack buffer of \<open>calculate_MD4\<close>.
\<close>

theorem Data_returns_iff:
  assumes "Tlocal (sm_time sm) \<noteq> None" and "p \<noteq> NULL"
    and "readable (w\<lparr>clock_calls := Suc (clock_calls w)\<rparr>) p (unat n)"
  shows "returns (Data n p \<lparr>self = sm, pdu_of = zero_pdu, mem = w\<rparr>) \<longleftrightarrow> unat n \<le> 22"
  using assms
  by (subst Data_spec) (simp_all add: Let_def code_live_def code_bytes_def, simp_all add: zero_pdu_def)

theorem Data_returns_iff_witness:
  "\<not> returns (Data 23 (Ptr (Ext 0) 0)
     \<lparr>self = zero_sm\<lparr>sm_time := zero_time\<lparr>Tlocal := Some GetCurrentTimestamp_fn\<rparr>\<rparr>, pdu_of = zero_pdu, mem = sample_world\<rparr>)"
  by (subst Data_returns_iff) (simp_all add: sample_world_def initial_world_def readable_def array_of_def)

end
