(* ===== verification/Sm.thy ===== *)
theory Sm
  imports Telegram
begin

text \<open>
  The connection state machine of \<open>safecom/src/sm.c\<close>. A handler works on a frame: \<open>*self\<close>,
  \<open>*pdu\<close> and the memory. The statements of a branch are a list of steps, run in order; a fault
  ends the sequence. The application's \<open>SendSpdu\<close> is a call that is recorded and returns; it is
  assumed not to call back into the library. \<open>LOG_INFO\<close> has no effect on this state (its
  filter is in \<open>Log\<close>).
\<close>

section \<open>Checks and small steps\<close>

definition check_seq_confirmed_timestamp :: "SmType \<Rightarrow> PDU_S \<Rightarrow> bool" where
  "check_seq_confirmed_timestamp sm pdu \<longleftrightarrow>
     confirmed_timestamp pdu - ctsr sm \<ge> 0 \<and>
     confirmed_timestamp pdu - ctsr sm < Tmax (timeouts (sm_time sm))"

text \<open>The conjunction of comparisons \<open>p[i] == v\<close> stops at the first that fails.\<close>

primrec bytes_match :: "ptr \<Rightarrow> nat \<Rightarrow> u8 list \<Rightarrow> world \<Rightarrow> (bool \<times> world) outcome" where
  "bytes_match p i [] w = Inr (True, w)"
| "bytes_match p i (v # vs) w =
     bindE (load p i w) (\<lambda>(b, w). if b = v then bytes_match p (Suc i) vs w else Inr (False, w))"

definition check_version :: "PDU_S \<Rightarrow> world \<Rightarrow> (bool \<times> world) outcome" where
  "check_version pdu w =
     assertE (payload pdu \<noteq> NULL) (
     bytes_match (payload pdu) 0
       [ucast (drop_bit 24 PROTOCOL_VERSION AND 0xFF), ucast (drop_bit 16 PROTOCOL_VERSION AND 0xFF),
        ucast (drop_bit 8 PROTOCOL_VERSION AND 0xFF), ucast (PROTOCOL_VERSION AND 0xFF)] w)"

definition unconfirmed_payload_available :: bool where
  "unconfirmed_payload_available = False"

definition set_initial_values :: "SmType \<Rightarrow> SmType" where
  "set_initial_values sm = sm\<lparr>snr := 0, snt := 0, cst := 0, csr := 0, tsr := 0, ctsr := 0\<rparr>"

definition close_connection :: "frame \<Rightarrow> frame outcome" where
  "close_connection c = Inr (c\<lparr>self := (self c)\<lparr>cst := sequence_number (pdu_of c),
     sm_state := STATE_CLOSED, handle_event := Some handle_closed_fn\<rparr>\<rparr>)"

definition process_regular_receipt :: "frame \<Rightarrow> frame outcome" where
  "process_regular_receipt c = (let pdu = pdu_of c in
     Inr (c\<lparr>self := (self c)\<lparr>snr := sequence_number pdu + 1, cst := sequence_number pdu,
       csr := confirmed_sequence_number pdu, tsr := timestamp pdu, ctsr := confirmed_timestamp pdu\<rparr>\<rparr>))"

definition snt_rand_value :: "world \<Rightarrow> i32 \<times> world" where
  "snt_rand_value w = (let seed' = (seed w * 1103515245 + 12345) mod 101 in (seed', w\<lparr>seed := seed'\<rparr>))"

text \<open>\<open>self->snt = snt_rand_value();\<close> and \<open>self->state = s;\<close>\<close>

definition random_snt :: "frame \<Rightarrow> frame outcome" where
  "random_snt c = (let (v, w) = snt_rand_value (mem c) in Inr (c\<lparr>self := (self c)\<lparr>snt := v\<rparr>, mem := w\<rparr>))"

definition set_state :: "State \<Rightarrow> frame \<Rightarrow> frame outcome" where
  "set_state s c = Inr (c\<lparr>self := (self c)\<lparr>sm_state := s\<rparr>\<rparr>)"

definition set_csr :: "u32 \<Rightarrow> frame \<Rightarrow> frame outcome" where
  "set_csr v c = Inr (c\<lparr>self := (self c)\<lparr>csr := v\<rparr>\<rparr>)"

text \<open>\<open>self->ctsr = self->time.Tlocal();\<close>\<close>

definition ctsr_from_clock :: "frame \<Rightarrow> frame outcome" where
  "ctsr_from_clock c = bindE (call_Tlocal (self c) (mem c)) (\<lambda>(now, w).
     Inr (c\<lparr>self := (self c)\<lparr>ctsr := now\<rparr>, mem := w\<rparr>))"

text \<open>The two assignments that start the supervision of the next message.\<close>

definition restart_Ti :: "frame \<Rightarrow> frame outcome" where
  "restart_Ti c = bindE (call_Tlocal (self c) (mem c)) (\<lambda>(now, w).
     let sm = self c;
         time = (sm_time sm)\<lparr>Trtd := now - ctsr sm\<rparr>;
         time = time\<lparr>Ti := Tmax (timeouts time) - Trtd time\<rparr>
     in Inr (c\<lparr>self := sm\<lparr>sm_time := time\<rparr>, mem := w\<rparr>))"

text \<open>The two statements that end every branch that sends.\<close>

definition transmit :: "frame \<Rightarrow> frame outcome" where
  "transmit c =
     (let n = unat (message_length (pdu_of c)) in
     bindE (serialize_pdu (pdu_of c) (buff_to_send (mem c)) n (mem c)) (\<lambda>(buffer, w).
     let w = w\<lparr>buff_to_send := buffer\<rparr> in
     case vtable (self c) of None \<Rightarrow> Inl Null_Deref
     | Some i \<Rightarrow> (case SendSpdu (vtables w i) of None \<Rightarrow> Inl Null_Call
       | Some f \<Rightarrow> Inr (c\<lparr>mem := w\<lparr>sent := sent w @
           [\<lparr>call_fn = f, call_node = channel (self c), call_len = ucast (message_length (pdu_of c)),
             call_data = take n buffer\<rparr>]\<rparr>\<rparr>))))"

text \<open>Close the connection and tell the peer why.\<close>

definition disconnect :: "DiscReasonType \<Rightarrow> frame \<Rightarrow> frame outcome" where
  "disconnect reason = run [close_connection, DiscReq reason 0, transmit]"

section \<open>The state handlers\<close>

definition handle_closed :: "Event \<Rightarrow> frame \<Rightarrow> frame outcome" where
  "handle_closed event c = (case event of
     EVENT_OPEN_CONN \<Rightarrow>
       (if sm_role (self c) = ROLE_SERVER
        then run [random_snt, set_state STATE_DOWN] c
        else if sm_role (self c) = ROLE_CLIENT
        then run
          [random_snt,
           \<lambda>c. Inr (c\<lparr>self := (self c)\<lparr>cst := 0\<rparr>\<rparr>),
           ctsr_from_clock,
           set_state STATE_START,
           ConnReq,
           transmit] c
        else Inr c)
   | _ \<Rightarrow> Inr c)"

definition handle_down :: "Event \<Rightarrow> frame \<Rightarrow> frame outcome" where
  "handle_down event c =
     (if event \<in> {EVENT_OPEN_CONN, EVENT_CLOSE_CONN, EVENT_SEND_DATA} then close_connection c
      else if event = EVENT_RECV_CONN_REQ
      then bindE (check_version (pdu_of c) (mem c)) (\<lambda>(ok, w).
        let c = c\<lparr>mem := w\<rparr> in
        if ok
        then run
          [process_regular_receipt,
           \<lambda>c. set_csr (snt (self c) - 1) c,
           ctsr_from_clock,
           set_state STATE_START,
           restart_Ti,
           ConnResp,
           transmit] c
        else disconnect PROTOCOL_VERSION_ERROR c)
      else Inr c)"

definition handle_start :: "Event \<Rightarrow> frame \<Rightarrow> frame outcome" where
  "handle_start event c =
     (if event \<in> {EVENT_OPEN_CONN, EVENT_SEND_DATA} then disconnect STATE_SERVICE_NOT_ALLOWED c
      else if event \<in> {EVENT_RECV_CONN_REQ, EVENT_RECV_RETR_REQ, EVENT_RECV_RETR_RESP, EVENT_RECV_DATA,
        EVENT_RECV_RETR_DATA} then disconnect NOT_EXPECTED_RECV_MSG_TYPE c
      else if event = EVENT_CLOSE_CONN then disconnect USER_REQUEST c
      else if event = EVENT_RECV_CONN_RESP
      then (if sm_role (self c) = ROLE_SERVER then disconnect NOT_EXPECTED_RECV_MSG_TYPE c
        else if sm_role (self c) = ROLE_CLIENT
        then bindE (check_version (pdu_of c) (mem c)) (\<lambda>(ok, w).
          let c = c\<lparr>mem := w\<rparr> in
          if ok
          then run [process_regular_receipt, set_state STATE_UP, restart_Ti, HB, transmit] c
          else disconnect PROTOCOL_VERSION_ERROR c)
        else Inr c)
      else if event = EVENT_RECV_DISC_REQ then close_connection c
      else if event = EVENT_RECV_HB
      then (if sm_role (self c) = ROLE_SERVER
        then (if snr (self c) = sequence_number (pdu_of c)
          then (if check_seq_confirmed_timestamp (self c) (pdu_of c)
            then run [process_regular_receipt, set_state STATE_UP, restart_Ti] c
            else disconnect SEQ_ERR c)
          else disconnect SEQ_NBR_ERR_FOR_CONNECTION c)
        else if sm_role (self c) = ROLE_CLIENT then disconnect NOT_EXPECTED_RECV_MSG_TYPE c
        else Inr c)
      else Inr c)"

definition handle_up :: "Event \<Rightarrow> frame \<Rightarrow> frame outcome" where
  "handle_up event c =
     (if event = EVENT_OPEN_CONN then disconnect STATE_SERVICE_NOT_ALLOWED c
      else if event = EVENT_CLOSE_CONN then disconnect USER_REQUEST c
      else if event = EVENT_SEND_DATA then transmit c
      else if event \<in> {EVENT_RECV_CONN_REQ, EVENT_RECV_CONN_RESP, EVENT_RECV_RETR_RESP,
        EVENT_RECV_RETR_DATA} then disconnect NOT_EXPECTED_RECV_MSG_TYPE c
      else if event = EVENT_RECV_DISC_REQ then close_connection c
      else if event = EVENT_RECV_RETR_REQ
      then (if snr (self c) = sequence_number (pdu_of c)
        then (if unconfirmed_payload_available then run [process_regular_receipt, restart_Ti] c
          else disconnect FAIL_RETRANSMISSION c)
        else (if unconfirmed_payload_available
          then run [set_csr (confirmed_sequence_number (pdu_of c)), set_state STATE_RETR_REQ] c
          else disconnect FAIL_RETRANSMISSION c))
      else if event = EVENT_RECV_HB
      then (if snr (self c) = sequence_number (pdu_of c)
        then (if check_seq_confirmed_timestamp (self c) (pdu_of c)
          then run [process_regular_receipt, restart_Ti] c
          else disconnect SEQ_ERR c)
        else run [set_state STATE_RETR_REQ, RetrReq, transmit] c)
      else if event = EVENT_RECV_DATA
      then (if snr (self c) = sequence_number (pdu_of c)
        then (if check_seq_confirmed_timestamp (self c) (pdu_of c)
          then run [process_regular_receipt, restart_Ti] c
          else disconnect SEQ_ERR c)
        else run [set_state STATE_RETR_REQ, RetrReq, transmit] c)
      else Inr c)"

definition handle_retr_req :: "Event \<Rightarrow> frame \<Rightarrow> frame outcome" where
  "handle_retr_req event c =
     (if event = EVENT_OPEN_CONN then disconnect STATE_SERVICE_NOT_ALLOWED c
      else if event = EVENT_CLOSE_CONN then disconnect USER_REQUEST c
      else if event \<in> {EVENT_RECV_CONN_REQ, EVENT_RECV_CONN_RESP} then disconnect NOT_EXPECTED_RECV_MSG_TYPE c
      else if event = EVENT_RECV_DISC_REQ then close_connection c
      else if event = EVENT_RECV_RETR_REQ
      then (if snr (self c) = sequence_number (pdu_of c)
        then (if unconfirmed_payload_available then run [process_regular_receipt, restart_Ti] c
          else disconnect FAIL_RETRANSMISSION c)
        else (if unconfirmed_payload_available
          then set_csr (confirmed_sequence_number (pdu_of c)) c
          else disconnect FAIL_RETRANSMISSION c))
      else if event = EVENT_SEND_DATA then transmit c
      else if event = EVENT_RECV_RETR_RESP then set_state STATE_RETR_RUN c
      else Inr c)"

definition handle_retr_run :: "Event \<Rightarrow> frame \<Rightarrow> frame outcome" where
  "handle_retr_run event c =
     (if event = EVENT_OPEN_CONN then disconnect STATE_SERVICE_NOT_ALLOWED c
      else if event = EVENT_CLOSE_CONN then disconnect USER_REQUEST c
      else if event = EVENT_SEND_DATA then transmit c
      else if event \<in> {EVENT_RECV_CONN_REQ, EVENT_RECV_CONN_RESP, EVENT_RECV_RETR_RESP}
      then disconnect NOT_EXPECTED_RECV_MSG_TYPE c
      else if event = EVENT_RECV_DISC_REQ then close_connection c
      else if event = EVENT_RECV_RETR_REQ
      then (if snr (self c) = sequence_number (pdu_of c)
        then disconnect NOT_EXPECTED_RECV_MSG_TYPE c
        else (if unconfirmed_payload_available
          then run [set_csr (confirmed_sequence_number (pdu_of c)), set_state STATE_RETR_REQ] c
          else disconnect FAIL_RETRANSMISSION c))
      else if event \<in> {EVENT_RECV_HB, EVENT_RECV_DATA}
      then (if snr (self c) = sequence_number (pdu_of c)
        then (if check_seq_confirmed_timestamp (self c) (pdu_of c)
          then run [process_regular_receipt, set_state STATE_UP, restart_Ti] c
          else disconnect SEQ_ERR c)
        else run [set_state STATE_RETR_REQ, RetrReq, transmit] c)
      else if event = EVENT_RECV_RETR_DATA
      then (if snr (self c) = sequence_number (pdu_of c)
        then (if check_seq_confirmed_timestamp (self c) (pdu_of c)
          then run [process_regular_receipt, set_state STATE_RETR_RUN, restart_Ti] c
          else disconnect SEQ_ERR c)
        else run [set_state STATE_RETR_REQ, RetrReq, transmit] c)
      else Inr c)"

section \<open>Initialisation and dispatch\<close>

definition Sm_Init :: "SmType \<Rightarrow> SmType" where
  "Sm_Init sm =
     (let time = sm_time sm;
          time = time\<lparr>timeouts := (timeouts time)\<lparr>Th := 10, Tmax := 30\<rparr>\<rparr>;
          time = time\<lparr>Ti := Tmax (timeouts time)\<rparr>;
          sm = set_initial_values (sm\<lparr>sm_time := time\<rparr>)
      in sm\<lparr>handle_event := Some handle_closed_fn\<rparr>)"

fun handler :: "EventHandler \<Rightarrow> Event \<Rightarrow> frame \<Rightarrow> frame outcome" where
  "handler handle_closed_fn = handle_closed"
| "handler handle_down_fn = handle_down"
| "handler handle_start_fn = handle_start"
| "handler handle_up_fn = handle_up"
| "handler handle_retr_req_fn = handle_retr_req"
| "handler handle_retr_run_fn = handle_retr_run"

fun handler_of :: "State \<Rightarrow> EventHandler" where
  "handler_of STATE_CLOSED = handle_closed_fn"
| "handler_of STATE_DOWN = handle_down_fn"
| "handler_of STATE_START = handle_start_fn"
| "handler_of STATE_UP = handle_up_fn"
| "handler_of STATE_RETR_REQ = handle_retr_req_fn"
| "handler_of STATE_RETR_RUN = handle_retr_run_fn"

definition call_handle_event :: "Event \<Rightarrow> frame \<Rightarrow> frame outcome" where
  "call_handle_event event c = (case handle_event (self c) of None \<Rightarrow> Inl Null_Call | Some h \<Rightarrow> handler h event c)"

definition timer_events :: "Event \<Rightarrow> frame \<Rightarrow> frame outcome" where
  "timer_events event c =
     (if event = EVENT_TH_ELAPSED
      then (case sm_state (self c) of
          STATE_START \<Rightarrow> run [HB, transmit] c
        | STATE_UP \<Rightarrow> run [HB, transmit] c
        | STATE_RETR_REQ \<Rightarrow> run [HB, transmit] c
        | STATE_RETR_RUN \<Rightarrow> run [HB, transmit] c
        | _ \<Rightarrow> Inr c)
      else if event = EVENT_TI_ELAPSED then disconnect TIMEOUT_INCOMING_MSG c
      else Inr c)"

definition update_handler :: "frame \<Rightarrow> frame outcome" where
  "update_handler c = Inr (c\<lparr>self := (self c)\<lparr>handle_event := Some (handler_of (sm_state (self c)))\<rparr>\<rparr>)"

definition Sm_HandleEvent :: "Event \<Rightarrow> frame \<Rightarrow> frame outcome" where
  "Sm_HandleEvent event = run [call_handle_event event, timer_events event, update_handler]"

end
