(* ===== verification/Sm_Spec.thy ===== *)
theory Sm_Spec
  imports Sm
begin

text \<open>
  The state machine as a protocol table. \<open>plan\<close> says which action an event causes, \<open>after\<close>
  what the action does to the connection, \<open>says\<close> which telegram it sends. The six handlers of
  \<open>sm.c\<close> share one contract, to do what the table says; \<open>Sm_HandleEvent\<close> is proved to follow
  it under the conditions that make its memory accesses and calls defined.
\<close>

section \<open>The table\<close>

datatype action = Ignore | Listen | Connect | Accept_request | Accept_response | Accept State
  | Close | Refuse DiscReasonType | Ask_again | Enter State | Forward | Beat

text \<open>What the code finds out about the event's PDU before it decides.\<close>

record verdict =
  version_known :: bool
  in_sequence :: bool
  fresh :: bool

definition judged :: "verdict \<Rightarrow> State \<Rightarrow> action \<Rightarrow> action" where
  "judged v s otherwise =
     (if in_sequence v then (if fresh v then Accept s else Refuse SEQ_ERR) else otherwise)"

fun plan :: "SmRole \<Rightarrow> verdict \<Rightarrow> State \<Rightarrow> Event \<Rightarrow> action" where
  "plan role v STATE_CLOSED event = (case event of
      EVENT_OPEN_CONN \<Rightarrow> (case role of ROLE_SERVER \<Rightarrow> Listen | ROLE_CLIENT \<Rightarrow> Connect)
    | _ \<Rightarrow> Ignore)"
| "plan role v STATE_DOWN event = (case event of
      EVENT_OPEN_CONN \<Rightarrow> Close | EVENT_CLOSE_CONN \<Rightarrow> Close | EVENT_SEND_DATA \<Rightarrow> Close
    | EVENT_RECV_CONN_REQ \<Rightarrow> (if version_known v then Accept_request else Refuse PROTOCOL_VERSION_ERROR)
    | _ \<Rightarrow> Ignore)"
| "plan role v STATE_START event = (case event of
      EVENT_OPEN_CONN \<Rightarrow> Refuse STATE_SERVICE_NOT_ALLOWED
    | EVENT_SEND_DATA \<Rightarrow> Refuse STATE_SERVICE_NOT_ALLOWED
    | EVENT_CLOSE_CONN \<Rightarrow> Refuse USER_REQUEST
    | EVENT_RECV_DISC_REQ \<Rightarrow> Close
    | EVENT_RECV_CONN_RESP \<Rightarrow> (case role of ROLE_SERVER \<Rightarrow> Refuse NOT_EXPECTED_RECV_MSG_TYPE
        | ROLE_CLIENT \<Rightarrow> (if version_known v then Accept_response else Refuse PROTOCOL_VERSION_ERROR))
    | EVENT_RECV_HB \<Rightarrow> (case role of ROLE_SERVER \<Rightarrow> judged v STATE_UP (Refuse SEQ_NBR_ERR_FOR_CONNECTION)
        | ROLE_CLIENT \<Rightarrow> Refuse NOT_EXPECTED_RECV_MSG_TYPE)
    | EVENT_TH_ELAPSED \<Rightarrow> Ignore | EVENT_TI_ELAPSED \<Rightarrow> Ignore
    | _ \<Rightarrow> Refuse NOT_EXPECTED_RECV_MSG_TYPE)"
| "plan role v STATE_UP event = (case event of
      EVENT_OPEN_CONN \<Rightarrow> Refuse STATE_SERVICE_NOT_ALLOWED
    | EVENT_CLOSE_CONN \<Rightarrow> Refuse USER_REQUEST
    | EVENT_SEND_DATA \<Rightarrow> Forward
    | EVENT_RECV_DISC_REQ \<Rightarrow> Close
    | EVENT_RECV_RETR_REQ \<Rightarrow> Refuse FAIL_RETRANSMISSION
    | EVENT_RECV_HB \<Rightarrow> judged v STATE_UP Ask_again
    | EVENT_RECV_DATA \<Rightarrow> judged v STATE_UP Ask_again
    | EVENT_TH_ELAPSED \<Rightarrow> Ignore | EVENT_TI_ELAPSED \<Rightarrow> Ignore
    | _ \<Rightarrow> Refuse NOT_EXPECTED_RECV_MSG_TYPE)"
| "plan role v STATE_RETR_REQ event = (case event of
      EVENT_OPEN_CONN \<Rightarrow> Refuse STATE_SERVICE_NOT_ALLOWED
    | EVENT_CLOSE_CONN \<Rightarrow> Refuse USER_REQUEST
    | EVENT_SEND_DATA \<Rightarrow> Forward
    | EVENT_RECV_DISC_REQ \<Rightarrow> Close
    | EVENT_RECV_CONN_REQ \<Rightarrow> Refuse NOT_EXPECTED_RECV_MSG_TYPE
    | EVENT_RECV_CONN_RESP \<Rightarrow> Refuse NOT_EXPECTED_RECV_MSG_TYPE
    | EVENT_RECV_RETR_REQ \<Rightarrow> Refuse FAIL_RETRANSMISSION
    | EVENT_RECV_RETR_RESP \<Rightarrow> Enter STATE_RETR_RUN
    | _ \<Rightarrow> Ignore)"
| "plan role v STATE_RETR_RUN event = (case event of
      EVENT_OPEN_CONN \<Rightarrow> Refuse STATE_SERVICE_NOT_ALLOWED
    | EVENT_CLOSE_CONN \<Rightarrow> Refuse USER_REQUEST
    | EVENT_SEND_DATA \<Rightarrow> Forward
    | EVENT_RECV_DISC_REQ \<Rightarrow> Close
    | EVENT_RECV_RETR_REQ \<Rightarrow>
        (if in_sequence v then Refuse NOT_EXPECTED_RECV_MSG_TYPE else Refuse FAIL_RETRANSMISSION)
    | EVENT_RECV_HB \<Rightarrow> judged v STATE_UP Ask_again
    | EVENT_RECV_DATA \<Rightarrow> judged v STATE_UP Ask_again
    | EVENT_RECV_RETR_DATA \<Rightarrow> judged v STATE_RETR_RUN Ask_again
    | EVENT_TH_ELAPSED \<Rightarrow> Ignore | EVENT_TI_ELAPSED \<Rightarrow> Ignore
    | _ \<Rightarrow> Refuse NOT_EXPECTED_RECV_MSG_TYPE)"

text \<open>The two timers act in \<open>Sm_HandleEvent\<close> itself.\<close>

definition plan_event :: "SmRole \<Rightarrow> verdict \<Rightarrow> State \<Rightarrow> Event \<Rightarrow> action" where
  "plan_event role v s event = (case event of
      EVENT_TH_ELAPSED \<Rightarrow> (if s \<in> {STATE_CLOSED, STATE_DOWN} then Ignore else Beat)
    | EVENT_TI_ELAPSED \<Rightarrow> Refuse TIMEOUT_INCOMING_MSG
    | _ \<Rightarrow> plan role v s event)"

section \<open>What the actions do\<close>

definition closed_by :: "u32 \<Rightarrow> SmType \<Rightarrow> SmType" where
  "closed_by n sm = sm\<lparr>cst := n, sm_state := STATE_CLOSED, handle_event := Some handle_closed_fn\<rparr>"

definition received :: "PDU_S \<Rightarrow> SmType \<Rightarrow> SmType" where
  "received pdu sm = sm\<lparr>snr := sequence_number pdu + 1, cst := sequence_number pdu,
     csr := confirmed_sequence_number pdu, tsr := timestamp pdu, ctsr := confirmed_timestamp pdu\<rparr>"

definition supervised :: "u32 \<Rightarrow> SmType \<Rightarrow> SmType" where
  "supervised now sm = sm\<lparr>sm_time := (sm_time sm)\<lparr>Trtd := now - ctsr sm,
     Ti := Tmax (timeouts (sm_time sm)) - (now - ctsr sm)\<rparr>\<rparr>"

text \<open>\<open>t0\<close> and \<open>t1\<close> are the next two clock readings, \<open>r\<close> the next random number.\<close>

fun after :: "action \<Rightarrow> PDU_S \<Rightarrow> u32 \<Rightarrow> u32 \<Rightarrow> i32 \<Rightarrow> SmType \<Rightarrow> SmType" where
  "after Ignore pdu t0 t1 r sm = sm"
| "after Listen pdu t0 t1 r sm = sm\<lparr>snt := r, sm_state := STATE_DOWN\<rparr>"
| "after Connect pdu t0 t1 r sm = sm\<lparr>snt := r, cst := 0, ctsr := t0, sm_state := STATE_START\<rparr>"
| "after Accept_request pdu t0 t1 r sm =
     supervised t1 ((received pdu sm)\<lparr>csr := snt sm - 1, ctsr := t0, sm_state := STATE_START\<rparr>)"
| "after Accept_response pdu t0 t1 r sm =
     counted True (supervised t0 ((received pdu sm)\<lparr>sm_state := STATE_UP\<rparr>))"
| "after (Accept s) pdu t0 t1 r sm = supervised t0 ((received pdu sm)\<lparr>sm_state := s\<rparr>)"
| "after Close pdu t0 t1 r sm = closed_by (sequence_number pdu) sm"
| "after (Refuse reason) pdu t0 t1 r sm = counted True (closed_by (sequence_number pdu) sm)"
| "after Ask_again pdu t0 t1 r sm = counted True (sm\<lparr>sm_state := STATE_RETR_REQ\<rparr>)"
| "after (Enter s) pdu t0 t1 r sm = sm\<lparr>sm_state := s\<rparr>"
| "after Forward pdu t0 t1 r sm = sm"
| "after Beat pdu t0 t1 r sm = counted True sm"

fun says :: "action \<Rightarrow> (MessageType \<times> u8 list) option" where
  "says Connect = Some (CONNECTION_REQUEST, handshake_payload)"
| "says Accept_request = Some (CONNECTION_RESPONSE, handshake_payload)"
| "says Accept_response = Some (HEARTBEAT, [])"
| "says (Refuse reason) = Some (DISCONNECTION_REQUEST, disc_payload reason 0)"
| "says Ask_again = Some (RETRANSMISSION_REQUEST, [])"
| "says Beat = Some (HEARTBEAT, [])"
| "says _ = None"

text \<open>The number of clock readings; the last one is the time stamp of the telegram.\<close>

fun ticks :: "action \<Rightarrow> nat" where
  "ticks Connect = 2"
| "ticks Accept_request = 3"
| "ticks Accept_response = 2"
| "ticks (Accept s) = 1"
| "ticks (Refuse reason) = 1"
| "ticks Ask_again = 1"
| "ticks Beat = 1"
| "ticks _ = 0"

definition opens :: "action \<Rightarrow> bool" where
  "opens a \<longleftrightarrow> a = Listen \<or> a = Connect"

text \<open>
  A telegram as the application's \<open>SendSpdu\<close> is shown it: header, payload, and what is left of
  the first eight bytes of the digest when they are read through the dangling pointer.
\<close>

definition code_seen :: "world \<Rightarrow> nat \<Rightarrow> u8 list \<Rightarrow> u8 list" where
  "code_seen w k m = map (\<lambda>j. decay w (k + j) (rfc_md4 m ! j)) [0..<8]"

definition covered :: "MessageType \<Rightarrow> u8 list \<Rightarrow> SmType \<Rightarrow> u32 \<Rightarrow> u8 list" where
  "covered t content sm now = header (outgoing t NULL (length content) sm now) @ content"

definition spdu :: "send_fn \<Rightarrow> MessageType \<Rightarrow> u8 list \<Rightarrow> SmType \<Rightarrow> u32 \<Rightarrow> u8 list \<Rightarrow> spdu_call" where
  "spdu f t content sm now code = \<lparr>call_fn = f, call_node = channel sm, call_len = word_of_nat (36 + length content),
     call_data = covered t content sm now @ code\<rparr>"

definition transmits :: "send_fn \<Rightarrow> MessageType \<Rightarrow> u8 list \<Rightarrow> SmType \<Rightarrow> u32 \<Rightarrow> world \<Rightarrow> world \<Rightarrow> bool" where
  "transmits f t content sm now w w' \<longleftrightarrow>
     (\<exists>k. sent w' = sent w @ [spdu f t content sm now (code_seen w k (covered t content sm now))])"


section \<open>Sending\<close>

text \<open>The connection's context names callbacks, and \<open>SendSpdu\<close> is the function \<open>f\<close>.\<close>

definition attached :: "send_fn \<Rightarrow> frame \<Rightarrow> bool" where
  "attached f c \<longleftrightarrow> (\<exists>i. vtable (self c) = Some i \<and> SendSpdu (vtables (mem c) i) = Some f)"

definition operational :: "send_fn \<Rightarrow> frame \<Rightarrow> bool" where
  "operational f c \<longleftrightarrow> ready c \<and> attached f c"

lemma covered_outgoing: "header (outgoing t p n sm now) = header (outgoing t NULL n sm now)"
  by (simp add: header_def outgoing_def)

lemma seen_dead:
  "dead_frame w = rfc_md4 m \<Longrightarrow> seen_bytes w (Ptr Dead_frame 0) 8 = code_seen w (dead_reads w) m"
  by (simp add: seen_bytes_def code_seen_def)

lemma length_code_seen [simp]: "length (code_seen w k m) = 8"
  by (simp add: code_seen_def)

lemma code_live_environment:
  "same_environment w w' \<Longrightarrow> wf_world w \<Longrightarrow> wf_world w' \<Longrightarrow> code_live w' pdu = code_live w pdu"
  by (auto simp: same_environment_def wf_world_def code_live_def readable_def array_of_def
      split: ptr.splits blk.splits)

text \<open>What a constructor has built, in the form in which it is serialised.\<close>

lemma built_telegram:
  assumes built: "built content pdu w w1" and pdu: "pdu = outgoing t place (length content) sm now"
    and fits: "length content \<le> 14"
  shows "unat (message_length pdu) = 36 + length content" and "serialisable w1 pdu"
    and "telegram w1 pdu = covered t content sm now @ code_seen w (dead_reads w1) (covered t content sm now)"
    and "length (telegram w1 pdu) = 36 + length content"
proof -
  let ?m = "covered t content sm now"
  show len: "unat (message_length pdu) = 36 + length content" using fits by (simp add: pdu outgoing_sizes)
  have fields: "payload pdu = place" "safety_code pdu = Ptr Dead_frame 0" by (simp_all add: pdu)
  have null: "place = NULL \<Longrightarrow> content = []"
    using built by (auto simp: built_def fields readable_def)
  then have sized: "well_sized pdu"
    using len by (auto simp: well_sized_def fields) (simp add: pdu outgoing_def)
  have bytes: "payload_bytes pdu = length content" "code_bytes pdu = 8"
    using payload_bytes_sized [OF sized] len by (simp_all add: code_bytes_def fields)
  have head: "header pdu @ content = ?m" by (simp add: pdu covered_def covered_outgoing [of t place])
  have mem: "wf_world w1" "same_environment w w1" "\<And>k. note_reads place k w1 = w1"
      "readable w1 place (length content)" "seen_bytes w1 place (length content) = content"
      "dead_frame w1 = rfc_md4 ?m"
    using built head by (simp_all add: built_def fields)
  show ser: "serialisable w1 pdu"
    using mem by (simp add: serialisable_def bytes fields readable_def array_of_def wf_world_def)
  have "code_seen w1 k ?m = code_seen w k ?m" for k
    using mem(2) by (simp add: code_seen_def same_environment_def)
  then show "telegram w1 pdu = ?m @ code_seen w (dead_reads w1) ?m"
    using mem by (simp add: telegram_def bytes fields seen_dead head [symmetric])
  show "length (telegram w1 pdu) = 36 + length content"
    by (simp add: length_telegram [OF ser] bytes)
qed

lemma transmit_built:
  assumes built: "built content (pdu_of c) w (mem c)" and att: "attached f c"
    and pdu: "pdu_of c = outgoing t place (length content) (self c) now" and fits: "length content \<le> 14"
  shows "\<exists>w'. transmit c = Inr (c\<lparr>mem := w'\<rparr>) \<and> same_environment w w' \<and> wf_world w' \<and> seed w' = seed w \<and>
    clock_calls w' = Suc (clock_calls w) \<and> transmits f t content (self c) now w w'"
proof -
  let ?pdu = "pdu_of c" and ?m = "covered t content (self c) now"
  note tel = built_telegram [OF built pdu fits]
  have mem: "wf_world (mem c)" "same_environment w (mem c)" "seed (mem c) = seed w" "sent (mem c) = sent w"
      "clock_calls (mem c) = Suc (clock_calls w)"
    using built by (simp_all add: built_def)
  have room: "length (telegram (mem c) ?pdu) \<le> length (buff_to_send (mem c))"
    using mem(1) fits by (simp add: tel(4) wf_world_def)
  define buf where "buf = overwrite (buff_to_send (mem c)) 0 (telegram (mem c) ?pdu)"
  have buf: "serialize_pdu ?pdu (buff_to_send (mem c)) (36 + length content) (mem c) =
      Inr (buf, after_telegram ?pdu (mem c))"
    using tel(1,2) room by (simp add: serialize_pdu_spec buf_def)
  have shown: "take (36 + length content) buf = telegram (mem c) ?pdu" and "length buf = 100"
    using tel(4) room mem(1) by (simp_all add: buf_def overwrite_zero wf_world_def)
  have word: "(ucast (message_length ?pdu) :: u32) = word_of_nat (36 + length content)"
    by (metis tel(1) of_nat_unat)
  from att obtain i where i: "vtable (self c) = Some i" "SendSpdu (vtables (mem c) i) = Some f"
    by (auto simp: attached_def)
  show ?thesis
    using mem i \<open>length buf = 100\<close>
    by (intro exI [of _ "(after_telegram ?pdu (mem c))\<lparr>buff_to_send := buf,
        sent := sent (mem c) @ [spdu f t content (self c) now (code_seen w (dead_reads (mem c)) ?m)]\<rparr>"])
       (simp add: transmit_def tel(1,3) buf shown word spdu_def transmits_def same_environment_def
          wf_world_def after_telegram_def Let_def, blast)
qed

context pdu_constructor
begin

lemma send_law:
  assumes "operational f c"
  shows "\<exists>pdu w'. let sm = counted counts (self c); w = mem c; now = reading w (clock_calls w)
    in run [build, transmit] c = Inr (c\<lparr>self := sm, pdu_of := pdu, mem := w'\<rparr>) \<and>
       same_environment w w' \<and> wf_world w' \<and> seed w' = seed w \<and> clock_calls w' = Suc (clock_calls w) \<and>
       safety_code pdu = Ptr Dead_frame 0 \<and> transmits f kind content sm now w w'"
proof -
  let ?sm = "counted counts (self c)" and ?now = "reading (mem c) (clock_calls (mem c))"
  define pdu where "pdu = outgoing kind place (length content) ?sm ?now"
  have "ready c" and att: "attached f c" using assms by (simp_all add: operational_def)
  then obtain w1 where b: "build c = Inr (c\<lparr>self := ?sm, pdu_of := pdu, mem := w1\<rparr>)"
      "built content pdu (mem c) w1"
    using build_law by (fastforce simp: Let_def pdu_def)
  let ?c = "c\<lparr>self := ?sm, pdu_of := pdu, mem := w1\<rparr>"
  have "attached f ?c" using att b(2) by (simp add: attached_def built_def same_environment_def)
  then obtain w' where t: "transmit ?c = Inr (?c\<lparr>mem := w'\<rparr>)" "same_environment (mem c) w'" "wf_world w'"
      "seed w' = seed (mem c)" "clock_calls w' = Suc (clock_calls (mem c))"
      "transmits f kind content ?sm ?now (mem c) w'"
    using transmit_built [of content ?c "mem c" f kind place ?now] b(2) content_fits by (auto simp: pdu_def)
  then show ?thesis
    by (intro exI [of _ pdu] exI [of _ w']) (simp add: b(1) Let_def, simp add: pdu_def)
qed

end


section \<open>Reactions\<close>

text \<open>The frame \<open>c'\<close> is what the action \<open>a\<close> makes of \<open>c\<close>.\<close>

definition reacts :: "action \<Rightarrow> send_fn \<Rightarrow> frame \<Rightarrow> frame \<Rightarrow> bool" where
  "reacts a f c c' \<longleftrightarrow>
     (let w = mem c; w' = mem c'; k = clock_calls w; r = fst (snt_rand_value w);
          sm' = after a (pdu_of c) (reading w k) (reading w (k + 1)) r (self c)
      in self c' = sm' \<and> operational f c' \<and> same_environment w w' \<and>
         seed w' = (if opens a then r else seed w) \<and> clock_calls w' = k + ticks a \<and>
         (case says a of
            Some (t, content) \<Rightarrow> transmits f t content sm' (reading w (k + ticks a - 1)) w w'
          | None \<Rightarrow> if a = Forward
              then sent w' = sent w @ [\<lparr>call_fn = f, call_node = channel (self c),
                call_len = ucast (message_length (pdu_of c)), call_data = telegram w (pdu_of c)\<rparr>]
              else sent w' = sent w))"

text \<open>What an event's PDU must allow for the accesses of its handler to be defined.\<close>

definition payload_live :: "world \<Rightarrow> PDU_S \<Rightarrow> bool" where
  "payload_live w pdu \<longleftrightarrow> (case payload pdu of NULL \<Rightarrow> False
     | Ptr b off \<Rightarrow> b \<noteq> Dead_frame \<and> off + 4 \<le> length (array_of w b))"

definition sendable :: "world \<Rightarrow> PDU_S \<Rightarrow> bool" where
  "sendable w pdu \<longleftrightarrow> serialisable w pdu \<and> unat (message_length pdu) = length (telegram w pdu) \<and>
     length (telegram w pdu) \<le> 100"

definition admissible :: "Event \<Rightarrow> frame \<Rightarrow> bool" where
  "admissible event c \<longleftrightarrow>
     (event \<in> {EVENT_RECV_CONN_REQ, EVENT_RECV_CONN_RESP} \<longrightarrow> payload_live (mem c) (pdu_of c)) \<and>
     (event = EVENT_SEND_DATA \<longrightarrow> sendable (mem c) (pdu_of c))"

definition judge :: "frame \<Rightarrow> verdict" where
  "judge c = \<lparr>version_known = (seen_bytes (mem c) (payload (pdu_of c)) 4 = [0x30, 0x33, 0x30, 0x31]),
     in_sequence = (snr (self c) = sequence_number (pdu_of c)),
     fresh = check_seq_confirmed_timestamp (self c) (pdu_of c)\<rparr>"

lemma check_version_live:
  assumes "payload_live (mem c) (pdu_of c)"
  shows "check_version (pdu_of c) (mem c) = Inr (version_known (judge c), mem c)"
proof -
  obtain b off where p: "payload (pdu_of c) = Ptr b off" "b \<noteq> Dead_frame" "off + 4 \<le> length (array_of (mem c) b)"
    using assms by (auto simp: payload_live_def split: ptr.splits)
  let ?a = "array_of (mem c) b"
  have load: "load (Ptr b off) i (mem c) = Inr (?a ! (off + i), mem c)" if "i < 4" for i
    using that p by (simp add: load_live array_get_def)
  have "take 4 (drop off ?a) = [?a ! off, ?a ! (off + 1), ?a ! (off + 2), ?a ! (off + 3)]"
    using p(3) by (simp add: numeral_eq_Suc take_Suc_conv_app_nth)
  then show ?thesis
    using p by (simp add: check_version_def judge_def seen_bytes_def version_bytes load numeral_2_eq_2 numeral_3_eq_3)
qed

lemma operational_cong:
  assumes "operational f c" and "same_environment (mem c) (mem c')" and "wf_world (mem c')"
    and "Tlocal (sm_time (self c')) = Tlocal (sm_time (self c))" and "vtable (self c') = vtable (self c)"
    and "pdu_of c' = pdu_of c \<or> safety_code (pdu_of c') = Ptr Dead_frame 0"
  shows "operational f c'"
proof -
  have "code_live (mem c') (pdu_of c')"
    using assms(6)
  proof
    assume "pdu_of c' = pdu_of c"
    with assms(1-3) show ?thesis
      using code_live_environment by (auto simp: operational_def ready_def)
  next
    assume "safety_code (pdu_of c') = Ptr Dead_frame 0"
    with assms(3) show ?thesis
      by (simp add: code_live_def code_bytes_def readable_def array_of_def wf_world_def)
  qed
  with assms show ?thesis
    by (auto simp: operational_def ready_def attached_def same_environment_def)
qed


text \<open>
  Before they send, the branches only assign to \<open>*self\<close>, read the clock and draw a random
  number: \<open>c0\<close> is \<open>c\<close> after \<open>n\<close> readings.
\<close>

definition prepared :: "action \<Rightarrow> send_fn \<Rightarrow> nat \<Rightarrow> frame \<Rightarrow> frame \<Rightarrow> bool" where
  "prepared a f n c c0 \<longleftrightarrow> operational f c \<and> pdu_of c0 = pdu_of c \<and>
     mem c0 = (mem c)\<lparr>clock_calls := clock_calls (mem c) + n,
       seed := if opens a then fst (snt_rand_value (mem c)) else seed (mem c)\<rparr> \<and>
     Tlocal (sm_time (self c0)) = Tlocal (sm_time (self c)) \<and> vtable (self c0) = vtable (self c)"

lemma prepared_operational:
  assumes "prepared a f n c c0"
  shows "operational f c0" "same_environment (mem c) (mem c0)"
proof -
  show same: "same_environment (mem c) (mem c0)"
    using assms by (simp add: prepared_def same_environment_def)
  show "operational f c0"
    by (rule operational_cong [OF _ same])
       (use assms in \<open>auto simp: prepared_def operational_def ready_def wf_world_def\<close>)
qed

lemma reading_update [simp]:
  "reading (w\<lparr>clock_calls := a\<rparr>) n = reading w n" "reading (w\<lparr>seed := s\<rparr>) n = reading w n"
  by (simp_all add: reading_def)

text \<open>An action that sends nothing is done when its assignments are.\<close>

lemma quiet_reacts:
  assumes "prepared a f (ticks a) c c0" and "says a = None" and "a \<noteq> Forward"
    and "self c0 = after a (pdu_of c) (reading (mem c) (clock_calls (mem c)))
      (reading (mem c) (clock_calls (mem c) + 1)) (fst (snt_rand_value (mem c))) (self c)"
  shows "reacts a f c c0"
  using assms prepared_operational [OF assms(1)]
  by (simp add: reacts_def Let_def prepared_def)

context pdu_constructor
begin

lemma sending_reacts:
  assumes pre: "run pre c = Inr c0" and prep: "prepared a f n c c0"
    and says: "says a = Some (kind, content)" and n: "ticks a = Suc n"
    and self: "counted counts (self c0) = after a (pdu_of c) (reading (mem c) (clock_calls (mem c)))
      (reading (mem c) (clock_calls (mem c) + 1)) (fst (snt_rand_value (mem c))) (self c)"
  shows "\<exists>c'. run (pre @ [build, transmit]) c = Inr c' \<and> reacts a f c c'"
proof -
  let ?sm = "counted counts (self c0)" and ?now = "reading (mem c0) (clock_calls (mem c0))"
  note op = prepared_operational [OF prep]
  obtain pdu w' where send: "run [build, transmit] c0 = Inr (c0\<lparr>self := ?sm, pdu_of := pdu, mem := w'\<rparr>)"
      "same_environment (mem c0) w'" "wf_world w'" "seed w' = seed (mem c0)"
      "clock_calls w' = Suc (clock_calls (mem c0))" "safety_code pdu = Ptr Dead_frame 0"
      "transmits f kind content ?sm ?now (mem c0) w'"
    using send_law [OF op(1)] by (auto simp: Let_def)
  let ?c = "c0\<lparr>self := ?sm, pdu_of := pdu, mem := w'\<rparr>"
  have same: "same_environment (mem c) w'" using op(2) send(2) by (rule same_environment_trans)
  have "operational f ?c"
    by (rule operational_cong [OF op(1)]) (use send in simp_all)
  moreover have "transmits f kind content ?sm (reading (mem c) (clock_calls (mem c) + ticks a - 1)) (mem c) w'"
    using send(7) prep n by (simp add: transmits_def prepared_def code_seen_def)
  ultimately have "reacts a f c ?c"
    using send same says n prep unfolding reacts_def Let_def self [symmetric]
    by (simp add: prepared_def)
  moreover have "run (pre @ [build, transmit]) c = Inr ?c"
    by (simp only: run_append pre bindE_simps send)
  ultimately show ?thesis by blast
qed

end

lemmas step_defs = close_connection_def process_regular_receipt_def random_snt_def set_state_def set_csr_def
  ctsr_from_clock_def restart_Ti_def

lemma operational_clock: "operational f c \<Longrightarrow> Tlocal (sm_time (self c)) \<noteq> None"
  by (simp add: operational_def ready_def)

lemma disconnect_reacts:
  assumes "operational f c"
  shows "\<exists>c'. disconnect r c = Inr c' \<and> reacts (Refuse r) f c c'"
  using disc_req.sending_reacts [of "[close_connection]" c "c\<lparr>self := closed_by (sequence_number (pdu_of c)) (self c)\<rparr>"
      "Refuse r" f 0 r 0] assms
  by (simp add: disconnect_def close_connection_def closed_by_def prepared_def opens_def)

lemma ask_again_reacts:
  assumes "operational f c"
  shows "\<exists>c'. run [set_state STATE_RETR_REQ, RetrReq, transmit] c = Inr c' \<and> reacts Ask_again f c c'"
  using retr_req.sending_reacts [of "[set_state STATE_RETR_REQ]" c "c\<lparr>self := (self c)\<lparr>sm_state := STATE_RETR_REQ\<rparr>\<rparr>"
      Ask_again f 0] assms
  by (simp add: set_state_def prepared_def opens_def)

lemma beat_reacts:
  assumes "operational f c"
  shows "\<exists>c'. run [HB, transmit] c = Inr c' \<and> reacts Beat f c c'"
  using heartbeat.sending_reacts [of "[]" c c Beat f 0] assms
  by (simp add: prepared_def opens_def)

lemma close_reacts: "operational f c \<Longrightarrow> \<exists>c'. close_connection c = Inr c' \<and> reacts Close f c c'"
  by (simp add: close_connection_def) (rule quiet_reacts, simp_all add: prepared_def closed_by_def opens_def)

lemma enter_reacts: "operational f c \<Longrightarrow> \<exists>c'. set_state s c = Inr c' \<and> reacts (Enter s) f c c'"
  by (simp add: set_state_def) (rule quiet_reacts, simp_all add: prepared_def opens_def)

lemma ignore_reacts: "operational f c \<Longrightarrow> reacts Ignore f c c"
  by (rule quiet_reacts) (simp_all add: prepared_def opens_def)

lemma accept_reacts:
  assumes "operational f c"
  shows "\<exists>c'. run [process_regular_receipt, set_state s, restart_Ti] c = Inr c' \<and> reacts (Accept s) f c c'"
proof -
  let ?now = "reading (mem c) (clock_calls (mem c))"
  have "run [process_regular_receipt, set_state s, restart_Ti] c =
      Inr (c\<lparr>self := supervised ?now ((received (pdu_of c) (self c))\<lparr>sm_state := s\<rparr>),
        mem := (mem c)\<lparr>clock_calls := Suc (clock_calls (mem c))\<rparr>\<rparr>)" (is "_ = Inr ?c")
    using operational_clock [OF assms] by (simp add: step_defs Tlocal_set supervised_def received_def Let_def)
  moreover have "reacts (Accept s) f c ?c"
    using assms by (intro quiet_reacts) (simp_all add: prepared_def opens_def supervised_def received_def)
  ultimately show ?thesis by blast
qed

lemma stay_reacts:
  assumes "operational f c" and "sm_state (self c) = s"
  shows "\<exists>c'. run [process_regular_receipt, restart_Ti] c = Inr c' \<and> reacts (Accept s) f c c'"
proof -
  have "run [process_regular_receipt, restart_Ti] c = run [process_regular_receipt, set_state s, restart_Ti] c"
    using operational_clock [OF assms(1)] assms(2)
    by (cases "self c") (simp add: step_defs Let_def Tlocal_set)
  then show ?thesis using accept_reacts [OF assms(1)] by simp
qed


lemma listen_reacts:
  assumes "operational f c"
  shows "\<exists>c'. run [random_snt, set_state STATE_DOWN] c = Inr c' \<and> reacts Listen f c c'"
proof -
  let ?r = "fst (snt_rand_value (mem c))"
  have "run [random_snt, set_state STATE_DOWN] c =
      Inr (c\<lparr>self := (self c)\<lparr>snt := ?r, sm_state := STATE_DOWN\<rparr>, mem := (mem c)\<lparr>seed := ?r\<rparr>\<rparr>)" (is "_ = Inr ?c")
    by (simp add: step_defs snt_rand_value_def Let_def)
  moreover have "reacts Listen f c ?c"
    using assms by (intro quiet_reacts) (simp_all add: prepared_def opens_def)
  ultimately show ?thesis by blast
qed

lemma connect_reacts:
  assumes "operational f c"
  shows "\<exists>c'. run [random_snt, \<lambda>c. Inr (c\<lparr>self := (self c)\<lparr>cst := 0\<rparr>\<rparr>), ctsr_from_clock,
    set_state STATE_START, ConnReq, transmit] c = Inr c' \<and> reacts Connect f c c'"
proof -
  let ?pre = "[random_snt, \<lambda>c. Inr (c\<lparr>self := (self c)\<lparr>cst := 0\<rparr>\<rparr>), ctsr_from_clock, set_state STATE_START]"
  let ?w = "mem c" and ?r = "fst (snt_rand_value (mem c))"
  let ?c = "c\<lparr>self := (self c)\<lparr>snt := ?r, cst := 0, ctsr := reading ?w (clock_calls ?w), sm_state := STATE_START\<rparr>,
    mem := ?w\<lparr>clock_calls := Suc (clock_calls ?w), seed := ?r\<rparr>\<rparr>"
  have pre: "run ?pre c = Inr ?c"
    using operational_clock [OF assms] by (simp add: step_defs snt_rand_value_def Let_def Tlocal_set)
  have "prepared Connect f 1 c ?c" using assms by (simp add: prepared_def opens_def)
  from conn_req.sending_reacts [OF pre this] show ?thesis by simp
qed

lemma accept_request_reacts:
  assumes "operational f c"
  shows "\<exists>c'. run [process_regular_receipt, \<lambda>c. set_csr (snt (self c) - 1) c, ctsr_from_clock,
    set_state STATE_START, restart_Ti, ConnResp, transmit] c = Inr c' \<and> reacts Accept_request f c c'"
proof -
  let ?pre = "[process_regular_receipt, \<lambda>c. set_csr (snt (self c) - 1) c, ctsr_from_clock,
    set_state STATE_START, restart_Ti]"
  let ?w = "mem c"
  let ?k = "clock_calls ?w"
  let ?c = "c\<lparr>self := supervised (reading ?w (Suc ?k)) ((received (pdu_of c) (self c))
      \<lparr>csr := snt (self c) - 1, ctsr := reading ?w ?k, sm_state := STATE_START\<rparr>),
    mem := ?w\<lparr>clock_calls := Suc (Suc ?k)\<rparr>\<rparr>"
  have pre: "run ?pre c = Inr ?c"
    using operational_clock [OF assms]
    by (simp add: step_defs Let_def Tlocal_set received_def supervised_def)
  have "prepared Accept_request f 2 c ?c"
    using assms by (simp add: prepared_def opens_def received_def supervised_def)
  from conn_resp.sending_reacts [OF pre this] show ?thesis by simp
qed

lemma accept_response_reacts:
  assumes "operational f c"
  shows "\<exists>c'. run [process_regular_receipt, set_state STATE_UP, restart_Ti, HB, transmit] c = Inr c' \<and>
    reacts Accept_response f c c'"
proof -
  let ?w = "mem c"
  let ?c = "c\<lparr>self := supervised (reading ?w (clock_calls ?w)) ((received (pdu_of c) (self c))\<lparr>sm_state := STATE_UP\<rparr>),
    mem := ?w\<lparr>clock_calls := Suc (clock_calls ?w)\<rparr>\<rparr>"
  have pre: "run [process_regular_receipt, set_state STATE_UP, restart_Ti] c = Inr ?c"
    using operational_clock [OF assms]
    by (simp add: step_defs Let_def Tlocal_set received_def supervised_def)
  have "prepared Accept_response f 1 c ?c"
    using assms by (simp add: prepared_def opens_def received_def supervised_def)
  from heartbeat.sending_reacts [OF pre this] show ?thesis by simp
qed

lemma forward_reacts:
  assumes op: "operational f c" and s: "sendable (mem c) (pdu_of c)"
  shows "\<exists>c'. transmit c = Inr c' \<and> reacts Forward f c c'"
proof -
  let ?w = "mem c" and ?pdu = "pdu_of c" and ?t = "telegram (mem c) (pdu_of c)"
  define buf where "buf = overwrite (buff_to_send ?w) 0 ?t"
  have wf: "wf_world ?w" using op by (simp add: operational_def ready_def)
  have s': "serialisable ?w ?pdu" "unat (message_length ?pdu) = length ?t" "length ?t \<le> 100"
    using s by (simp_all add: sendable_def)
  then have buf: "length buf = 100" "take (length ?t) buf = ?t"
    using wf by (simp_all add: buf_def wf_world_def overwrite_zero)
  obtain i where i: "vtable (self c) = Some i" "SendSpdu (vtables ?w i) = Some f"
    using op by (auto simp: operational_def attached_def)
  let ?c = "c\<lparr>mem := (after_telegram ?pdu ?w)\<lparr>buff_to_send := buf, sent := sent ?w @
    [\<lparr>call_fn = f, call_node = channel (self c), call_len = ucast (message_length ?pdu), call_data = ?t\<rparr>]\<rparr>\<rparr>"
  have "serialize_pdu ?pdu (buff_to_send ?w) (length ?t) ?w = Inr (buf, after_telegram ?pdu ?w)"
    using s' wf by (simp add: serialize_pdu_spec wf_world_def buf_def)
  then have t: "transmit c = Inr ?c"
    using s' i buf by (simp add: transmit_def after_telegram_def Let_def)
  have same: "same_environment ?w (mem ?c)" "wf_world (mem ?c)"
    using wf buf by (simp_all add: same_environment_def after_telegram_def wf_world_def)
  have "operational f ?c"
    by (rule operational_cong [OF op same]) simp_all
  then have "reacts Forward f c ?c"
    using same by (simp add: reacts_def Let_def opens_def after_telegram_def)
  with t show ?thesis by blast
qed


section \<open>The contract of a state handler\<close>

definition handled_as :: "action \<Rightarrow> send_fn \<Rightarrow> frame \<Rightarrow> frame outcome \<Rightarrow> bool" where
  "handled_as a f c m \<longleftrightarrow> (\<exists>c'. m = Inr c' \<and> reacts a f c c')"

lemma handled_intros:
  assumes "operational f c"
  shows "handled_as Ignore f c (Inr c)"
    and "handled_as Close f c (close_connection c)"
    and "handled_as (Refuse r) f c (disconnect r c)"
    and "handled_as (Enter s) f c (set_state s c)"
    and "handled_as Listen f c (run [random_snt, set_state STATE_DOWN] c)"
    and "handled_as Connect f c (run [random_snt, \<lambda>c. Inr (c\<lparr>self := (self c)\<lparr>cst := 0\<rparr>\<rparr>), ctsr_from_clock,
      set_state STATE_START, ConnReq, transmit] c)"
    and "handled_as Accept_request f c (run [process_regular_receipt, \<lambda>c. set_csr (snt (self c) - 1) c,
      ctsr_from_clock, set_state STATE_START, restart_Ti, ConnResp, transmit] c)"
    and "handled_as Accept_response f c
      (run [process_regular_receipt, set_state STATE_UP, restart_Ti, HB, transmit] c)"
    and "handled_as (Accept s) f c (run [process_regular_receipt, set_state s, restart_Ti] c)"
    and "handled_as Ask_again f c (run [set_state STATE_RETR_REQ, RetrReq, transmit] c)"
    and "handled_as Beat f c (run [HB, transmit] c)"
    and "sm_state (self c) = s' \<Longrightarrow> handled_as (Accept s') f c (run [process_regular_receipt, restart_Ti] c)"
    and "sendable (mem c) (pdu_of c) \<Longrightarrow> handled_as Forward f c (transmit c)"
  unfolding handled_as_def
  by (simp_all only: ignore_reacts close_reacts disconnect_reacts enter_reacts listen_reacts connect_reacts
      accept_request_reacts accept_response_reacts accept_reacts ask_again_reacts beat_reacts stay_reacts
      forward_reacts assms sum.inject ex_simps simp_thms)

abbreviation planned :: "frame \<Rightarrow> Event \<Rightarrow> action" where
  "planned c event \<equiv> plan_event (sm_role (self c)) (judge c) (sm_state (self c)) event"

text \<open>
  A handler of a state does what the table says for that state and leaves the timer events to the
  dispatcher, which then runs them and installs the handler of the new state.
\<close>

locale state_handler =
  fixes h :: EventHandler
    and home :: State
  assumes home_law: "handler_of home = h"
    and handle_law: "operational f c \<Longrightarrow> sm_state (self c) = home \<Longrightarrow> admissible event c \<Longrightarrow>
      handled_as (plan (sm_role (self c)) (judge c) home event) f c (handler h event c)"
    and timers_left: "event \<in> {EVENT_TH_ELAPSED, EVENT_TI_ELAPSED} \<Longrightarrow> handler h event c = Inr c"

lemma judged_simps:
  "judged v s a = (if in_sequence v then (if fresh v then Accept s else Refuse SEQ_ERR) else a)"
  by (simp add: judged_def)

lemma judge_simps [simp]:
  "in_sequence (judge c) = (snr (self c) = sequence_number (pdu_of c))"
  "fresh (judge c) = check_seq_confirmed_timestamp (self c) (pdu_of c)"
  by (simp_all add: judge_def)

lemmas handler_simps = judged_simps admissible_def check_version_live handled_intros
  unconfirmed_payload_available_def Let_def

interpretation closed: state_handler handle_closed_fn STATE_CLOSED
  by unfold_locales (auto simp: handle_closed_def handled_intros simp del: run.simps split: Event.split SmRole.split)

interpretation down: state_handler handle_down_fn STATE_DOWN
  by unfold_locales (auto simp: handle_down_def handler_simps simp del: run.simps split: Event.split)

interpretation start: state_handler handle_start_fn STATE_START
  by unfold_locales (auto simp: handle_start_def handler_simps simp del: run.simps split: Event.split SmRole.split)

interpretation up: state_handler handle_up_fn STATE_UP
  by unfold_locales (auto simp: handle_up_def handler_simps simp del: run.simps split: Event.split)

interpretation retr_req_state: state_handler handle_retr_req_fn STATE_RETR_REQ
  by unfold_locales (auto simp: handle_retr_req_def handler_simps simp del: run.simps split: Event.split)

interpretation retr_run_state: state_handler handle_retr_run_fn STATE_RETR_RUN
  by unfold_locales (auto simp: handle_retr_run_def handler_simps simp del: run.simps split: Event.split)


section \<open>Dispatch\<close>

text \<open>The handler pointer matches the state: what \<open>Sm_Init\<close> and \<open>Sm_HandleEvent\<close> maintain.\<close>

definition consistent :: "SmType \<Rightarrow> bool" where
  "consistent sm \<longleftrightarrow> handle_event sm = Some (handler_of (sm_state sm))"

definition dispatched :: "SmType \<Rightarrow> SmType" where
  "dispatched sm = sm\<lparr>handle_event := Some (handler_of (sm_state sm))\<rparr>"

text \<open>One event end to end: the action of the table, then the handler of the new state.\<close>

definition follows :: "action \<Rightarrow> send_fn \<Rightarrow> frame \<Rightarrow> frame \<Rightarrow> bool" where
  "follows a f c c' \<longleftrightarrow> (\<exists>c1. reacts a f c c1 \<and> c' = c1\<lparr>self := dispatched (self c1)\<rparr>)"

lemma plan_timers: "event \<in> {EVENT_TH_ELAPSED, EVENT_TI_ELAPSED} \<Longrightarrow> plan role v s event = Ignore"
  by (cases s) auto

lemma plan_event_others:
  "event \<notin> {EVENT_TH_ELAPSED, EVENT_TI_ELAPSED} \<Longrightarrow> plan_event role v s event = plan role v s event"
  by (cases event) (simp_all add: plan_event_def)

lemma timer_events_follow:
  assumes "operational f c" and "event \<in> {EVENT_TH_ELAPSED, EVENT_TI_ELAPSED}"
  shows "handled_as (planned c event) f c (timer_events event c)"
  using assms
  by (auto simp: plan_event_def timer_events_def handled_intros simp del: run.simps split: State.split)

context state_handler
begin

lemma dispatch:
  assumes op: "operational f c" and home: "sm_state (self c) = home" and cons: "consistent (self c)"
    and adm: "admissible event c"
  shows "\<exists>c'. Sm_HandleEvent event c = Inr c' \<and> follows (planned c event) f c c'"
proof -
  have call: "call_handle_event event c = handler h event c"
    using cons home home_law by (simp add: call_handle_event_def consistent_def)
  have law: "handled_as (plan (sm_role (self c)) (judge c) home event) f c (handler h event c)"
    using handle_law op home adm .
  have "\<exists>c1. run [call_handle_event event, timer_events event] c = Inr c1 \<and> reacts (planned c event) f c c1"
  proof (cases "event \<in> {EVENT_TH_ELAPSED, EVENT_TI_ELAPSED}")
    case True
    then show ?thesis using timers_left [OF True, of c] timer_events_follow [OF op True] by (auto simp: call handled_as_def)
  next
    case False
    then show ?thesis
      using law home by (auto simp: call handled_as_def plan_event_others timer_events_def)
  qed
  then obtain c1 where c1: "run [call_handle_event event, timer_events event] c = Inr c1"
      "reacts (planned c event) f c c1" by blast
  have "Sm_HandleEvent event c = update_handler c1"
    using run_append [of "[call_handle_event event, timer_events event]" "[update_handler]" c] c1(1)
    by (simp add: Sm_HandleEvent_def update_handler_def)
  with c1(2) show ?thesis
    by (auto simp: update_handler_def follows_def dispatched_def)
qed

end


lemma dispatch_any_state:
  assumes "operational f c" and "consistent (self c)" and "admissible event c"
  shows "\<exists>c'. Sm_HandleEvent event c = Inr c' \<and> follows (planned c event) f c c'"
proof (cases "sm_state (self c)")
  case STATE_CLOSED from closed.dispatch [OF assms(1) this assms(2,3)] show ?thesis .
next
  case STATE_DOWN from down.dispatch [OF assms(1) this assms(2,3)] show ?thesis .
next
  case STATE_START from start.dispatch [OF assms(1) this assms(2,3)] show ?thesis .
next
  case STATE_UP from up.dispatch [OF assms(1) this assms(2,3)] show ?thesis .
next
  case STATE_RETR_REQ from retr_req_state.dispatch [OF assms(1) this assms(2,3)] show ?thesis .
next
  case STATE_RETR_RUN from retr_run_state.dispatch [OF assms(1) this assms(2,3)] show ?thesis .
qed

text \<open>What can be read off a step: the connection, the bytes sent, and that it can go on.\<close>

lemma followsD:
  assumes "follows a f c c'"
  shows "operational f c'" and "consistent (self c')" and "same_environment (mem c) (mem c')"
    and "self c' = dispatched (after a (pdu_of c) (reading (mem c) (clock_calls (mem c)))
      (reading (mem c) (clock_calls (mem c) + 1)) (fst (snt_rand_value (mem c))) (self c))"
    and "clock_calls (mem c') = clock_calls (mem c) + ticks a"
    and "says a = None \<Longrightarrow> a \<noteq> Forward \<Longrightarrow> sent (mem c') = sent (mem c)"
    and "says a = Some (t, content) \<Longrightarrow>
      transmits f t content (self c') (reading (mem c) (clock_calls (mem c) + ticks a - 1)) (mem c) (mem c')"
    and "a = Forward \<Longrightarrow> sent (mem c') = sent (mem c) @ [\<lparr>call_fn = f, call_node = channel (self c),
      call_len = ucast (message_length (pdu_of c)), call_data = telegram (mem c) (pdu_of c)\<rparr>]"
    and "seed (mem c') = (if opens a then fst (snt_rand_value (mem c)) else seed (mem c))"
proof -
  obtain c1 where r: "reacts a f c c1" and c': "c' = c1\<lparr>self := dispatched (self c1)\<rparr>"
    using assms by (auto simp: follows_def)
  have "operational f c1" using r by (simp add: reacts_def Let_def)
  then show "operational f c'"
    by (simp add: c' operational_def ready_def attached_def dispatched_def)
  show "consistent (self c')" by (simp add: c' consistent_def dispatched_def)
  have spdu: "spdu f t content (dispatched sm) now code = spdu f t content sm now code"
      "covered t content (dispatched sm) now = covered t content sm now" for sm now code
    by (simp_all add: spdu_def covered_def outgoing_def dispatched_def)
  show "same_environment (mem c) (mem c')"
    "self c' = dispatched (after a (pdu_of c) (reading (mem c) (clock_calls (mem c)))
      (reading (mem c) (clock_calls (mem c) + 1)) (fst (snt_rand_value (mem c))) (self c))"
    "clock_calls (mem c') = clock_calls (mem c) + ticks a"
    "seed (mem c') = (if opens a then fst (snt_rand_value (mem c)) else seed (mem c))"
    using r by (simp_all add: c' reacts_def Let_def)
  show "says a = None \<Longrightarrow> a \<noteq> Forward \<Longrightarrow> sent (mem c') = sent (mem c)"
    "says a = Some (t, content) \<Longrightarrow>
      transmits f t content (self c') (reading (mem c) (clock_calls (mem c) + ticks a - 1)) (mem c) (mem c')"
    "a = Forward \<Longrightarrow> sent (mem c') = sent (mem c) @ [\<lparr>call_fn = f, call_node = channel (self c),
      call_len = ucast (message_length (pdu_of c)), call_data = telegram (mem c) (pdu_of c)\<rparr>]"
    using r by (simp_all add: c' reacts_def Let_def transmits_def spdu)
qed

end
