(* ===== verification/Safecom.thy ===== *)
theory Safecom
  imports Sm_Spec
begin

text \<open>
  The public interface: \<open>safecom.c\<close>, \<open>safecom_impl.c\<close> and the two modules \<open>rass.c\<close> and
  \<open>sic.c\<close> on top of it, with the callbacks of \<open>mock/\<close>. The library keeps one static pointer
  \<open>sms\<close> to the caller's array of connections, an instance and a default configuration per
  module. An index outside the array is \<open>Out_Of_Bounds\<close>; nothing checks it.
\<close>

section \<open>Configuration and static state\<close>

datatype StdRet_t = OK | NOT_OK

record SafeComConfig =
  instname :: "u8 list"
  config_role :: SmRole
  max_connections :: u32
  config_sms :: "nat option"

record SafeComType =
  type_vtable :: SafeComVtable
  type_config :: SafeComConfig

text \<open>
  \<open>wmem\<close> holds the memory of the lower layers with the vtables of the two instances;
  \<open>sm_arrays\<close> the caller's arrays of connections, \<open>sms\<close> the one in use. \<open>module_config\<close> is
  \<open>RassConfig\<close> and \<open>SicConfig\<close>.
\<close>

record lib =
  wmem :: world
  sm_arrays :: "nat \<Rightarrow> SmType list"
  sms :: "nat option"
  instance_config :: "inst \<Rightarrow> SafeComConfig"
  module_config :: "inst \<Rightarrow> SafeComConfig"
  initialized :: "inst \<Rightarrow> bool"

type_synonym call = "lib \<Rightarrow> (StdRet_t \<times> lib) outcome"

section \<open>Initialisation\<close>

text \<open>The loop over the connections, with \<open>n\<close> turns to go; \<open>i < max_connections\<close> compares unsigned.\<close>

primrec init_loop :: "nat \<Rightarrow> nat \<Rightarrow> SmRole \<Rightarrow> SmType list \<Rightarrow> SmType list outcome" where
  "init_loop 0 i role xs = Inr xs"
| "init_loop (Suc n) i role xs =
     bindE (array_get xs i) (\<lambda>sm.
     let sm = sm\<lparr>channel := word_of_nat i, sm_state := STATE_CLOSED, sm_role := role\<rparr> in
     bindE (array_set xs i (Sm_Init sm)) (\<lambda>xs.
     init_loop n (Suc i) role xs))"

definition SafeCom_Init_Impl :: "inst \<Rightarrow> SafeComType \<Rightarrow> call" where
  "SafeCom_Init_Impl me pConfig lib =
     (let cfg = type_config pConfig; lib = lib\<lparr>sms := config_sms cfg\<rparr> in
      case sms lib of None \<Rightarrow> Inl Null_Deref
      | Some a \<Rightarrow>
          bindE (array_get (sm_arrays lib a) 0) (\<lambda>sm.
          let sm = sm\<lparr>vtable := Some me\<rparr>;
              sm = sm\<lparr>sm_time := (sm_time sm)\<lparr>Tlocal := Some GetCurrentTimestamp_fn\<rparr>\<rparr> in
          bindE (array_set (sm_arrays lib a) 0 sm) (\<lambda>xs.
          bindE (init_loop (unat (max_connections cfg)) 0 (config_role cfg) xs) (\<lambda>xs.
          Inr (OK, lib\<lparr>sm_arrays := (sm_arrays lib)(a := xs)\<rparr>)))))"

definition SafeCom_Init :: "inst \<Rightarrow> SafeComType \<Rightarrow> call" where
  "SafeCom_Init me pConfig lib =
     SafeCom_Init_Impl me pConfig (lib
       \<lparr>wmem := (wmem lib)\<lparr>vtables := (vtables (wmem lib))(me := type_vtable pConfig)\<rparr>,
        instance_config := (instance_config lib)(me := type_config pConfig)\<rparr>)"

section \<open>Operations on a connection\<close>

text \<open>
  \<open>sms[msgId]\<close> and storing it back. \<open>Sm_HandleEvent\<close> gets the address, which is a null pointer
  when \<open>sms\<close> is one and \<open>msgId\<close> is 0.
\<close>

definition connection :: "u32 \<Rightarrow> lib \<Rightarrow> SmType outcome" where
  "connection msgId lib = (case sms lib of None \<Rightarrow> Inl Null_Deref
     | Some a \<Rightarrow> array_get (sm_arrays lib a) (unat msgId))"

definition store_connection :: "u32 \<Rightarrow> SmType \<Rightarrow> world \<Rightarrow> lib \<Rightarrow> lib" where
  "store_connection msgId sm w lib = (case sms lib of None \<Rightarrow> lib
     | Some a \<Rightarrow> lib\<lparr>wmem := w, sm_arrays := (sm_arrays lib)(a := (sm_arrays lib a)[unat msgId := sm])\<rparr>)"

definition handle_event_at :: "u32 \<Rightarrow> Event \<Rightarrow> PDU_S \<Rightarrow> lib \<Rightarrow> lib outcome" where
  "handle_event_at msgId event pdu lib =
     assertE (\<not> (sms lib = None \<and> msgId = 0)) (
     bindE (connection msgId lib) (\<lambda>sm.
     bindE (Sm_HandleEvent event \<lparr>self = sm, pdu_of = pdu, mem = wmem lib\<rparr>) (\<lambda>c.
     Inr (store_connection msgId (self c) (mem c) lib))))"

definition SafeCom_Main_Impl :: "inst \<Rightarrow> call" where
  "SafeCom_Main_Impl me lib = Inr (OK, lib)"

text \<open>The application's receive callbacks are a parameter.\<close>

type_synonym receivers = "recv_fn \<Rightarrow> u32 \<Rightarrow> u32 \<Rightarrow> ptr \<Rightarrow> call"

definition SafeCom_ReceiveSpdu_Impl :: "receivers \<Rightarrow> inst \<Rightarrow> u32 \<Rightarrow> u32 \<Rightarrow> ptr \<Rightarrow> call" where
  "SafeCom_ReceiveSpdu_Impl app me nodeId spduLen pSpduData lib =
     assertE (pSpduData \<noteq> NULL) (
     case ReceiveMsg (vtables (wmem lib) me) of None \<Rightarrow> Inl Null_Call
     | Some f \<Rightarrow> bindE (app f nodeId spduLen pSpduData lib) (\<lambda>(_, lib). Inr (OK, lib)))"

text \<open>\<open>msgLen\<close> is an \<open>uint32_t\<close> here and becomes the \<open>uint8_t\<close> parameter of \<open>Data\<close>.\<close>

definition SafeCom_SendData_Impl :: "inst \<Rightarrow> u32 \<Rightarrow> u32 \<Rightarrow> ptr \<Rightarrow> call" where
  "SafeCom_SendData_Impl me msgId msgLen pMsgData lib =
     assertE (pMsgData \<noteq> NULL) (
     bindE (connection msgId lib) (\<lambda>sm.
     bindE (Data (ucast msgLen) pMsgData \<lparr>self = sm, pdu_of = zero_pdu, mem = wmem lib\<rparr>) (\<lambda>c.
     bindE (handle_event_at msgId EVENT_SEND_DATA (pdu_of c) (store_connection msgId (self c) (mem c) lib)) (\<lambda>lib.
     Inr (OK, lib)))))"

definition SafeCom_OpenConnection_Impl :: "inst \<Rightarrow> u32 \<Rightarrow> call" where
  "SafeCom_OpenConnection_Impl me msgId lib =
     bindE (handle_event_at msgId EVENT_OPEN_CONN zero_pdu lib) (\<lambda>lib. Inr (OK, lib))"

definition SafeCom_CloseConnection_Impl :: "inst \<Rightarrow> u32 \<Rightarrow> call" where
  "SafeCom_CloseConnection_Impl me msgId lib =
     bindE (handle_event_at msgId EVENT_CLOSE_CONN zero_pdu lib) (\<lambda>lib. Inr (OK, lib))"

definition SafeCom_ConnectionStateRequest_Impl :: "inst \<Rightarrow> u32 \<Rightarrow> call" where
  "SafeCom_ConnectionStateRequest_Impl me msgId lib = Inr (OK, lib)"

text \<open>
  The functions of \<open>safecom.c\<close>. Their \<open>self\<close> is the address of a module's instance, never null.
\<close>

definition SafeCom_Main :: "inst \<Rightarrow> call" where
  "SafeCom_Main me = SafeCom_Main_Impl me"

definition SafeCom_ReceiveSpdu :: "receivers \<Rightarrow> inst \<Rightarrow> u32 \<Rightarrow> u32 \<Rightarrow> ptr \<Rightarrow> call" where
  "SafeCom_ReceiveSpdu app me nodeId spduLen pSpduData lib =
     assertE (pSpduData \<noteq> NULL) (SafeCom_ReceiveSpdu_Impl app me nodeId spduLen pSpduData lib)"

definition SafeCom_SendData :: "inst \<Rightarrow> u32 \<Rightarrow> u32 \<Rightarrow> ptr \<Rightarrow> call" where
  "SafeCom_SendData me msgId msgLen pMsgData lib =
     assertE (pMsgData \<noteq> NULL) (SafeCom_SendData_Impl me msgId msgLen pMsgData lib)"

definition SafeCom_OpenConnection :: "inst \<Rightarrow> u32 \<Rightarrow> call" where
  "SafeCom_OpenConnection me msgId = SafeCom_OpenConnection_Impl me msgId"

definition SafeCom_CloseConnection :: "inst \<Rightarrow> u32 \<Rightarrow> call" where
  "SafeCom_CloseConnection me msgId = SafeCom_CloseConnection_Impl me msgId"

definition SafeCom_ConnectionStateRequest :: "inst \<Rightarrow> u32 \<Rightarrow> call" where
  "SafeCom_ConnectionStateRequest me msgId = SafeCom_ConnectionStateRequest_Impl me msgId"

lemmas SafeCom_defs = SafeCom_SendData_def SafeCom_SendData_Impl_def SafeCom_OpenConnection_def
  SafeCom_OpenConnection_Impl_def SafeCom_CloseConnection_def SafeCom_CloseConnection_Impl_def
  SafeCom_ReceiveSpdu_def SafeCom_ReceiveSpdu_Impl_def

section \<open>The module Rass\<close>

text \<open>A null \<open>pConfig\<close> is \<open>None\<close>.\<close>

definition RassConfig_default :: SafeComConfig where
  "RassConfig_default = \<lparr>instname = [0x4A, 0x6F, 0x68, 0x6E, 0x44, 0x6F, 0x65, 0, 0, 0],
     config_role = ROLE_CLIENT, max_connections = 0, config_sms = None\<rparr>"

definition RassVTable :: SafeComVtable where
  "RassVTable = \<lparr>SendSpdu = Some IscDispApp_SendSpdu_fn, ReceiveMsg = Some Fec_ReceiveBtp_fn\<rparr>"

definition Rass_Init_VTable :: "SafeComType option \<Rightarrow> call" where
  "Rass_Init_VTable pConfig lib = (case pConfig of None \<Rightarrow> Inl Assert_Failed
     | Some cfg \<Rightarrow>
         assertE (ReceiveMsg (type_vtable cfg) \<noteq> None) (
         assertE (SendSpdu (type_vtable cfg) \<noteq> None) (
         if initialized lib RassInstance then Inr (NOT_OK, lib)
         else SafeCom_Init RassInstance cfg
           (lib\<lparr>initialized := (initialized lib)(RassInstance := True)\<rparr>))))"

definition Rass_Init :: "SafeComConfig option \<Rightarrow> call" where
  "Rass_Init pConfig lib =
     (let lib = (case pConfig of None \<Rightarrow> lib
            | Some cfg \<Rightarrow> lib\<lparr>module_config := (module_config lib)(RassInstance := cfg)\<rparr>);
          config = \<lparr>type_vtable = \<lparr>SendSpdu = SendSpdu RassVTable, ReceiveMsg = ReceiveMsg RassVTable\<rparr>,
            type_config = module_config lib RassInstance\<rparr>
      in if initialized lib RassInstance then Inr (NOT_OK, lib)
         else SafeCom_Init RassInstance config
           (lib\<lparr>initialized := (initialized lib)(RassInstance := True)\<rparr>))"

definition Rass_Main :: call where
  "Rass_Main = SafeCom_Main RassInstance"

definition Rass_ReceiveSpdu :: "receivers \<Rightarrow> u32 \<Rightarrow> u32 \<Rightarrow> ptr \<Rightarrow> call" where
  "Rass_ReceiveSpdu app nodeId spduLen p lib =
     assertE (p \<noteq> NULL) (SafeCom_ReceiveSpdu app RassInstance nodeId spduLen p lib)"

definition Rass_SendData :: "u32 \<Rightarrow> u32 \<Rightarrow> ptr \<Rightarrow> call" where
  "Rass_SendData msgId msgLen p lib = assertE (p \<noteq> NULL) (SafeCom_SendData RassInstance msgId msgLen p lib)"

definition Rass_OpenConnection :: "u32 \<Rightarrow> call" where
  "Rass_OpenConnection = SafeCom_OpenConnection RassInstance"

definition Rass_CloseConnection :: "u32 \<Rightarrow> call" where
  "Rass_CloseConnection = SafeCom_CloseConnection RassInstance"

definition Rass_ConnectionStateRequest :: "u32 \<Rightarrow> call" where
  "Rass_ConnectionStateRequest = SafeCom_ConnectionStateRequest RassInstance"

section \<open>The module Sic\<close>

definition SicConfig_default :: SafeComConfig where
  "SicConfig_default = \<lparr>instname = [0x4A, 0x6F, 0x68, 0x6E, 0x44, 0x6F, 0x65, 0, 0, 0],
     config_role = ROLE_SERVER, max_connections = 0, config_sms = None\<rparr>"

definition SicVTable :: SafeComVtable where
  "SicVTable = \<lparr>SendSpdu = Some OsCom_SendSpdu_fn, ReceiveMsg = Some OsCom_ReceiveMsg_fn\<rparr>"

definition Sic_Init_VTable :: "SafeComType option \<Rightarrow> call" where
  "Sic_Init_VTable pConfig lib = (case pConfig of None \<Rightarrow> Inl Assert_Failed
     | Some cfg \<Rightarrow>
         assertE (ReceiveMsg (type_vtable cfg) \<noteq> None) (
         assertE (SendSpdu (type_vtable cfg) \<noteq> None) (
         if initialized lib SicInstance then Inr (NOT_OK, lib)
         else SafeCom_Init SicInstance cfg
           (lib\<lparr>initialized := (initialized lib)(SicInstance := True)\<rparr>))))"

definition Sic_Init :: "SafeComConfig option \<Rightarrow> call" where
  "Sic_Init pConfig lib =
     (let lib = (case pConfig of None \<Rightarrow> lib
            | Some cfg \<Rightarrow> lib\<lparr>module_config := (module_config lib)(SicInstance := cfg)\<rparr>);
          config = \<lparr>type_vtable = \<lparr>SendSpdu = SendSpdu SicVTable, ReceiveMsg = ReceiveMsg SicVTable\<rparr>,
            type_config = module_config lib SicInstance\<rparr>
      in if initialized lib SicInstance then Inr (NOT_OK, lib)
         else SafeCom_Init SicInstance config
           (lib\<lparr>initialized := (initialized lib)(SicInstance := True)\<rparr>))"

definition Sic_Main :: call where
  "Sic_Main = SafeCom_Main SicInstance"

definition Sic_ReceiveSpdu :: "receivers \<Rightarrow> u32 \<Rightarrow> u32 \<Rightarrow> ptr \<Rightarrow> call" where
  "Sic_ReceiveSpdu app nodeId spduLen p lib =
     assertE (p \<noteq> NULL) (SafeCom_ReceiveSpdu app SicInstance nodeId spduLen p lib)"

definition Sic_SendData :: "u32 \<Rightarrow> u32 \<Rightarrow> ptr \<Rightarrow> call" where
  "Sic_SendData msgId msgLen p lib = assertE (p \<noteq> NULL) (SafeCom_SendData SicInstance msgId msgLen p lib)"

definition Sic_OpenConnection :: "u32 \<Rightarrow> call" where
  "Sic_OpenConnection = SafeCom_OpenConnection SicInstance"

definition Sic_CloseConnection :: "u32 \<Rightarrow> call" where
  "Sic_CloseConnection = SafeCom_CloseConnection SicInstance"

definition Sic_ConnectionStateRequest :: "u32 \<Rightarrow> call" where
  "Sic_ConnectionStateRequest = SafeCom_ConnectionStateRequest SicInstance"

section \<open>The callbacks of mock/ and of the tests\<close>

text \<open>They check their pointer and print; only the assertion is observable here.\<close>

definition Fec_ReceiveBtp :: "u32 \<Rightarrow> u32 \<Rightarrow> ptr \<Rightarrow> call" where
  "Fec_ReceiveBtp msgId msgLen p lib = assertE (p \<noteq> NULL) (Inr (OK, lib))"

definition OsCom_ReceiveMsg :: "u32 \<Rightarrow> u32 \<Rightarrow> ptr \<Rightarrow> call" where
  "OsCom_ReceiveMsg msgId msgLen p lib = assertE (p \<noteq> NULL) (Inr (OK, lib))"

definition OsCom_SendSpdu :: "u32 \<Rightarrow> u32 \<Rightarrow> ptr \<Rightarrow> call" where
  "OsCom_SendSpdu nodeId spduLen p lib = assertE (p \<noteq> NULL) (Inr (OK, lib))"

definition IscDispApp_SendSpdu :: "u32 \<Rightarrow> u32 \<Rightarrow> ptr \<Rightarrow> call" where
  "IscDispApp_SendSpdu nodeId spduLen p lib = assertE (p \<noteq> NULL) (Inr (OK, lib))"

text \<open>The receive callback that a vtable names; the application's own ones are a parameter.\<close>

fun receiver :: "(nat \<Rightarrow> u32 \<Rightarrow> u32 \<Rightarrow> ptr \<Rightarrow> call) \<Rightarrow> receivers" where
  "receiver app Fec_ReceiveBtp_fn = Fec_ReceiveBtp"
| "receiver app OsCom_ReceiveMsg_fn = OsCom_ReceiveMsg"
| "receiver app (App_ReceiveMsg n) = app n"

text \<open>
  The only code that turns a received SPDU into an event: the \<open>My_ReceiveSpdu\<close> of the server test
  and that of the client test. Other message types are dropped.
\<close>

definition server_ReceiveSpdu :: "u32 \<Rightarrow> u32 \<Rightarrow> ptr \<Rightarrow> call" where
  "server_ReceiveSpdu msgId msgLen p lib =
     bindE (deserialize_pdu p (unat msgLen) zero_pdu (wmem lib)) (\<lambda>(pdu, w).
     let lib = lib\<lparr>wmem := w\<rparr> in
     bindE (if message_type pdu = message_code CONNECTION_REQUEST
         then handle_event_at msgId EVENT_RECV_CONN_REQ pdu lib
         else if message_type pdu = message_code HEARTBEAT
         then handle_event_at msgId EVENT_RECV_HB pdu lib
         else Inr lib) (\<lambda>lib. Inr (OK, lib)))"

definition client_ReceiveSpdu :: "u32 \<Rightarrow> u32 \<Rightarrow> ptr \<Rightarrow> call" where
  "client_ReceiveSpdu msgId msgLen p lib =
     bindE (deserialize_pdu p (unat msgLen) zero_pdu (wmem lib)) (\<lambda>(pdu, w).
     let lib = lib\<lparr>wmem := w\<rparr> in
     bindE (if message_type pdu = message_code CONNECTION_RESPONSE
         then handle_event_at msgId EVENT_RECV_CONN_RESP pdu lib
         else Inr lib) (\<lambda>lib. Inr (OK, lib)))"

text \<open>The process when it starts.\<close>

definition initial_lib :: "world \<Rightarrow> (nat \<Rightarrow> SmType list) \<Rightarrow> lib" where
  "initial_lib w xss = \<lparr>wmem = w, sm_arrays = xss, sms = None,
     instance_config = (\<lambda>_. \<lparr>instname = replicate 10 0, config_role = ROLE_CLIENT, max_connections = 0, config_sms = None\<rparr>),
     module_config = (\<lambda>i. case i of RassInstance \<Rightarrow> RassConfig_default | SicInstance \<Rightarrow> SicConfig_default),
     initialized = (\<lambda>_. False)\<rparr>"

end
