(* ===== verification/Sm_Theorems.thy ===== *)
theory Sm_Theorems
  imports Sm_Spec
begin

text \<open>
  The properties of the state machine: the refinement of the protocol table, the invariants of a
  connection over any history of events, what a connection can and cannot do, and the inputs on
  which the code faults.
\<close>

section \<open>One event in closed form\<close>

lemma event_step:
  assumes "operational f c" and "consistent (self c)" and "admissible event c"
  obtains c' where "Sm_HandleEvent event c = Inr c'" and "follows (planned c event) f c c'"
  using dispatch_any_state [OF assms] by blast

lemma event_result:
  assumes "operational f c" and "consistent (self c)" and "admissible event c"
    and "Sm_HandleEvent event c = Inr c'"
  shows "follows (planned c event) f c c'"
  using event_step [OF assms(1-3)] assms(4) by auto

lemma dispatched_fields [simp]:
  "sm_state (dispatched sm) = sm_state sm" "sm_role (dispatched sm) = sm_role sm"
  "channel (dispatched sm) = channel sm" "snr (dispatched sm) = snr sm" "snt (dispatched sm) = snt sm"
  "cst (dispatched sm) = cst sm" "csr (dispatched sm) = csr sm" "tsr (dispatched sm) = tsr sm"
  "ctsr (dispatched sm) = ctsr sm" "vtable (dispatched sm) = vtable sm" "sm_time (dispatched sm) = sm_time sm"
  by (simp_all add: dispatched_def)

lemmas after_simps = supervised_def received_def closed_by_def counted_def

text \<open>The state that an action leads to.\<close>

fun target :: "action \<Rightarrow> State \<Rightarrow> State" where
  "target Listen s = STATE_DOWN"
| "target Connect s = STATE_START"
| "target Accept_request s = STATE_START"
| "target Accept_response s = STATE_UP"
| "target (Accept s') s = s'"
| "target Close s = STATE_CLOSED"
| "target (Refuse r) s = STATE_CLOSED"
| "target Ask_again s = STATE_RETR_REQ"
| "target (Enter s') s = s'"
| "target _ s = s"

lemma after_state: "sm_state (after a pdu t0 t1 r sm) = target a (sm_state sm)"
  by (cases a) (simp_all add: after_simps)

lemma after_kept:
  "channel (after a pdu t0 t1 r sm) = channel sm" "sm_role (after a pdu t0 t1 r sm) = sm_role sm"
  "vtable (after a pdu t0 t1 r sm) = vtable sm"
  "timeouts (sm_time (after a pdu t0 t1 r sm)) = timeouts (sm_time sm)"
  "Tlocal (sm_time (after a pdu t0 t1 r sm)) = Tlocal (sm_time sm)"
  by (cases a; simp add: after_simps)+

lemma follows_state: "follows a f c c' \<Longrightarrow> sm_state (self c') = target a (sm_state (self c))"
  by (simp add: followsD(4) after_state)

section \<open>The telegrams as the peer reads them\<close>

lemma message_code_16: "ucast (ucast (message_code t) :: u16) = message_code t"
  by (cases t) simp_all

lemma length_covered [simp]: "length (covered t content sm now) = 28 + length content"
  by (simp add: covered_def)

text \<open>The peer's array \<open>n\<close> holds a telegram of the table, with any eight bytes as its code.\<close>

lemma telegram_received:
  assumes fits: "length content \<le> 22" and code: "length code = 8"
    and got: "take (36 + length content) (ext r n) = covered t content sm now @ code"
  obtains pdu where "deserialize_pdu (Ptr (Ext n) 0) (36 + length content) zero_pdu r = Inr (pdu, r)"
    and "message_type pdu = message_code t" and "sequence_number pdu = snt sm"
    and "confirmed_sequence_number pdu = (if t = CONNECTION_REQUEST then 0 else cst sm)"
    and "timestamp pdu = now" and "confirmed_timestamp pdu = (if t = CONNECTION_REQUEST then 0 else ctsr sm)"
    and "seen_bytes r (payload pdu) (length content) = content" and "code_live r pdu"
    and "4 \<le> length content \<Longrightarrow> payload_live r pdu"
    and "4 \<le> length content \<Longrightarrow> seen_bytes r (payload pdu) 4 = take 4 content"
proof -
  define h where "h = outgoing t NULL (length content) sm now"
  let ?ml = "36 + length content" and ?p = "Ptr (Ext n) 0"
  let ?pdu = "(decoded h zero_pdu)\<lparr>payload := ptr_add ?p 28, safety_code := ptr_add ?p (28 + payload_length h)\<rparr>"
  have ml: "unat (message_length h) = ?ml" using fits by (simp add: h_def outgoing_sizes)
  then have pl: "payload_length h = length content" by (simp add: payload_length_sized)
  have tel: "take ?ml (ext r n) = header h @ content @ code" using got by (simp add: covered_def h_def)
  have "?ml = 28 + (length content + length code)" "length content = payload_length h" by (simp_all add: code pl)
  note r = received_telegram [OF tel this]
  have des: "deserialize_pdu ?p ?ml zero_pdu r = Inr (?pdu, r)"
    using deserialize_pdu_at [OF r(1), of ?ml zero_pdu] ml by simp
  have "payload_live r ?pdu" if "4 \<le> length content"
    using r(4) that by (simp add: payload_live_def ptr_add_def array_of_def)
  moreover have "seen_bytes r (payload ?pdu) 4 = take 4 content" if "4 \<le> length content"
    using arg_cong [OF r(2), of "take 4"] that by (simp add: seen_bytes_def ptr_add_def array_of_def min_def)
  moreover have "code_live r ?pdu"
    using r(4) pl by (simp add: code_live_def code_bytes_def readable_def ptr_add_def array_of_def)
  moreover have "message_type ?pdu = message_code t"
    by (simp add: deserialized_fields h_def outgoing_def message_code_16)
  ultimately show thesis
    using r(2) by (intro that [OF des]) (simp_all add: deserialized_fields, simp_all add: h_def outgoing_def)
qed

section \<open>Faults\<close>

lemma ConnResp_unreadable:
  assumes "Tlocal (sm_time (self c)) \<noteq> None" and "wf_world (mem c)" and "\<not> code_live (mem c) (pdu_of c)"
  shows "ConnResp c = Inl Out_Of_Bounds"
proof -
  let ?w = "(mem c)\<lparr>clock_calls := Suc (clock_calls (mem c)), conn_resp_buffer := handshake_payload\<rparr>"
  let ?pdu = "(outgoing CONNECTION_RESPONSE (Ptr ConnResp_buffer 0) 14 (self c) (reading (mem c) (clock_calls (mem c))))
    \<lparr>safety_code := safety_code (pdu_of c)\<rparr>"
  have "code_live ?w (pdu_of c) = code_live (mem c) (pdu_of c)"
    using assms(2) by (auto simp: code_live_def readable_def array_of_def wf_world_def split: ptr.splits blk.splits)
  then have unser: "\<not> serialisable ?w ?pdu"
    using assms(3) by (simp add: serialisable_def code_live_def code_bytes_def)
  have sized: "well_sized ?pdu" by (simp add: well_sized_def outgoing_def)
  have "ConnResp c = with_code (c\<lparr>mem := ?w, pdu_of := ?pdu\<rparr>)"
    using assms(1,2) by (simp add: ConnResp_def constructor_simps wf_world_def outgoing_def)
  then show ?thesis using unser by (simp add: with_code_def calculate_MD4_spec [OF sized])
qed

lemma ConnReq_unreadable:
  assumes "Tlocal (sm_time (self c)) \<noteq> None" and "wf_world (mem c)" and "\<not> code_live (mem c) (pdu_of c)"
  shows "ConnReq c = Inl Out_Of_Bounds"
proof -
  let ?w = "(mem c)\<lparr>clock_calls := Suc (clock_calls (mem c)), conn_req_buffer := handshake_payload\<rparr>"
  let ?pdu = "(outgoing CONNECTION_REQUEST (Ptr ConnReq_buffer 0) 14 (self c) (reading (mem c) (clock_calls (mem c))))
    \<lparr>safety_code := safety_code (pdu_of c)\<rparr>"
  have "code_live ?w (pdu_of c) = code_live (mem c) (pdu_of c)"
    using assms(2) by (auto simp: code_live_def readable_def array_of_def wf_world_def split: ptr.splits blk.splits)
  then have unser: "\<not> serialisable ?w ?pdu"
    using assms(3) by (simp add: serialisable_def code_live_def code_bytes_def)
  have sized: "well_sized ?pdu" by (simp add: well_sized_def outgoing_def)
  have "ConnReq c = with_code (c\<lparr>mem := ?w, pdu_of := ?pdu\<rparr>)"
    using assms(1,2) by (simp add: ConnReq_def constructor_simps wf_world_def outgoing_def)
  then show ?thesis using unser by (simp add: with_code_def calculate_MD4_spec [OF sized])
qed

lemma HB_unreadable:
  assumes "Tlocal (sm_time (self c)) \<noteq> None" and "wf_world (mem c)" and "\<not> code_live (mem c) (pdu_of c)"
  shows "HB c = Inl Out_Of_Bounds"
proof -
  let ?w = "(mem c)\<lparr>clock_calls := Suc (clock_calls (mem c))\<rparr>" and ?sm = "counted True (self c)"
  let ?pdu = "(outgoing HEARTBEAT NULL 0 ?sm (reading (mem c) (clock_calls (mem c))))\<lparr>safety_code := safety_code (pdu_of c)\<rparr>"
  have "\<not> code_live ?w (pdu_of c)" using assms(3) by simp
  then have unser: "\<not> serialisable ?w ?pdu" by (simp add: serialisable_def code_live_def code_bytes_def)
  have sized: "well_sized ?pdu" by (simp add: well_sized_def outgoing_def)
  have "HB c = with_code (c\<lparr>self := ?sm, mem := ?w, pdu_of := ?pdu\<rparr>)"
    using assms(1) by (simp add: HB_def constructor_simps outgoing_def)
  then show ?thesis using unser by (simp add: with_code_def calculate_MD4_spec [OF sized] del: counted_simps)
qed

lemma zero_pdu_null [simp]: "safety_code zero_pdu = NULL" "payload zero_pdu = NULL" "sequence_number zero_pdu = 0"
  by (simp_all add: zero_pdu_def)

lemma zero_pdu_live [simp]: "code_live w zero_pdu"
  by (simp add: code_live_def code_bytes_def)

section \<open>Data on the way to the state machine\<close>

text \<open>The data telegram that \<open>Data\<close> leaves for the state machine, for an array of the application.\<close>

lemma Data_frame:
  assumes op: "operational f c" and pdu: "pdu_of c = zero_pdu" and n: "unat n \<le> 22"
    and arr: "off + unat n \<le> length (ext (mem c) k)"
  obtains c1 j where "Data n (Ptr (Ext k) off) c = Inr c1" and "operational f c1"
    and "sendable (mem c1) (pdu_of c1)" and "self c1 = counted True (self c)"
    and "sent (mem c1) = sent (mem c)" and "unat (message_length (pdu_of c1)) = 36 + unat n"
    and "telegram (mem c1) (pdu_of c1) =
      covered DATA (take (unat n) (drop off (ext (mem c) k))) (self c1) (reading (mem c) (clock_calls (mem c))) @
      code_seen (mem c) j (covered DATA (take (unat n) (drop off (ext (mem c) k))) (self c1)
        (reading (mem c) (clock_calls (mem c))))"
    and "same_environment (mem c) (mem c1)" and "seed (mem c1) = seed (mem c)"
proof -
  let ?p = "Ptr (Ext k) off" and ?sm = "counted True (self c)" and ?now = "reading (mem c) (clock_calls (mem c))"
  let ?bytes = "take (unat n) (drop off (ext (mem c) k))"
  let ?w = "(mem c)\<lparr>clock_calls := Suc (clock_calls (mem c))\<rparr>"
  define pd where "pd = outgoing DATA ?p (unat n) ?sm ?now"
  define w1 where "w1 = ?w\<lparr>dead_frame := rfc_md4 (covered DATA ?bytes ?sm ?now)\<rparr>"
  let ?c = "c\<lparr>self := ?sm, pdu_of := pd, mem := w1\<rparr>"
  have clock: "Tlocal (sm_time (self c)) \<noteq> None" and wf: "wf_world (mem c)"
    using op by (simp_all add: operational_def ready_def)
  have len: "length ?bytes = unat n" using arr by simp
  have seen: "seen_bytes w' ?p (unat n) = ?bytes" "readable w' ?p (unat n)" if "ext w' = ext (mem c)" for w'
    using that arr by (simp_all add: seen_bytes_def readable_def array_of_def)
  have head: "header pd @ ?bytes = covered DATA ?bytes ?sm ?now"
    by (simp only: covered_def pd_def len) (simp add: covered_outgoing [of DATA ?p])
  have "code_live ?w (pdu_of c)" "code_bytes (pdu_of c) = 0" "safety_code (pdu_of c) = NULL"
    by (simp_all add: pdu code_bytes_def)
  then have data: "Data n ?p c = Inr ?c"
    using n seen [of ?w] head
    by (subst Data_spec [OF clock]) (simp_all add: Let_def note_reads_def w1_def del: counted_simps flip: pd_def)
  have ml: "unat (message_length pd) = 36 + unat n"
    using n by (simp add: pd_def outgoing_sizes)
  have fields: "payload pd = ?p" "safety_code pd = Ptr Dead_frame 0" by (simp_all add: pd_def)
  have sized: "well_sized pd" by (simp add: well_sized_def ml fields)
  have bytes: "payload_bytes pd = unat n" "code_bytes pd = 8"
    using payload_bytes_sized [OF sized] by (simp_all add: ml code_bytes_def fields)
  have w1: "ext w1 = ext (mem c)" "dead_frame w1 = rfc_md4 (covered DATA ?bytes ?sm ?now)" by (simp_all add: w1_def)
  have ser: "serialisable w1 pd"
    using seen(2) [OF w1(1)] w1(2) by (simp add: serialisable_def bytes fields) (simp add: readable_def array_of_def)
  have codes: "code_seen w1 j m = code_seen (mem c) j m" for j m by (simp add: code_seen_def w1_def)
  have unread: "note_reads ?p (unat n) w1 = w1" by (simp add: note_reads_def)
  have tel: "telegram w1 pd = covered DATA ?bytes ?sm ?now @
      code_seen (mem c) (dead_reads w1) (covered DATA ?bytes ?sm ?now)"
    by (simp only: telegram_def bytes fields unread seen(1) [OF w1(1)] seen_dead [OF w1(2)] codes
        append_assoc [symmetric] head)
  have "sendable w1 pd"
    using ser length_telegram [OF ser] n by (simp add: sendable_def ml bytes)
  moreover have "operational f ?c"
    by (rule operational_cong [OF op])
       (use wf fields in \<open>simp_all add: same_environment_def w1_def wf_world_def\<close>)
  moreover have "same_environment (mem c) w1" by (simp add: same_environment_def w1_def)
  ultimately show thesis
    using that [OF data, of "dead_reads w1"] tel ml by (simp add: w1_def)
qed

section \<open>A connection to evaluate\<close>

definition sample_sm :: "SmRole \<Rightarrow> State \<Rightarrow> SmType" where
  "sample_sm role s = (Sm_Init zero_sm)\<lparr>sm_role := role, sm_state := s, vtable := Some RassInstance,
     handle_event := Some (handler_of s),
     sm_time := zero_time\<lparr>timeouts := \<lparr>Th = 10, Tmax = 30, Tseq = 0\<rparr>, Tlocal := Some GetCurrentTimestamp_fn, Ti := 30\<rparr>\<rparr>"

definition sample_memory :: world where
  "sample_memory = sample_world\<lparr>vtables := \<lambda>_. \<lparr>SendSpdu = Some (App_SendSpdu 0), ReceiveMsg = None\<rparr>\<rparr>"

definition sample_frame :: "SmRole \<Rightarrow> State \<Rightarrow> PDU_S \<Rightarrow> frame" where
  "sample_frame role s pdu = \<lparr>self = sample_sm role s, pdu_of = pdu, mem = sample_memory\<rparr>"

lemma sample_operational:
  assumes "safety_code pdu = NULL"
  shows "operational (App_SendSpdu 0) (sample_frame role s pdu)"
  using wf_initial_world assms
  by (simp add: operational_def ready_def attached_def sample_frame_def sample_sm_def sample_memory_def
      sample_world_def code_live_def code_bytes_def wf_world_def initial_world_def)

lemma sample_fields [simp]:
  "sm_role (self (sample_frame role s pdu)) = role" "sm_state (self (sample_frame role s pdu)) = s"
  "consistent (self (sample_frame role s pdu))" "pdu_of (sample_frame role s pdu) = pdu"
  "mem (sample_frame role s pdu) = sample_memory"
  by (simp_all add: sample_frame_def sample_sm_def consistent_def)

section \<open>Properties\<close>

text \<open>
  C1. \<open>Sm_HandleEvent\<close> implements the protocol table. When the clock and the callbacks are
  installed, the handler pointer matches the state and the event's PDU can be read, it returns,
  the connection is what the table's action makes of it, with the handler of the new state, the
  clock is read as often as the table says, and exactly the telegram of the table is sent, with
  the numbers and time stamps of the new connection state.
\<close>

theorem Sm_HandleEvent_follows_table:
  assumes "operational f c" and "consistent (self c)" and "admissible event c"
  shows "\<exists>c'. let a = plan_event (sm_role (self c)) (judge c) (sm_state (self c)) event;
      w = mem c; w' = mem c'; k = clock_calls w; r = fst (snt_rand_value w)
    in Sm_HandleEvent event c = Inr c' \<and>
       self c' = dispatched (after a (pdu_of c) (reading w k) (reading w (k + 1)) r (self c)) \<and>
       clock_calls w' = k + ticks a \<and> seed w' = (if opens a then r else seed w) \<and>
       (case says a of
          Some (t, content) \<Rightarrow> transmits f t content (self c') (reading w (k + ticks a - 1)) w w'
        | None \<Rightarrow> sent w' = (if a = Forward
            then sent w @ [\<lparr>call_fn = f, call_node = channel (self c),
              call_len = ucast (message_length (pdu_of c)), call_data = telegram w (pdu_of c)\<rparr>]
            else sent w))"
proof -
  obtain c' where c': "Sm_HandleEvent event c = Inr c'" "follows (planned c event) f c c'"
    by (rule event_step [OF assms])
  note facts = followsD [OF c'(2)]
  show ?thesis
    using c'(1) facts(4,5,9) facts(6) facts(7) facts(8)
    by (intro exI [of _ c']) (auto simp: Let_def split: option.split)
qed

theorem Sm_HandleEvent_follows_table_witness:
  "\<exists>c'. Sm_HandleEvent EVENT_CLOSE_CONN (sample_frame ROLE_CLIENT STATE_UP zero_pdu) = Inr c' \<and>
    sm_state (self c') = STATE_CLOSED \<and> length (sent (mem c')) = 1"
proof -
  let ?c = "sample_frame ROLE_CLIENT STATE_UP zero_pdu"
  have "admissible EVENT_CLOSE_CONN ?c" by (simp add: admissible_def)
  from Sm_HandleEvent_follows_table [OF sample_operational [OF zero_pdu_null(1)] sample_fields(3) this]
  show ?thesis
    by (auto simp: Let_def plan_event_def after_simps transmits_def)
       (simp add: sample_memory_def sample_world_def initial_world_def)
qed

text \<open>
  C30. The inactivity timer always closes: in every state, closed and down included, the event
  ends in the closed state with one disconnection request of reason 4 sent.
\<close>

theorem TI_elapsed_closes:
  assumes "operational f c" and "consistent (self c)"
  shows "\<exists>c' now k. Sm_HandleEvent EVENT_TI_ELAPSED c = Inr c' \<and> sm_state (self c') = STATE_CLOSED \<and>
    sent (mem c') = sent (mem c) @ [spdu f DISCONNECTION_REQUEST [0, 0, 0, 4] (self c') now
      (code_seen (mem c) k (covered DISCONNECTION_REQUEST [0, 0, 0, 4] (self c') now))]"
proof -
  have "admissible EVENT_TI_ELAPSED c" by (simp add: admissible_def)
  then obtain c' where c': "Sm_HandleEvent EVENT_TI_ELAPSED c = Inr c'" "follows (planned c EVENT_TI_ELAPSED) f c c'"
    by (rule event_step [OF assms])
  have a: "planned c EVENT_TI_ELAPSED = Refuse TIMEOUT_INCOMING_MSG" by (simp add: plan_event_def)
  have "disc_payload TIMEOUT_INCOMING_MSG 0 = [0, 0, 0, 4]" by (simp add: disc_payload_def be16_def)
  then show ?thesis
    using c' follows_state [OF c'(2)] followsD(7) [OF c'(2)] by (auto simp: a transmits_def)
qed

theorem TI_elapsed_closes_witness:
  "\<exists>c'. Sm_HandleEvent EVENT_TI_ELAPSED (sample_frame ROLE_SERVER STATE_DOWN zero_pdu) = Inr c' \<and>
    length (sent (mem c')) = 1"
  using TI_elapsed_closes [OF sample_operational [OF zero_pdu_null(1)] sample_fields(3), of ROLE_SERVER STATE_DOWN]
  by (auto simp: sample_memory_def sample_world_def initial_world_def)


text \<open>
  A connection over time: from \<open>c0\<close>, the application delivers events with their PDUs.
\<close>

inductive history :: "frame \<Rightarrow> (Event \<times> PDU_S) list \<Rightarrow> frame \<Rightarrow> bool" for c0 where
  history_start: "history c0 [] c0"
| history_event: "history c0 es c \<Longrightarrow> code_live (mem c) pdu \<Longrightarrow> admissible event (c\<lparr>pdu_of := pdu\<rparr>) \<Longrightarrow>
    Sm_HandleEvent event (c\<lparr>pdu_of := pdu\<rparr>) = Inr c' \<Longrightarrow> history c0 (es @ [(event, pdu)]) c'"

inductive_cases history_NilE: "history c0 [] c"
inductive_simps history_Nil: "history c0 [] c"

lemma operational_pdu: "operational f c \<Longrightarrow> code_live (mem c) pdu \<Longrightarrow> operational f (c\<lparr>pdu_of := pdu\<rparr>)"
  by (simp add: operational_def ready_def attached_def)

text \<open>Only data is passed on as it is; every telegram of the table has a payload of at most 22 bytes.\<close>

lemma plans_forward: "plan_event role v s event = Forward \<Longrightarrow> event = EVENT_SEND_DATA"
  by (cases event; cases s; cases role) (auto simp: plan_event_def judged_def split: if_splits)

lemma says_fits: "says a = Some (t, content) \<Longrightarrow> length content \<le> 22"
  by (auto elim!: says.elims simp: handshake_payload_def disc_payload_def be16_def)

text \<open>An event sends at most one SPDU, in the name of its connection.\<close>

lemma event_sent:
  assumes step: "follows a f c c'"
  obtains log where "sent (mem c') = sent (mem c) @ log" and "length log \<le> 1"
    and "\<forall>call \<in> set log. call_node call = channel (self c)"
proof (cases "a = Forward")
  case True
  then show thesis using followsD(8) [OF step] that by auto
next
  case False
  show thesis
  proof (cases "says a")
    case None
    then show thesis using followsD(6) [OF step None False] that [of "[]"] by simp
  next
    case (Some say)
    obtain t content where "says a = Some (t, content)" using Some by (cases say) simp
    moreover have "channel (self c') = channel (self c)"
      using followsD(4) [OF step] by (simp add: after_kept)
    ultimately show thesis using followsD(7) [OF step] that by (auto simp: transmits_def spdu_def)
  qed
qed

lemma history_kept:
  assumes "history c0 es c" and "operational f c0" and "consistent (self c0)"
  shows "operational f c \<and> consistent (self c) \<and> channel (self c) = channel (self c0) \<and>
    sm_role (self c) = sm_role (self c0) \<and> vtable (self c) = vtable (self c0) \<and>
    timeouts (sm_time (self c)) = timeouts (sm_time (self c0)) \<and>
    (\<exists>log. sent (mem c) = sent (mem c0) @ log \<and> length log \<le> length es)"
  using assms
proof (induction rule: history.induct)
  case history_start
  then show ?case by simp
next
  case (history_event es c pdu event c')
  let ?c = "c\<lparr>pdu_of := pdu\<rparr>"
  note IH = history_event.IH [OF history_event.prems]
  have op: "operational f ?c" "consistent (self ?c)"
    using IH operational_pdu history_event.hyps(2) by auto
  have step: "follows (planned ?c event) f ?c c'"
    using event_result [OF op history_event.hyps(3,4)] .
  obtain log where log: "sent (mem c) = sent (mem c0) @ log" "length log \<le> length es" using IH by blast
  obtain more where "sent (mem c') = sent (mem c) @ more" "length more \<le> 1"
    using event_sent [OF step] by (metis frame.select_convs(3) frame.update_convs(2) frame.surjective)
  then have "\<exists>log. sent (mem c') = sent (mem c0) @ log \<and> length log \<le> length (es @ [(event, pdu)])"
    using log by (intro exI [of _ "log @ more"]) simp
  moreover have "self c' = dispatched (after (planned ?c event) pdu (reading (mem c) (clock_calls (mem c)))
      (reading (mem c) (clock_calls (mem c) + 1)) (fst (snt_rand_value (mem c))) (self c))"
    using followsD(4) [OF step] by simp
  ultimately show ?case
    using IH followsD(1,2) [OF step] by (simp add: after_kept)
qed

text \<open>
  C21. The invariant of a connection: over any history of events with readable PDUs, the handler
  pointer is the one of the current state, the clock and the callbacks stay installed, the
  channel, the role and the configured timeouts never change, and each event sends at most one
  SPDU, after those already sent.
\<close>

theorem history_invariant:
  assumes "operational f c0" and "consistent (self c0)" and "history c0 es c"
  shows "handle_event (self c) = Some (handler_of (sm_state (self c))) \<and> operational f c \<and>
    channel (self c) = channel (self c0) \<and> sm_role (self c) = sm_role (self c0) \<and>
    timeouts (sm_time (self c)) = timeouts (sm_time (self c0)) \<and>
    (\<exists>log. sent (mem c) = sent (mem c0) @ log \<and> length log \<le> length es)"
  using history_kept [OF assms(3,1,2)] by (simp add: consistent_def)

text \<open>
  C22. No history gets stuck: whatever happened before, each of the thirteen events, with a PDU
  that can be read, is handled and the connection goes on.
\<close>

theorem history_goes_on:
  assumes "operational f c0" and "consistent (self c0)" and "history c0 es c"
    and "code_live (mem c) pdu" and "admissible event (c\<lparr>pdu_of := pdu\<rparr>)"
  shows "\<exists>c'. history c0 (es @ [(event, pdu)]) c'"
proof -
  have "operational f (c\<lparr>pdu_of := pdu\<rparr>)" "consistent (self (c\<lparr>pdu_of := pdu\<rparr>))"
    using history_kept [OF assms(3,1,2)] operational_pdu assms(4) by auto
  from event_step [OF this assms(5)] obtain c' where "Sm_HandleEvent event (c\<lparr>pdu_of := pdu\<rparr>) = Inr c'" by blast
  from history_event [OF assms(3,4,5) this] show ?thesis by blast
qed

lemma sample_code_live [simp]: "code_live w zero_pdu"
  by (simp add: code_live_def code_bytes_def)

theorem history_invariant_witness:
  "\<exists>c. history (sample_frame ROLE_SERVER STATE_CLOSED zero_pdu) [(EVENT_TH_ELAPSED, zero_pdu)] c \<and>
     handle_event (self c) = Some (handler_of (sm_state (self c)))"
proof -
  let ?c = "sample_frame ROLE_SERVER STATE_CLOSED zero_pdu"
  have adm: "admissible EVENT_TH_ELAPSED (?c\<lparr>pdu_of := zero_pdu\<rparr>)" by (simp add: admissible_def)
  have op: "operational (App_SendSpdu 0) ?c" by (rule sample_operational) simp
  have eq: "?c\<lparr>pdu_of := zero_pdu\<rparr> = ?c" by (simp add: sample_frame_def)
  obtain c where "Sm_HandleEvent EVENT_TH_ELAPSED (?c\<lparr>pdu_of := zero_pdu\<rparr>) = Inr c"
    using event_step [OF op sample_fields(3) adm [unfolded eq]] by (auto simp only: eq)
  from history_event [OF history_start sample_code_live adm this]
  have "history ?c [(EVENT_TH_ELAPSED, zero_pdu)] c" by simp
  with history_invariant [OF op sample_fields(3) this] show ?thesis by blast
qed

theorem history_goes_on_witness:
  "\<exists>c'. history (sample_frame ROLE_CLIENT STATE_START zero_pdu) [(EVENT_CLOSE_CONN, zero_pdu)] c'"
  using history_goes_on [OF sample_operational [OF zero_pdu_null(1), of ROLE_CLIENT STATE_START] sample_fields(3)
      history_start sample_code_live, of EVENT_CLOSE_CONN]
  by (simp add: admissible_def)

text \<open>
  C23. The only ways into the state UP: a client in START that gets a connection response of the
  known version, a server in START that gets a heartbeat with the expected sequence number and
  a fresh confirmed time stamp, or the end of a retransmission by such a heartbeat or data PDU.
\<close>

theorem ways_into_UP:
  assumes "operational f c" and "consistent (self c)" and "admissible event c"
    and "Sm_HandleEvent event c = Inr c'" and "sm_state (self c) \<noteq> STATE_UP" and "sm_state (self c') = STATE_UP"
  shows "(sm_role (self c) = ROLE_CLIENT \<and> sm_state (self c) = STATE_START \<and> event = EVENT_RECV_CONN_RESP \<and>
        seen_bytes (mem c) (payload (pdu_of c)) 4 = [0x30, 0x33, 0x30, 0x31]) \<or>
    (snr (self c) = sequence_number (pdu_of c) \<and> check_seq_confirmed_timestamp (self c) (pdu_of c) \<and>
     (sm_role (self c) = ROLE_SERVER \<and> sm_state (self c) = STATE_START \<and> event = EVENT_RECV_HB \<or>
      sm_state (self c) = STATE_RETR_RUN \<and> event \<in> {EVENT_RECV_HB, EVENT_RECV_DATA}))"
proof -
  have "target (planned c event) (sm_state (self c)) = STATE_UP"
    using follows_state [OF event_result [OF assms(1-4)]] assms(6) by simp
  then show ?thesis
    using assms(5)
    by (cases "sm_state (self c)"; cases event; cases "sm_role (self c)")
       (auto simp: plan_event_def judged_def judge_def split: if_splits)
qed

text \<open>
  Retransmission is never served: a retransmission request closes the connection in every
  state in which one is established or being established, whatever its sequence number.
\<close>

theorem retransmission_request_closes:
  assumes "operational f c" and "consistent (self c)"
    and "sm_state (self c) \<notin> {STATE_CLOSED, STATE_DOWN}"
  shows "\<exists>c' reason. Sm_HandleEvent EVENT_RECV_RETR_REQ c = Inr c' \<and> sm_state (self c') = STATE_CLOSED \<and>
    (\<exists>now. transmits f DISCONNECTION_REQUEST (disc_payload reason 0) (self c') now (mem c) (mem c')) \<and>
    (sm_state (self c) \<in> {STATE_UP, STATE_RETR_REQ} \<longrightarrow> reason = FAIL_RETRANSMISSION)"
proof -
  have "admissible EVENT_RECV_RETR_REQ c" by (simp add: admissible_def)
  then obtain c' where c': "Sm_HandleEvent EVENT_RECV_RETR_REQ c = Inr c'"
      "follows (planned c EVENT_RECV_RETR_REQ) f c c'"
    by (rule event_step [OF assms(1,2)])
  obtain reason where r: "planned c EVENT_RECV_RETR_REQ = Refuse reason"
      "sm_state (self c) \<in> {STATE_UP, STATE_RETR_REQ} \<longrightarrow> reason = FAIL_RETRANSMISSION"
    using assms(3)
    by (cases "sm_state (self c)"; cases "snr (self c) = sequence_number (pdu_of c)") (auto simp: plan_event_def)
  show ?thesis
    using c' r follows_state [OF c'(2)] followsD(7) [OF c'(2)] by auto
qed


theorem ways_into_UP_witness:
  "\<exists>c'. Sm_HandleEvent EVENT_RECV_HB (sample_frame ROLE_SERVER STATE_START zero_pdu) = Inr c' \<and>
    sm_state (self c') = STATE_UP \<and> snr (self (sample_frame ROLE_SERVER STATE_START zero_pdu)) = sequence_number zero_pdu"
proof -
  let ?c = "sample_frame ROLE_SERVER STATE_START zero_pdu"
  have op: "operational (App_SendSpdu 0) ?c" by (rule sample_operational) simp
  have adm: "admissible EVENT_RECV_HB ?c" by (simp add: admissible_def)
  obtain c' where c': "Sm_HandleEvent EVENT_RECV_HB ?c = Inr c'" "follows (planned ?c EVENT_RECV_HB) (App_SendSpdu 0) ?c c'"
    by (rule event_step [OF op sample_fields(3) adm])
  have "snr (self ?c) = 0" "check_seq_confirmed_timestamp (self ?c) zero_pdu"
    by (simp_all add: sample_frame_def sample_sm_def check_seq_confirmed_timestamp_def Sm_Init_def Let_def
        set_initial_values_def zero_pdu_def)
  then have "planned ?c EVENT_RECV_HB = Accept STATE_UP" by (simp add: plan_event_def judged_def)
  then have up: "sm_state (self c') = STATE_UP" using follows_state [OF c'(2)] by simp
  from ways_into_UP [OF op sample_fields(3) adm c'(1) _ up] c'(1) up show ?thesis by auto
qed

theorem retransmission_request_closes_witness:
  "\<exists>c'. Sm_HandleEvent EVENT_RECV_RETR_REQ (sample_frame ROLE_SERVER STATE_UP zero_pdu) = Inr c' \<and>
    sm_state (self c') = STATE_CLOSED"
  using retransmission_request_closes [OF sample_operational [OF zero_pdu_null(1), of ROLE_SERVER STATE_UP] sample_fields(3)]
  by auto

text \<open>
  The window of the confirmed time stamp: the check accepts exactly the time stamps that
  follow the stored one by less than \<open>Tmax\<close>, counted modulo \<open>2 ^ 32\<close>. The same time stamp again is
  always accepted, one older than the stored one is not.
\<close>

theorem confirmed_timestamp_window:
  "check_seq_confirmed_timestamp sm pdu \<longleftrightarrow>
     (uint (confirmed_timestamp pdu) - uint (ctsr sm)) mod 2 ^ 32 < uint (Tmax (timeouts (sm_time sm)))"
  by (simp add: check_seq_confirmed_timestamp_def word_less_def uint_word_ariths)

text \<open>
  The random start of the sequence numbers is a number from 0 to 100, a function of the
  previous one alone; the first one after program start is always the same.
\<close>

theorem snt_rand_value_bounded:
  "unat (fst (snt_rand_value w)) \<le> 100 \<and> seed (snd (snt_rand_value w)) = fst (snt_rand_value w) \<and>
   fst (snt_rand_value w) = (seed w * 1103515245 + 12345) mod 101 \<and>
   unat (fst (snt_rand_value (initial_world arrays dec un clk))) = (12345 * 1103515245 + 12345) mod 2 ^ 32 mod 101"
proof -
  have "x mod 101 < (101 :: nat)" for x by simp
  then have "unat ((seed w * 1103515245 + 12345) mod 101) < 101"
    by (simp add: unat_mod)
  moreover have "(12345 * 1103515245 + 12345 :: u32) = word_of_nat (12345 * 1103515245 + 12345)" by simp
  then have "unat (12345 * 1103515245 + 12345 :: u32) = (12345 * 1103515245 + 12345) mod 2 ^ 32"
    by (simp only: unat_of_nat) simp
  ultimately show ?thesis
    by (simp add: snt_rand_value_def Let_def unat_mod initial_world_def)
qed


text \<open>
  C25. What the state machine sends reads back at the peer: when \<open>Sm_HandleEvent\<close> has sent anything
  on an event other than \<open>EVENT_SEND_DATA\<close>, it has called the application's \<open>SendSpdu\<close> once, with the
  number of the connection and the length of the bytes. From these bytes \<open>deserialize_pdu\<close> yields
  the type and the payload that the table gives for the event, the connection's numbers as the
  event has left them, the last clock reading of the event as time stamp, and pointers that can
  be followed.
\<close>

theorem sent_telegram_decodes:
  assumes "operational f c" and "consistent (self c)" and "admissible event c" and "event \<noteq> EVENT_SEND_DATA"
    and "Sm_HandleEvent event c = Inr c'" and "sent (mem c') \<noteq> sent (mem c)"
    and "ext r n = call_data (last (sent (mem c')))"
  shows "\<exists>t content pdu call. sent (mem c') = sent (mem c) @ [call] \<and> call_fn call = f \<and>
    call_node call = channel (self c) \<and> unat (call_len call) = length (call_data call) \<and>
    says (planned c event) = Some (t, content) \<and>
    deserialize_pdu (Ptr (Ext n) 0) (length (ext r n)) zero_pdu r = Inr (pdu, r) \<and>
    message_type pdu = message_code t \<and> sequence_number pdu = snt (self c') \<and>
    timestamp pdu = reading (mem c) (clock_calls (mem c') - 1) \<and>
    (t \<noteq> CONNECTION_REQUEST \<longrightarrow> confirmed_sequence_number pdu = cst (self c') \<and> confirmed_timestamp pdu = ctsr (self c')) \<and>
    seen_bytes r (payload pdu) (length content) = content \<and> code_live r pdu"
proof -
  note step = event_result [OF assms(1-3,5)]
  have other: "planned c event \<noteq> Forward" using plans_forward assms(4) by blast
  then obtain t content where say: "says (planned c event) = Some (t, content)"
    using followsD(6) [OF step _ other] assms(6) by (cases "says (planned c event)") auto
  let ?now = "reading (mem c) (clock_calls (mem c) + ticks (planned c event) - 1)"
  let ?m = "covered t content (self c') ?now"
  have fits: "length content \<le> 22" by (rule says_fits [OF say])
  obtain k where call: "sent (mem c') = sent (mem c) @ [spdu f t content (self c') ?now (code_seen (mem c) k ?m)]"
    using followsD(7) [OF step say] by (auto simp: transmits_def)
  then have bytes: "take (36 + length content) (ext r n) = ?m @ code_seen (mem c) k ?m"
    and len: "length (ext r n) = 36 + length content"
    using assms(7) by (simp_all add: spdu_def)
  from telegram_received [OF fits length_code_seen bytes] obtain pdu
    where "deserialize_pdu (Ptr (Ext n) 0) (36 + length content) zero_pdu r = Inr (pdu, r)"
      "message_type pdu = message_code t" "sequence_number pdu = snt (self c')" "timestamp pdu = ?now"
      "confirmed_sequence_number pdu = (if t = CONNECTION_REQUEST then 0 else cst (self c'))"
      "confirmed_timestamp pdu = (if t = CONNECTION_REQUEST then 0 else ctsr (self c'))"
      "seen_bytes r (payload pdu) (length content) = content" "code_live r pdu" by metis
  moreover have "channel (self c') = channel (self c)" using followsD(4) [OF step] by (simp add: after_kept)
  moreover have "unat (word_of_nat (36 + length content) :: u32) = 36 + length content"
    using fits by (simp only: unat_of_nat) simp
  ultimately show ?thesis using call say followsD(5) [OF step]
    by (intro exI [of _ t] exI [of _ content] exI [of _ pdu]) (simp add: len spdu_def)
qed

theorem sent_telegram_decodes_witness:
  "\<exists>c' pdu. Sm_HandleEvent EVENT_TH_ELAPSED (sample_frame ROLE_CLIENT STATE_UP zero_pdu) = Inr c' \<and>
    (let r = sample_world\<lparr>ext := \<lambda>_. call_data (last (sent (mem c')))\<rparr>
     in deserialize_pdu (Ptr (Ext 0) 0) (length (ext r 0)) zero_pdu r = Inr (pdu, r) \<and>
        message_type pdu = 6220 \<and> sequence_number pdu = snt (self c'))"
proof -
  let ?c = "sample_frame ROLE_CLIENT STATE_UP zero_pdu"
  have adm: "admissible EVENT_TH_ELAPSED ?c" by (simp add: admissible_def)
  note op = sample_operational [OF zero_pdu_null(1)] sample_fields(3)
  obtain c' where c': "Sm_HandleEvent EVENT_TH_ELAPSED ?c = Inr c'" "follows (planned ?c EVENT_TH_ELAPSED) (App_SendSpdu 0) ?c c'"
    by (rule event_step [OF op adm])
  have says: "says (planned ?c EVENT_TH_ELAPSED) = Some (HEARTBEAT, [])" by (simp add: plan_event_def)
  from followsD(7) [OF c'(2) this] have "sent (mem c') \<noteq> sent (mem ?c)" by (auto simp: transmits_def)
  from sent_telegram_decodes [OF op adm _ c'(1) this, of "sample_world\<lparr>ext := \<lambda>_. call_data (last (sent (mem c')))\<rparr>" 0]
  show ?thesis using c'(1) says by (auto simp: Let_def)
qed

text \<open>
  C31. A truncated connection request hangs the server: its header is decoded without an error,
  the payload pointer stays null, and in the state DOWN the assertion of \<open>check_version\<close> fails,
  which never returns.
\<close>

theorem truncated_request_hangs:
  assumes "consistent sm" and "sm_state sm = STATE_DOWN"
    and "holds_at w (Ptr (Ext n) 0) 0 (header h)" and "sz < unat (message_length h)"
  shows "\<exists>pdu. deserialize_pdu (Ptr (Ext n) 0) sz zero_pdu w = Inr (pdu, w) \<and>
    Sm_HandleEvent EVENT_RECV_CONN_REQ \<lparr>self = sm, pdu_of = pdu, mem = w\<rparr> = Inl Assert_Failed"
proof -
  let ?pdu = "if sz < 36 then zero_pdu else decoded h zero_pdu"
  have "deserialize_pdu (Ptr (Ext n) 0) sz zero_pdu w = Inr (?pdu, w)"
    using deserialize_pdu_at [OF assms(3), of sz zero_pdu] assms(4) by (simp add: deserialize_pdu_short)
  moreover have "payload ?pdu = NULL" by (simp add: deserialized_fields)
  ultimately show ?thesis
    using assms(1,2)
    by (intro exI [of _ ?pdu])
       (simp add: Sm_HandleEvent_def call_handle_event_def consistent_def handle_down_def check_version_def)
qed

theorem truncated_request_hangs_witness:
  "\<exists>pdu. Sm_HandleEvent EVENT_RECV_CONN_REQ
     \<lparr>self = sample_sm ROLE_SERVER STATE_DOWN, pdu_of = pdu,
      mem = sample_world\<lparr>ext := \<lambda>_. header (sample_pdu\<lparr>message_length := 50\<rparr>) @ replicate 10 0\<rparr>\<rparr> = Inl Assert_Failed"
proof -
  let ?h = "sample_pdu\<lparr>message_length := 50\<rparr>"
  let ?w = "sample_world\<lparr>ext := \<lambda>_. header ?h @ replicate 10 0\<rparr>"
  have "holds_at ?w (Ptr (Ext 0) 0) 0 (header ?h)" by (simp add: holds_at_def array_of_def)
  moreover have "consistent (sample_sm ROLE_SERVER STATE_DOWN)" "sm_state (sample_sm ROLE_SERVER STATE_DOWN) = STATE_DOWN"
    by (simp_all add: sample_sm_def consistent_def)
  ultimately show ?thesis
    using truncated_request_hangs [of "sample_sm ROLE_SERVER STATE_DOWN" ?w 0 ?h 38] by auto
qed

text \<open>
  C32. A connection request whose length field is below 36, in an array that holds header and
  protocol version, makes the server read outside the array: the constructor of the response
  copies the old safety code from a pointer gigabytes behind it.
\<close>

theorem short_length_request_overruns:
  assumes "consistent sm" and "sm_state sm = STATE_DOWN" and "Tlocal (sm_time sm) \<noteq> None" and "wf_world w"
    and "holds_at w (Ptr (Ext n) 0) 0 (header h @ [0x30, 0x33, 0x30, 0x31])" and "36 \<le> length (ext w n)"
    and "length (ext w n) < 2 ^ 31" and "unat (message_length h) < 36"
  shows "\<exists>pdu. deserialize_pdu (Ptr (Ext n) 0) (length (ext w n)) zero_pdu w = Inr (pdu, w) \<and>
    Sm_HandleEvent EVENT_RECV_CONN_REQ \<lparr>self = sm, pdu_of = pdu, mem = w\<rparr> = Inl Out_Of_Bounds"
proof -
  let ?p = "Ptr (Ext n) 0"
  let ?pdu = "(decoded h zero_pdu)\<lparr>payload := ptr_add ?p 28, safety_code := ptr_add ?p (28 + payload_length h)\<rparr>"
  let ?c = "\<lparr>self = sm, pdu_of = ?pdu, mem = w\<rparr>"
  have h: "holds_at w ?p 0 (header h)" and v: "holds_at w ?p 28 [0x30, 0x33, 0x30, 0x31]"
    using assms(5) by (simp_all add: holds_at_append)
  have des: "deserialize_pdu ?p (length (ext w n)) zero_pdu w = Inr (?pdu, w)"
    using deserialize_pdu_at [OF h, of "length (ext w n)" zero_pdu] assms(6,8) by simp
  have live: "payload_live w ?pdu"
    using assms(6) by (simp add: payload_live_def ptr_add_def array_of_def)
  have four: "length [0x30, 0x33, 0x30, 0x31 :: u8] = 4" by simp
  have "take 4 (drop 28 (array_of w (Ext n))) = [0x30, 0x33, 0x30, 0x31]"
    using v by (simp only: holds_at_def ptr.case add_0 four)
  then have "check_version ?pdu w = Inr (True, w)"
    using check_version_live [of ?c] live by (simp add: judge_def seen_bytes_def ptr_add_def)
  moreover have "\<not> code_live w ?pdu"
    using assms(7) payload_length_short [OF assms(8)]
    by (simp add: code_live_def code_bytes_def readable_def ptr_add_def array_of_def)
  moreover have "code_live (w\<lparr>clock_calls := k\<rparr>) ?pdu = code_live w ?pdu" for k by simp
  ultimately have "handle_down EVENT_RECV_CONN_REQ ?c = Inl Out_Of_Bounds"
    using assms(3,4) by (simp add: handle_down_def step_defs Tlocal_set Let_def ConnResp_unreadable wf_world_def)
  then have "Sm_HandleEvent EVENT_RECV_CONN_REQ ?c = Inl Out_Of_Bounds"
    using assms(1,2) by (simp add: Sm_HandleEvent_def call_handle_event_def consistent_def)
  with des show ?thesis by blast
qed

theorem short_length_request_overruns_witness:
  "\<exists>pdu. Sm_HandleEvent EVENT_RECV_CONN_REQ
     \<lparr>self = sample_sm ROLE_SERVER STATE_DOWN, pdu_of = pdu,
      mem = sample_world\<lparr>ext := \<lambda>_. header (sample_pdu\<lparr>message_length := 35\<rparr>) @ [0x30, 0x33, 0x30, 0x31, 0, 0, 0, 0]\<rparr>\<rparr> =
     Inl Out_Of_Bounds"
proof -
  let ?h = "sample_pdu\<lparr>message_length := 35\<rparr>" and ?sm = "sample_sm ROLE_SERVER STATE_DOWN"
  let ?w = "sample_world\<lparr>ext := \<lambda>_. header ?h @ [0x30, 0x33, 0x30, 0x31, 0, 0, 0, 0]\<rparr>"
  have "holds_at ?w (Ptr (Ext 0) 0) 0 (header ?h @ [0x30, 0x33, 0x30, 0x31])" by (simp add: holds_at_def array_of_def)
  moreover have "consistent ?sm" "sm_state ?sm = STATE_DOWN" "Tlocal (sm_time ?sm) \<noteq> None"
    by (simp_all add: sample_sm_def consistent_def)
  moreover have "wf_world ?w" by (simp add: sample_world_def wf_world_def initial_world_def)
  ultimately show ?thesis
    using short_length_request_overruns [of ?sm ?w 0 ?h] by auto
qed

end
