(* ===== verification/Safecom_Theorems.thy ===== *)
theory Safecom_Theorems
  imports Safecom Sm_Theorems
begin

text \<open>
  The properties of the public interface: what initialisation sets up and what it leaves out, the
  contract the two modules share, what sending data does on the wire, and where an unchecked
  argument leads.
\<close>

section \<open>Initialisation in closed form\<close>

definition set_up :: "SmRole \<Rightarrow> nat \<Rightarrow> SmType \<Rightarrow> SmType" where
  "set_up role j sm = Sm_Init (sm\<lparr>channel := word_of_nat j, sm_state := STATE_CLOSED, sm_role := role\<rparr>)"

lemma init_loop_short: "i \<le> length xs \<Longrightarrow> length xs < i + n \<Longrightarrow> init_loop n i role xs = Inl Out_Of_Bounds"
proof (induction n arbitrary: i xs)
  case 0
  then show ?case by simp
next
  case (Suc n)
  then show ?case
    by (cases "i < length xs") (simp_all add: array_get_def array_set_def Let_def)
qed

lemma init_loop_ok:
  "i + n \<le> length xs \<Longrightarrow>
   \<exists>ys. init_loop n i role xs = Inr ys \<and> length ys = length xs \<and>
     (\<forall>j < length xs. ys ! j = (if i \<le> j \<and> j < i + n then set_up role j (xs ! j) else xs ! j))"
proof (induction n arbitrary: i xs)
  case 0
  then show ?case by fastforce
next
  case (Suc n)
  let ?xs = "xs[i := set_up role i (xs ! i)]"
  from Suc.prems Suc.IH [of "Suc i" ?xs] obtain ys where
    "init_loop n (Suc i) role ?xs = Inr ys" "length ys = length xs"
    "\<forall>j < length xs. ys ! j = (if Suc i \<le> j \<and> j < Suc i + n then set_up role j (?xs ! j) else ?xs ! j)"
    by auto
  with Suc.prems show ?case
    by (intro exI [of _ ys]) (auto simp: array_get_ok array_set_ok Let_def set_up_def nth_list_update)
qed

lemma set_up_fields [simp]:
  "sm_state (set_up role j sm) = STATE_CLOSED" "sm_role (set_up role j sm) = role"
  "channel (set_up role j sm) = word_of_nat j" "vtable (set_up role j sm) = vtable sm"
  "Tlocal (sm_time (set_up role j sm)) = Tlocal (sm_time sm)"
  "Th (timeouts (sm_time (set_up role j sm))) = 10" "Tmax (timeouts (sm_time (set_up role j sm))) = 30"
  "Ti (sm_time (set_up role j sm)) = 30"
  "handle_event (set_up role j sm) = Some handle_closed_fn"
  "snr (set_up role j sm) = 0" "snt (set_up role j sm) = 0" "cst (set_up role j sm) = 0"
  "csr (set_up role j sm) = 0" "tsr (set_up role j sm) = 0" "ctsr (set_up role j sm) = 0"
  by (simp_all add: set_up_def Sm_Init_def Let_def set_initial_values_def)

text \<open>A configuration whose array has room for its connections.\<close>

definition proper_config :: "lib \<Rightarrow> SafeComType \<Rightarrow> nat \<Rightarrow> bool" where
  "proper_config lib cfg a \<longleftrightarrow> config_sms (type_config cfg) = Some a \<and> sm_arrays lib a \<noteq> [] \<and>
     unat (max_connections (type_config cfg)) \<le> length (sm_arrays lib a)"

lemma SafeCom_Init_ok:
  assumes "proper_config lib cfg a"
  obtains lib' where "SafeCom_Init me cfg lib = Inr (OK, lib')" and "sms lib' = Some a"
    and "length (sm_arrays lib' a) = length (sm_arrays lib a)"
    and "\<And>j. j < length (sm_arrays lib a) \<Longrightarrow> sm_arrays lib' a ! j =
      (let sm = sm_arrays lib a ! j;
           sm = (if j = 0 then sm\<lparr>vtable := Some me, sm_time := (sm_time sm)\<lparr>Tlocal := Some GetCurrentTimestamp_fn\<rparr>\<rparr> else sm)
       in if j < unat (max_connections (type_config cfg)) then set_up (config_role (type_config cfg)) j sm else sm)"
    and "wmem lib' = (wmem lib)\<lparr>vtables := (vtables (wmem lib))(me := type_vtable cfg)\<rparr>"
    and "\<And>b. b \<noteq> a \<Longrightarrow> sm_arrays lib' b = sm_arrays lib b"
    and "initialized lib' = initialized lib" and "module_config lib' = module_config lib"
proof -
  let ?xs = "sm_arrays lib a" and ?n = "unat (max_connections (type_config cfg))"
  let ?first = "(?xs ! 0)\<lparr>vtable := Some me, sm_time := (sm_time (?xs ! 0))\<lparr>Tlocal := Some GetCurrentTimestamp_fn\<rparr>\<rparr>"
  let ?lib = "lib\<lparr>wmem := (wmem lib)\<lparr>vtables := (vtables (wmem lib))(me := type_vtable cfg)\<rparr>,
    instance_config := (instance_config lib)(me := type_config cfg), sms := Some a\<rparr>"
  have a: "config_sms (type_config cfg) = Some a" "0 < length ?xs" "?n \<le> length ?xs"
    using assms by (auto simp: proper_config_def)
  then obtain ys where ys: "init_loop ?n 0 (config_role (type_config cfg)) (?xs[0 := ?first]) = Inr ys"
    "length ys = length ?xs"
    "\<forall>j < length ?xs. ys ! j = (if j < ?n then set_up (config_role (type_config cfg)) j (?xs[0 := ?first] ! j)
      else ?xs[0 := ?first] ! j)"
    using init_loop_ok [of 0 ?n "?xs[0 := ?first]" "config_role (type_config cfg)"] by auto
  have init: "SafeCom_Init me cfg lib = Inr (OK, ?lib\<lparr>sm_arrays := (sm_arrays lib)(a := ys)\<rparr>)"
    using a ys(1) by (simp add: SafeCom_Init_def SafeCom_Init_Impl_def array_get_ok array_set_ok Let_def)
  show thesis
    using ys(2,3) by (intro that [OF init]) (auto simp: Let_def nth_list_update)
qed

section \<open>The contract of the two modules\<close>

text \<open>
  Both modules wrap one instance: they initialise it at most once and keep a configuration for
  the call without a vtable.
\<close>

locale safecom_module =
  fixes me :: inst
    and init_vtable :: "SafeComType option \<Rightarrow> call"
    and init :: "SafeComConfig option \<Rightarrow> call"
    and callbacks :: SafeComVtable
  assumes init_vtable_law: "SendSpdu (type_vtable cfg) \<noteq> None \<Longrightarrow> ReceiveMsg (type_vtable cfg) \<noteq> None \<Longrightarrow>
      init_vtable (Some cfg) lib = (if initialized lib me then Inr (NOT_OK, lib)
        else SafeCom_Init me cfg (lib\<lparr>initialized := (initialized lib)(me := True)\<rparr>))"
    and init_some_law: "init (Some c) lib = init None (lib\<lparr>module_config := (module_config lib)(me := c)\<rparr>)"
    and init_none_law: "init None lib = (if initialized lib me then Inr (NOT_OK, lib)
        else SafeCom_Init me \<lparr>type_vtable = callbacks, type_config = module_config lib me\<rparr>
          (lib\<lparr>initialized := (initialized lib)(me := True)\<rparr>))"
begin

lemma SafeCom_Init_initialized: "SafeCom_Init me cfg lib = Inr (r, lib') \<Longrightarrow> initialized lib' = initialized lib"
  by (auto simp: SafeCom_Init_def SafeCom_Init_Impl_def Let_def split: option.splits elim!: bindE_InrE)

lemma init_once:
  assumes "init_vtable (Some cfg) lib = Inr (OK, lib')"
    and "SendSpdu (type_vtable cfg) \<noteq> None" and "ReceiveMsg (type_vtable cfg) \<noteq> None"
  shows "initialized lib' me"
  using assms SafeCom_Init_initialized [of cfg "lib\<lparr>initialized := (initialized lib)(me := True)\<rparr>" OK lib']
  by (simp add: init_vtable_law split: if_splits)

lemma init_again:
  assumes "initialized lib me"
  shows "SendSpdu (type_vtable cfg) \<noteq> None \<Longrightarrow> ReceiveMsg (type_vtable cfg) \<noteq> None \<Longrightarrow>
      init_vtable (Some cfg) lib = Inr (NOT_OK, lib)"
    and "init None lib = Inr (NOT_OK, lib)"
    and "init (Some c) lib = Inr (NOT_OK, lib\<lparr>module_config := (module_config lib)(me := c)\<rparr>)"
  using assms by (simp_all add: init_vtable_law init_some_law init_none_law)

lemma init_without_array:
  assumes "\<not> initialized lib me" and "config_sms (module_config lib me) = None"
  shows "init None lib = Inl Null_Deref"
  using assms by (simp add: init_none_law SafeCom_Init_def SafeCom_Init_Impl_def Let_def)

lemma init_ok:
  assumes "\<not> initialized lib me" and "proper_config lib cfg a"
    and "SendSpdu (type_vtable cfg) \<noteq> None" and "ReceiveMsg (type_vtable cfg) \<noteq> None"
  obtains lib' where "init_vtable (Some cfg) lib = Inr (OK, lib')" and "sms lib' = Some a"
    and "vtables (wmem lib') me = type_vtable cfg"
    and "\<And>b. b \<noteq> a \<Longrightarrow> sm_arrays lib' b = sm_arrays lib b"
proof -
  have "proper_config (lib\<lparr>initialized := (initialized lib)(me := True)\<rparr>) cfg a"
    using assms(2) by (simp add: proper_config_def)
  then obtain lib' where "SafeCom_Init me cfg (lib\<lparr>initialized := (initialized lib)(me := True)\<rparr>) = Inr (OK, lib')"
    "sms lib' = Some a" "vtables (wmem lib') me = type_vtable cfg" "\<And>b. b \<noteq> a \<Longrightarrow> sm_arrays lib' b = sm_arrays lib b"
    by (rule SafeCom_Init_ok [where me = me]) simp
  with that assms show thesis by (simp add: init_vtable_law)
qed

lemma init_default_callbacks:
  assumes "\<not> initialized lib me" and "proper_config lib \<lparr>type_vtable = v, type_config = c\<rparr> a"
  shows "\<exists>lib'. init (Some c) lib = Inr (OK, lib') \<and> vtables (wmem lib') me = callbacks"
proof -
  let ?cfg = "\<lparr>type_vtable = callbacks, type_config = c\<rparr>"
  let ?lib = "lib\<lparr>module_config := (module_config lib)(me := c), initialized := (initialized lib)(me := True)\<rparr>"
  have "proper_config ?lib ?cfg a" using assms(2) by (simp add: proper_config_def)
  then obtain lib' where "SafeCom_Init me ?cfg ?lib = Inr (OK, lib')" "vtables (wmem lib') me = callbacks"
    by (rule SafeCom_Init_ok [where me = me]) simp
  with assms(1) show ?thesis by (simp add: init_some_law init_none_law)
qed

end

interpretation rass: safecom_module RassInstance Rass_Init_VTable Rass_Init RassVTable
  by unfold_locales (auto simp: Rass_Init_VTable_def Rass_Init_def RassVTable_def Let_def)

interpretation sic: safecom_module SicInstance Sic_Init_VTable Sic_Init SicVTable
  by unfold_locales (auto simp: Sic_Init_VTable_def Sic_Init_def SicVTable_def Let_def)


section \<open>A process to evaluate\<close>

definition sample_lib :: lib where
  "sample_lib = initial_lib sample_world (\<lambda>_. [zero_sm, zero_sm])"

definition sample_config :: "SmRole \<Rightarrow> nat \<Rightarrow> SafeComType" where
  "sample_config role a = \<lparr>type_vtable = \<lparr>SendSpdu = Some (App_SendSpdu 0), ReceiveMsg = Some (App_ReceiveMsg 0)\<rparr>,
     type_config = \<lparr>instname = [], config_role = role, max_connections = 2, config_sms = Some a\<rparr>\<rparr>"

lemma sample_lib_fields [simp]:
  "initialized sample_lib i = False" "sm_arrays sample_lib a = [zero_sm, zero_sm]"
  "module_config sample_lib RassInstance = RassConfig_default" "wmem sample_lib = sample_world"
  by (simp_all add: sample_lib_def initial_lib_def)

lemma sample_config_fields [simp]:
  "config_sms (type_config (sample_config role a)) = Some a" "config_role (type_config (sample_config role a)) = role"
  "max_connections (type_config (sample_config role a)) = 2"
  "SendSpdu (type_vtable (sample_config role a)) = Some (App_SendSpdu 0)"
  "ReceiveMsg (type_vtable (sample_config role a)) = Some (App_ReceiveMsg 0)"
  by (simp_all add: sample_config_def)

lemma sample_proper: "proper_config sample_lib (sample_config role a) a"
  by (simp add: proper_config_def)

lemma handle_event_index:
  "sms lib = Some a \<Longrightarrow> unat i < length (sm_arrays lib a) \<Longrightarrow>
   handle_event_at i event pdu lib =
     bindE (Sm_HandleEvent event \<lparr>self = sm_arrays lib a ! unat i, pdu_of = pdu, mem = wmem lib\<rparr>)
       (\<lambda>c. Inr (store_connection i (self c) (mem c) lib))"
  by (simp add: handle_event_at_def connection_def array_get_ok)

section \<open>Sending data\<close>

lemma unat_length_byte: "unat (ucast msgLen :: u8) = unat msgLen mod 256" for msgLen :: u32
  by (simp add: unat_ucast_down)

text \<open>The whole call, for a message that fits.\<close>

lemma SendData_step:
  assumes lib: "sms lib = Some a" "unat i < length (sm_arrays lib a)" "sm = sm_arrays lib a ! unat i"
    and op: "operational f \<lparr>self = sm, pdu_of = zero_pdu, mem = wmem lib\<rparr>" and cons: "consistent sm"
    and n: "n = unat msgLen mod 256" "n \<le> 22" and arr: "off + n \<le> length (ext (wmem lib) k)"
  obtains c1 c2 lib' j where "SafeCom_SendData me i msgLen (Ptr (Ext k) off) lib = Inr (OK, lib')"
    and "follows (planned c1 EVENT_SEND_DATA) f c1 c2" and "self c1 = counted True sm"
    and "sent (mem c1) = sent (wmem lib)" and "sm_arrays lib' a ! unat i = self c2" and "wmem lib' = mem c2"
    and "\<lparr>call_fn = f, call_node = channel sm, call_len = ucast (message_length (pdu_of c1)),
       call_data = telegram (mem c1) (pdu_of c1)\<rparr> =
      spdu f DATA (take n (drop off (ext (wmem lib) k))) (self c1) (reading (wmem lib) (clock_calls (wmem lib)))
       (code_seen (wmem lib) j (covered DATA (take n (drop off (ext (wmem lib) k))) (self c1)
         (reading (wmem lib) (clock_calls (wmem lib)))))"
proof -
  let ?c = "\<lparr>self = sm, pdu_of = zero_pdu, mem = wmem lib\<rparr>" and ?n = "ucast msgLen :: u8"
  let ?bytes = "take n (drop off (ext (wmem lib) k))" and ?now = "reading (wmem lib) (clock_calls (wmem lib))"
  have len: "unat ?n = n" by (simp add: unat_length_byte n)
  obtain c1 j where c1: "Data ?n (Ptr (Ext k) off) ?c = Inr c1" "operational f c1"
      "sendable (mem c1) (pdu_of c1)" "self c1 = counted True sm" "sent (mem c1) = sent (wmem lib)"
      "unat (message_length (pdu_of c1)) = 36 + n"
      "telegram (mem c1) (pdu_of c1) = covered DATA ?bytes (self c1) ?now @
        code_seen (wmem lib) j (covered DATA ?bytes (self c1) ?now)"
    by (rule Data_frame [OF op, of ?n off k]) (use n(2) arr len in auto)
  let ?lib = "store_connection i (self c1) (mem c1) lib"
  have whole: "\<lparr>self = self c1, pdu_of = pdu_of c1, mem = mem c1\<rparr> = c1" by simp
  have cons1: "consistent (self c1)" and adm: "admissible EVENT_SEND_DATA c1"
    using cons c1(3,4) by (simp_all add: consistent_def admissible_def)
  obtain c2 where c2: "Sm_HandleEvent EVENT_SEND_DATA c1 = Inr c2" "follows (planned c1 EVENT_SEND_DATA) f c1 c2"
    by (rule event_step [OF c1(2) cons1 adm])
  let ?lib2 = "store_connection i (self c2) (mem c2) ?lib"
  have store: "sms ?lib = Some a" "wmem ?lib = mem c1" "unat i < length (sm_arrays ?lib a)"
      "sm_arrays ?lib a ! unat i = self c1" "sm_arrays ?lib2 a ! unat i = self c2" "wmem ?lib2 = mem c2"
    using lib by (simp_all add: store_connection_def)
  have "handle_event_at i EVENT_SEND_DATA (pdu_of c1) ?lib = Inr ?lib2"
    by (simp only: handle_event_index [OF store(1,3)] store(2,4) whole c2(1) bindE_simps)
  then have send: "SafeCom_SendData me i msgLen (Ptr (Ext k) off) lib = Inr (OK, ?lib2)"
    using lib c1(1) by (simp add: SafeCom_defs connection_def array_get_ok)
  have "ucast (message_length (pdu_of c1)) = (word_of_nat (36 + n) :: u32)"
    by (metis c1(6) of_nat_unat)
  moreover have "length ?bytes = n" using arr by simp
  ultimately have "\<lparr>call_fn = f, call_node = channel sm, call_len = ucast (message_length (pdu_of c1)),
       call_data = telegram (mem c1) (pdu_of c1)\<rparr> =
      spdu f DATA ?bytes (self c1) ?now (code_seen (wmem lib) j (covered DATA ?bytes (self c1) ?now))"
    by (simp only: spdu_def c1(4,7)) simp
  from that [OF send c2(2) c1(4,5) store(5,6) this] show thesis .
qed

section \<open>Properties\<close>

text \<open>
  What initialisation leaves: every configured connection is closed, in the configured
  role, with its index as channel, all counters zero, the timeouts 10 and 30 seconds and the
  closed handler; the callbacks and the clock are installed in the first connection only, and a
  connection behind it keeps the ones it had.
\<close>

theorem SafeCom_Init_sets_up:
  assumes "proper_config lib cfg a" and "j < unat (max_connections (type_config cfg))"
  shows "\<exists>lib' sm. SafeCom_Init me cfg lib = Inr (OK, lib') \<and> sms lib' = Some a \<and> sm = sm_arrays lib' a ! j \<and>
    sm_state sm = STATE_CLOSED \<and> sm_role sm = config_role (type_config cfg) \<and> channel sm = word_of_nat j \<and>
    snr sm = 0 \<and> snt sm = 0 \<and> cst sm = 0 \<and> csr sm = 0 \<and> tsr sm = 0 \<and> ctsr sm = 0 \<and>
    Th (timeouts (sm_time sm)) = 10 \<and> Tmax (timeouts (sm_time sm)) = 30 \<and> Ti (sm_time sm) = 30 \<and>
    consistent sm \<and>
    (if j = 0 then vtable sm = Some me \<and> Tlocal (sm_time sm) = Some GetCurrentTimestamp_fn
     else vtable sm = vtable (sm_arrays lib a ! j) \<and> Tlocal (sm_time sm) = Tlocal (sm_time (sm_arrays lib a ! j)))"
proof -
  have j: "j < length (sm_arrays lib a)" using assms by (simp add: proper_config_def)
  obtain lib' where "SafeCom_Init me cfg lib = Inr (OK, lib')" "sms lib' = Some a"
    and at: "sm_arrays lib' a ! j =
      (let sm = sm_arrays lib a ! j;
           sm = (if j = 0 then sm\<lparr>vtable := Some me, sm_time := (sm_time sm)\<lparr>Tlocal := Some GetCurrentTimestamp_fn\<rparr>\<rparr> else sm)
       in if j < unat (max_connections (type_config cfg)) then set_up (config_role (type_config cfg)) j sm else sm)"
    by (rule SafeCom_Init_ok [OF assms(1), of me]) (use j in blast)
  then show ?thesis
    using assms(2) at
    by (intro exI [of _ lib'] exI [of _ "sm_arrays lib' a ! j"]; cases "j = 0")
      (simp_all add: Let_def consistent_def)
qed

theorem SafeCom_Init_sets_up_witness:
  "\<exists>lib'. SafeCom_Init RassInstance (sample_config ROLE_SERVER 0) sample_lib = Inr (OK, lib') \<and>
    channel (sm_arrays lib' 0 ! 1) = 1 \<and> Tmax (timeouts (sm_time (sm_arrays lib' 0 ! 1))) = 30 \<and>
    vtable (sm_arrays lib' 0 ! 1) = None"
  using SafeCom_Init_sets_up [OF sample_proper, of 1 ROLE_SERVER 0 RassInstance]
  by (auto simp: zero_sm_def)

text \<open>
  C33. Only the first connection works: in the array that the application zero-initialised,
  opening any further connection of a client calls a null function pointer.
\<close>

theorem further_client_connections_fault:
  assumes "proper_config lib cfg a" and "config_role (type_config cfg) = ROLE_CLIENT"
    and "0 < unat i" and "unat i < unat (max_connections (type_config cfg))"
    and "Tlocal (sm_time (sm_arrays lib a ! unat i)) = None"
  shows "bindE (SafeCom_Init me cfg lib) (\<lambda>(_, lib'). SafeCom_OpenConnection me i lib') = Inl Null_Call"
proof -
  have i: "unat i < length (sm_arrays lib a)" using assms(1,4) by (simp add: proper_config_def)
  obtain lib' where init: "SafeCom_Init me cfg lib = Inr (OK, lib')" "sms lib' = Some a"
      "length (sm_arrays lib' a) = length (sm_arrays lib a)"
    and at: "sm_arrays lib' a ! unat i = set_up ROLE_CLIENT (unat i) (sm_arrays lib a ! unat i)"
    by (rule SafeCom_Init_ok [OF assms(1), of me]) (use i assms in \<open>simp add: Let_def\<close>)
  have "handle_event_at i EVENT_OPEN_CONN zero_pdu lib' = Inl Null_Call"
    using init i assms(5)
    by (simp add: handle_event_index at Sm_HandleEvent_def call_handle_event_def handle_closed_def
        step_defs Tlocal_unset split_beta Let_def)
  then show ?thesis by (simp add: init SafeCom_defs)
qed

theorem further_client_connections_fault_witness:
  "bindE (SafeCom_Init RassInstance (sample_config ROLE_CLIENT 0) sample_lib)
     (\<lambda>(_, lib'). SafeCom_OpenConnection RassInstance 1 lib') = Inl Null_Call"
  by (rule further_client_connections_fault [OF sample_proper]) (simp_all add: zero_sm_def zero_time_def)

text \<open>
  C34. Further connections of a server can be opened but never established: the connection request
  that arrives reads the clock through a null function pointer.
\<close>

theorem further_server_connections_fault:
  assumes "proper_config lib cfg a" and "config_role (type_config cfg) = ROLE_SERVER"
    and "0 < unat i" and "unat i < unat (max_connections (type_config cfg))"
    and "Tlocal (sm_time (sm_arrays lib a ! unat i)) = None"
    and "payload pdu = Ptr (Ext k) off" and "off + 4 \<le> length (ext (wmem lib) k)"
    and "take 4 (drop off (ext (wmem lib) k)) = [0x30, 0x33, 0x30, 0x31]"
  shows "\<exists>lib' lib2. SafeCom_Init me cfg lib = Inr (OK, lib') \<and> SafeCom_OpenConnection me i lib' = Inr (OK, lib2) \<and>
    sm_state (sm_arrays lib2 a ! unat i) = STATE_DOWN \<and>
    handle_event_at i EVENT_RECV_CONN_REQ pdu lib2 = Inl Null_Call"
proof -
  have i: "unat i < length (sm_arrays lib a)" using assms(1,4) by (simp add: proper_config_def)
  obtain lib' where init: "SafeCom_Init me cfg lib = Inr (OK, lib')" "sms lib' = Some a"
      "length (sm_arrays lib' a) = length (sm_arrays lib a)"
      "wmem lib' = (wmem lib)\<lparr>vtables := (vtables (wmem lib))(me := type_vtable cfg)\<rparr>"
    and at: "sm_arrays lib' a ! unat i = set_up ROLE_SERVER (unat i) (sm_arrays lib a ! unat i)"
    by (rule SafeCom_Init_ok [OF assms(1), of me]) (use i assms in \<open>simp add: Let_def\<close>)
  let ?r = "fst (snt_rand_value (wmem lib'))" and ?w = "snd (snt_rand_value (wmem lib'))"
  define sm where "sm = (sm_arrays lib' a ! unat i)\<lparr>snt := ?r, sm_state := STATE_DOWN, handle_event := Some handle_down_fn\<rparr>"
  let ?lib = "store_connection i sm ?w lib'"
  have opened: "handle_event_at i EVENT_OPEN_CONN zero_pdu lib' = Inr ?lib"
    using init(2,3) i
    by (simp add: handle_event_index at sm_def Sm_HandleEvent_def call_handle_event_def handle_closed_def
        timer_events_def update_handler_def step_defs split_beta Let_def)
  let ?c = "\<lparr>self = sm, pdu_of = pdu, mem = ?w\<rparr>"
  have ext: "ext ?w = ext (wmem lib)" by (simp add: snt_rand_value_def Let_def init(4))
  have live: "payload_live (mem ?c) (pdu_of ?c)"
    using assms(6,7) ext by (simp add: payload_live_def array_of_def)
  have "check_version pdu ?w = Inr (True, ?w)"
    using check_version_live [OF live] assms(6,8) ext by (simp add: judge_def seen_bytes_def array_of_def)
  then have "Sm_HandleEvent EVENT_RECV_CONN_REQ ?c = Inl Null_Call"
    using assms(5)
    by (simp add: sm_def at Sm_HandleEvent_def call_handle_event_def handle_down_def step_defs Tlocal_unset Let_def)
  moreover have "sms ?lib = Some a" "unat i < length (sm_arrays ?lib a)" "sm_arrays ?lib a ! unat i = sm" "wmem ?lib = ?w"
    using init i by (simp_all add: store_connection_def)
  ultimately have "handle_event_at i EVENT_RECV_CONN_REQ pdu ?lib = Inl Null_Call"
    "sm_state (sm_arrays ?lib a ! unat i) = STATE_DOWN"
    by (simp_all add: handle_event_index, simp add: sm_def)
  with init(1) opened show ?thesis
    by (intro exI [of _ lib'] exI [of _ ?lib]) (simp add: SafeCom_defs)
qed

theorem further_server_connections_fault_witness:
  "\<exists>lib' lib2. SafeCom_Init RassInstance (sample_config ROLE_SERVER 0)
      (sample_lib\<lparr>wmem := sample_world\<lparr>ext := \<lambda>_. [0x30, 0x33, 0x30, 0x31]\<rparr>\<rparr>) = Inr (OK, lib') \<and>
    SafeCom_OpenConnection RassInstance 1 lib' = Inr (OK, lib2) \<and>
    handle_event_at 1 EVENT_RECV_CONN_REQ (zero_pdu\<lparr>payload := Ptr (Ext 0) 0\<rparr>) lib2 = Inl Null_Call"
proof -
  let ?lib = "sample_lib\<lparr>wmem := sample_world\<lparr>ext := \<lambda>_. [0x30, 0x33, 0x30, 0x31]\<rparr>\<rparr>"
  have "proper_config ?lib (sample_config ROLE_SERVER 0) 0" by (simp add: proper_config_def)
  from further_server_connections_fault [OF this, of 1 "zero_pdu\<lparr>payload := Ptr (Ext 0) 0\<rparr>" 0 0 RassInstance]
  show ?thesis by (auto simp: zero_sm_def zero_time_def)
qed


text \<open>
  A module is initialised at most once: after a successful \<open>Rass_Init_VTable\<close> every further
  initialisation returns \<open>NOT_OK\<close>; \<open>Rass_Init\<close> replaces the stored \<open>RassConfig\<close> all the same.
\<close>

theorem Rass_initialised_once:
  assumes "Rass_Init_VTable (Some cfg) lib = Inr (OK, lib')"
    and "SendSpdu (type_vtable cfg) \<noteq> None" and "ReceiveMsg (type_vtable cfg) \<noteq> None"
  shows "Rass_Init_VTable (Some cfg) lib' = Inr (NOT_OK, lib') \<and> Rass_Init None lib' = Inr (NOT_OK, lib') \<and>
    Rass_Init (Some c) lib' = Inr (NOT_OK, lib'\<lparr>module_config := (module_config lib')(RassInstance := c)\<rparr>)"
  using rass.init_again [OF rass.init_once [OF assms]] assms(2,3) by blast

theorem Rass_initialised_once_witness:
  "\<exists>lib'. Rass_Init_VTable (Some (sample_config ROLE_CLIENT 0)) sample_lib = Inr (OK, lib') \<and>
     Rass_Init None lib' = Inr (NOT_OK, lib')"
proof -
  obtain lib' where "Rass_Init_VTable (Some (sample_config ROLE_CLIENT 0)) sample_lib = Inr (OK, lib')"
    by (rule rass.init_ok [OF _ sample_proper [of ROLE_CLIENT 0]]) simp_all
  with Rass_initialised_once [OF this] show ?thesis by auto
qed

text \<open>
  Without a configuration \<open>Rass_Init(NULL)\<close> and \<open>Sic_Init(NULL)\<close> write through the null
  pointer \<open>sms\<close> of the default configuration.
\<close>

theorem default_configuration_faults:
  "Rass_Init None (initial_lib w xss) = Inl Null_Deref \<and> Sic_Init None (initial_lib w xss) = Inl Null_Deref"
proof
  show "Rass_Init None (initial_lib w xss) = Inl Null_Deref"
    by (rule rass.init_without_array) (simp_all add: initial_lib_def RassConfig_default_def)
  show "Sic_Init None (initial_lib w xss) = Inl Null_Deref"
    by (rule sic.init_without_array) (simp_all add: initial_lib_def SicConfig_default_def)
qed

text \<open>
  C39. The two modules are not independent: initialising \<open>Sic\<close> after \<open>Rass\<close> redirects \<open>Rass\<close>
  to the connections of \<open>Sic\<close>; from then on no operation of \<open>Rass\<close> touches its own array.
\<close>

theorem Sic_Init_redirects_Rass:
  assumes "Rass_Init_VTable (Some c1) lib = Inr (OK, lib1)" and "config_sms (type_config c1) = Some a"
    and "\<not> initialized lib1 SicInstance"
    and "proper_config lib1 c2 b" and "SendSpdu (type_vtable c2) \<noteq> None" and "ReceiveMsg (type_vtable c2) \<noteq> None"
    and "a \<noteq> b"
  shows "\<exists>lib2. Sic_Init_VTable (Some c2) lib1 = Inr (OK, lib2) \<and> sms lib2 = Some b \<and>
    (\<forall>i r lib3. Rass_OpenConnection i lib2 = Inr (r, lib3) \<longrightarrow> sm_arrays lib3 a = sm_arrays lib1 a)"
proof -
  obtain lib2 where sic: "Sic_Init_VTable (Some c2) lib1 = Inr (OK, lib2)" "sms lib2 = Some b"
      "sm_arrays lib2 a = sm_arrays lib1 a"
    by (rule sic.init_ok [OF assms(3,4,5,6)]) (use assms(7) in blast)
  have "sm_arrays lib3 a = sm_arrays lib1 a" if "Rass_OpenConnection i lib2 = Inr (r, lib3)" for i r lib3
    using that sic assms(7)
    by (auto simp: Rass_OpenConnection_def SafeCom_defs handle_event_at_def store_connection_def
        elim!: bindE_InrE)
  with sic show ?thesis by blast
qed

theorem Sic_Init_redirects_Rass_witness:
  "\<exists>lib1 lib2. Rass_Init_VTable (Some (sample_config ROLE_CLIENT 0)) sample_lib = Inr (OK, lib1) \<and>
    Sic_Init_VTable (Some (sample_config ROLE_SERVER 1)) lib1 = Inr (OK, lib2) \<and>
    (\<forall>i r lib3. Rass_OpenConnection i lib2 = Inr (r, lib3) \<longrightarrow> sm_arrays lib3 0 = sm_arrays lib1 0)"
proof -
  let ?cfg = "sample_config ROLE_CLIENT 0"
  obtain lib1 where rass: "Rass_Init_VTable (Some ?cfg) sample_lib = Inr (OK, lib1)"
      "sm_arrays lib1 1 = [zero_sm, zero_sm]"
    by (rule rass.init_ok [OF _ sample_proper [of ROLE_CLIENT 0]]) simp_all
  have init: "SafeCom_Init RassInstance ?cfg
      (sample_lib\<lparr>initialized := (initialized sample_lib)(RassInstance := True)\<rparr>) = Inr (OK, lib1)"
    using rass(1) by (simp add: rass.init_vtable_law)
  have "\<not> initialized lib1 SicInstance"
    using rass.SafeCom_Init_initialized [OF init] by simp
  moreover have "proper_config lib1 (sample_config ROLE_SERVER 1) 1"
    using rass(2) by (simp add: proper_config_def)
  ultimately show ?thesis
    using Sic_Init_redirects_Rass [OF rass(1), of 0 "sample_config ROLE_SERVER 1" 1] rass(1) by auto
qed

text \<open>
  No connection number is checked: with an initialised library, opening, closing or sending
  on a number behind the array accesses memory outside it.
\<close>

theorem connection_number_unchecked:
  assumes "sms lib = Some a" and "length (sm_arrays lib a) \<le> unat i" and "p \<noteq> NULL"
  shows "SafeCom_OpenConnection me i lib = Inl Out_Of_Bounds \<and> SafeCom_CloseConnection me i lib = Inl Out_Of_Bounds \<and>
    SafeCom_SendData me i n p lib = Inl Out_Of_Bounds"
  using assms
  by (simp add: SafeCom_defs handle_event_at_def
      connection_def array_get_def)

theorem connection_number_unchecked_witness:
  "SafeCom_CloseConnection RassInstance 2 (sample_lib\<lparr>sms := Some 0\<rparr>) = Inl Out_Of_Bounds"
  using connection_number_unchecked [of "sample_lib\<lparr>sms := Some 0\<rparr>" 0 2 "Ptr (Ext 0) 0"] by simp


text \<open>
  C26. Sending data on an established connection: the length is taken modulo 256; up to 22 bytes
  go out in one data telegram with the next sequence number, the confirmed sequence number and
  the confirmed time stamp of the connection, and the call returns \<open>OK\<close>. From 23 to 255 bytes
  the call overruns a stack buffer.
\<close>

theorem SendData_established:
  assumes "sms lib = Some a" and "unat i < length (sm_arrays lib a)" and "sm = sm_arrays lib a ! unat i"
    and "operational f \<lparr>self = sm, pdu_of = zero_pdu, mem = wmem lib\<rparr>" and "consistent sm"
    and "sm_state sm \<in> {STATE_UP, STATE_RETR_REQ, STATE_RETR_RUN}"
    and "n = unat msgLen mod 256" and "off + n \<le> length (ext (wmem lib) k)"
  shows "if n \<le> 22
    then \<exists>lib' code now. SafeCom_SendData me i msgLen (Ptr (Ext k) off) lib = Inr (OK, lib') \<and>
      sm_arrays lib' a ! unat i = sm\<lparr>snt := snt sm + 1\<rparr> \<and>
      sent (wmem lib') = sent (wmem lib) @
        [spdu f DATA (take n (drop off (ext (wmem lib) k))) (sm\<lparr>snt := snt sm + 1\<rparr>) now code] \<and> length code = 8
    else SafeCom_SendData me i msgLen (Ptr (Ext k) off) lib = Inl Out_Of_Bounds"
proof (cases "n \<le> 22")
  case False
  let ?c = "\<lparr>self = sm, pdu_of = zero_pdu, mem = wmem lib\<rparr>"
  have "Tlocal (sm_time (self ?c)) \<noteq> None" using assms(4) by (rule operational_clock)
  then have "Data (ucast msgLen) (Ptr (Ext k) off) ?c = Inl Out_Of_Bounds"
    using False by (subst Data_spec) (simp_all add: Let_def unat_length_byte assms(7))
  then show ?thesis
    using False assms(1,2) by (simp add: SafeCom_defs connection_def array_get_ok assms(3))
next
  case True
  obtain c1 c2 lib' j where step: "SafeCom_SendData me i msgLen (Ptr (Ext k) off) lib = Inr (OK, lib')"
    "follows (planned c1 EVENT_SEND_DATA) f c1 c2" "self c1 = counted True sm"
    "sent (mem c1) = sent (wmem lib)" "sm_arrays lib' a ! unat i = self c2" "wmem lib' = mem c2"
    "\<lparr>call_fn = f, call_node = channel sm, call_len = ucast (message_length (pdu_of c1)),
       call_data = telegram (mem c1) (pdu_of c1)\<rparr> =
      spdu f DATA (take n (drop off (ext (wmem lib) k))) (self c1) (reading (wmem lib) (clock_calls (wmem lib)))
       (code_seen (wmem lib) j (covered DATA (take n (drop off (ext (wmem lib) k))) (self c1)
         (reading (wmem lib) (clock_calls (wmem lib)))))"
    by (rule SendData_step [OF assms(1-5,7) True assms(8)])
  have fwd: "planned c1 EVENT_SEND_DATA = Forward"
    using assms(6) step(3) by (auto simp: plan_event_def)
  have "self c2 = dispatched (self c1)"
    using followsD(4) [OF step(2)] by (simp only: fwd after.simps)
  then have "self c2 = self c1"
    using assms(5) step(3) by (simp add: dispatched_def consistent_def)
  moreover have "channel (self c1) = channel sm" by (simp add: step(3))
  ultimately show ?thesis
    using True step followsD(8) [OF step(2) fwd]
    by (intro if_P [THEN iffD2] exI [of _ lib'] exI) auto
qed

definition sample_up :: lib where
  "sample_up = sample_lib\<lparr>sms := Some 0, sm_arrays := \<lambda>_. [sample_sm ROLE_CLIENT STATE_UP], wmem := sample_memory\<rparr>"

theorem SendData_established_witness:
  "\<exists>lib' code now. SafeCom_SendData RassInstance 0 259 (Ptr (Ext 0) 10) sample_up = Inr (OK, lib') \<and>
     sent (wmem lib') = [spdu (App_SendSpdu 0) DATA [7, 7, 7]
       ((sample_sm ROLE_CLIENT STATE_UP)\<lparr>snt := 1\<rparr>) now code]"
proof -
  let ?sm = "sample_sm ROLE_CLIENT STATE_UP"
  have lib: "sms sample_up = Some 0" "unat (0 :: u32) < length (sm_arrays sample_up 0)"
    "?sm = sm_arrays sample_up 0 ! unat (0 :: u32)" "wmem sample_up = sample_memory"
    by (simp_all add: sample_up_def)
  have op: "operational (App_SendSpdu 0) \<lparr>self = ?sm, pdu_of = zero_pdu, mem = wmem sample_up\<rparr>"
    using sample_operational [OF zero_pdu_null(1), of ROLE_CLIENT STATE_UP] by (simp add: lib sample_frame_def)
  have sm: "consistent ?sm" "sm_state ?sm \<in> {STATE_UP, STATE_RETR_REQ, STATE_RETR_RUN}" "snt ?sm = 0"
    by (simp_all add: sample_sm_def consistent_def Sm_Init_def Let_def set_initial_values_def)
  have "3 = unat (259 :: u32) mod 256" "10 + 3 \<le> length (ext (wmem sample_up) 0)"
    by (simp_all add: lib sample_memory_def sample_world_def initial_world_def)
  from SendData_established [OF lib(1-3) op sm(1,2) this, of RassInstance] sm(3) show ?thesis
    by (auto simp: lib sample_memory_def sample_world_def initial_world_def numeral_3_eq_3)
qed

text \<open>
  C38. Sending on a closed connection is reported as a success: nothing is sent, the message is
  lost, and a sequence number is used up.
\<close>

theorem SendData_closed_lost:
  assumes "sms lib = Some a" and "unat i < length (sm_arrays lib a)" and "sm = sm_arrays lib a ! unat i"
    and "operational f \<lparr>self = sm, pdu_of = zero_pdu, mem = wmem lib\<rparr>" and "consistent sm"
    and "sm_state sm = STATE_CLOSED" and "n = unat msgLen mod 256" and "n \<le> 22"
    and "off + n \<le> length (ext (wmem lib) k)"
  shows "\<exists>lib'. SafeCom_SendData me i msgLen (Ptr (Ext k) off) lib = Inr (OK, lib') \<and>
    sent (wmem lib') = sent (wmem lib) \<and> snt (sm_arrays lib' a ! unat i) = snt sm + 1 \<and>
    sm_state (sm_arrays lib' a ! unat i) = STATE_CLOSED"
proof -
  obtain c1 c2 lib' where step: "SafeCom_SendData me i msgLen (Ptr (Ext k) off) lib = Inr (OK, lib')"
    "follows (planned c1 EVENT_SEND_DATA) f c1 c2" "self c1 = counted True sm"
    "sent (mem c1) = sent (wmem lib)" "sm_arrays lib' a ! unat i = self c2" "wmem lib' = mem c2"
    by (rule SendData_step [OF assms(1-5,7-9)])
  have "planned c1 EVENT_SEND_DATA = Ignore"
    using assms(6) step(3) by (simp add: plan_event_def)
  with step followsD(4,6) [OF step(2)] assms(6) show ?thesis by simp
qed

theorem SendData_closed_lost_witness:
  "\<exists>lib'. SafeCom_SendData RassInstance 0 3 (Ptr (Ext 0) 0)
      (sample_up\<lparr>sm_arrays := \<lambda>_. [sample_sm ROLE_CLIENT STATE_CLOSED]\<rparr>) = Inr (OK, lib') \<and> sent (wmem lib') = []"
proof -
  let ?sm = "sample_sm ROLE_CLIENT STATE_CLOSED" and ?lib = "sample_up\<lparr>sm_arrays := \<lambda>_. [sample_sm ROLE_CLIENT STATE_CLOSED]\<rparr>"
  have lib: "sms ?lib = Some 0" "unat (0 :: u32) < length (sm_arrays ?lib 0)"
    "?sm = sm_arrays ?lib 0 ! unat (0 :: u32)" "wmem ?lib = sample_memory"
    by (simp_all add: sample_up_def)
  have op: "operational (App_SendSpdu 0) \<lparr>self = ?sm, pdu_of = zero_pdu, mem = wmem ?lib\<rparr>"
    using sample_operational [OF zero_pdu_null(1), of ROLE_CLIENT STATE_CLOSED] lib(4) by (simp add: sample_frame_def)
  have sm: "consistent ?sm" "sm_state ?sm = STATE_CLOSED"
    by (simp_all add: sample_sm_def consistent_def)
  have "3 = unat (3 :: u32) mod 256" "(3 :: nat) \<le> 22" "0 + 3 \<le> length (ext (wmem ?lib) 0)"
    using lib(4) by (simp_all add: sample_memory_def sample_world_def initial_world_def)
  from SendData_closed_lost [OF lib(1-3) op sm this, of RassInstance] lib(4) show ?thesis
    by (auto simp: sample_memory_def sample_world_def initial_world_def)
qed

end
