(* ===== verification/Program.thy ===== *)
theory Program
  imports Safecom_Theorems
begin

text \<open>
  The main program \<open>main.c\<close> on top of the library, and what the default callbacks do with
  received SPDUs. Command line arguments are byte strings without their terminator; what is
  printed is not modelled.
\<close>

section \<open>main.c\<close>

definition My_Fec_ReceiveBtp :: "u32 \<Rightarrow> u32 \<Rightarrow> ptr \<Rightarrow> call" where
  "My_Fec_ReceiveBtp msgId msgLen p lib = assertE (p \<noteq> NULL) (Inr (OK, lib))"

definition My_IscDispApp_SendSpdu :: "u32 \<Rightarrow> u32 \<Rightarrow> ptr \<Rightarrow> call" where
  "My_IscDispApp_SendSpdu nodeId spduLen p lib = assertE (p \<noteq> NULL) (Inr (OK, lib))"

definition MAX_CONNECTIONS :: u32 where
  "MAX_CONNECTIONS = 1"

definition server_name :: "u8 list" where
  "server_name = [0x73, 0x65, 0x72, 0x76, 0x65, 0x72]"

definition client_name :: "u8 list" where
  "client_name = [0x63, 0x6C, 0x69, 0x65, 0x6E, 0x74]"

text \<open>
  The local array \<open>sms\<close> is array 0, the two local callbacks are the application's number 0. The
  result is the exit code; reaching the end of \<open>main\<close> is 0.
\<close>

definition main :: "u8 list list \<Rightarrow> lib \<Rightarrow> (nat \<times> lib) outcome" where
  "main argv lib =
     (let lib = lib\<lparr>sm_arrays := (sm_arrays lib)(0 := replicate (unat MAX_CONNECTIONS) zero_sm)\<rparr>;
          config_server = \<lparr>instname = server_name @ replicate 4 0, config_role = ROLE_SERVER,
            max_connections = MAX_CONNECTIONS, config_sms = Some 0\<rparr>;
          config_client = \<lparr>instname = client_name @ replicate 4 0, config_role = ROLE_CLIENT,
            max_connections = MAX_CONNECTIONS, config_sms = Some 0\<rparr>;
          vtable = \<lparr>SendSpdu = Some (App_SendSpdu 0), ReceiveMsg = Some (App_ReceiveMsg 0)\<rparr>;
          config = \<lparr>type_vtable = vtable,
            type_config = (if length argv = 2 \<and> argv ! 1 = server_name then config_server else config_client)\<rparr>
      in bindE (Rass_Init_VTable (Some config) lib) (\<lambda>(r, lib).
         if r \<noteq> OK then Inr (1, lib)
         else bindE (Rass_OpenConnection 0 lib) (\<lambda>(_, lib). Inr (0, lib))))"

section \<open>Opening the first connection\<close>

text \<open>An initialised module whose first connection is closed can open it: one event, stored back.\<close>

lemma first_connection:
  assumes "proper_config lib cfg a" and "SafeCom_Init me cfg lib = Inr (OK, lib')" and "wf_world (wmem lib)"
    and "SendSpdu (type_vtable cfg) = Some f" and "0 < unat (max_connections (type_config cfg))"
  shows "operational f \<lparr>self = sm_arrays lib' a ! 0, pdu_of = zero_pdu, mem = wmem lib'\<rparr>"
    and "consistent (sm_arrays lib' a ! 0)" and "sm_state (sm_arrays lib' a ! 0) = STATE_CLOSED"
    and "sm_role (sm_arrays lib' a ! 0) = config_role (type_config cfg)"
    and "sms lib' = Some a" and "0 < length (sm_arrays lib' a)" and "sent (wmem lib') = sent (wmem lib)"
    and "fst (snt_rand_value (wmem lib')) = fst (snt_rand_value (wmem lib))"
proof -
  have "0 < length (sm_arrays lib a)" using assms(1) by (simp add: proper_config_def)
  obtain lib1 where lib1: "SafeCom_Init me cfg lib = Inr (OK, lib1)" "sms lib1 = Some a"
      "length (sm_arrays lib1 a) = length (sm_arrays lib a)"
      "sm_arrays lib1 a ! 0 = set_up (config_role (type_config cfg)) 0 ((sm_arrays lib a ! 0)\<lparr>vtable := Some me,
        sm_time := (sm_time (sm_arrays lib a ! 0))\<lparr>Tlocal := Some GetCurrentTimestamp_fn\<rparr>\<rparr>)"
      "wmem lib1 = (wmem lib)\<lparr>vtables := (vtables (wmem lib))(me := type_vtable cfg)\<rparr>"
    by (rule SafeCom_Init_ok [OF assms(1), of me])
       (rule that; use \<open>0 < length (sm_arrays lib a)\<close> assms(5) in \<open>simp add: Let_def\<close>)
  have lib': "lib' = lib1" using lib1(1) assms(2) by simp
  have sm: "sm_state (sm_arrays lib1 a ! 0) = STATE_CLOSED" "consistent (sm_arrays lib1 a ! 0)"
      "sm_role (sm_arrays lib1 a ! 0) = config_role (type_config cfg)" "vtable (sm_arrays lib1 a ! 0) = Some me"
      "Tlocal (sm_time (sm_arrays lib1 a ! 0)) = Some GetCurrentTimestamp_fn"
    by (simp_all add: lib1(4) consistent_def)
  have "wf_world (wmem lib1)" using assms(3) by (simp add: lib1(5) wf_world_def)
  then show "operational f \<lparr>self = sm_arrays lib' a ! 0, pdu_of = zero_pdu, mem = wmem lib'\<rparr>"
    using sm assms(4) by (simp add: lib' operational_def ready_def attached_def lib1(5))
  show "consistent (sm_arrays lib' a ! 0)" "sm_state (sm_arrays lib' a ! 0) = STATE_CLOSED"
    "sm_role (sm_arrays lib' a ! 0) = config_role (type_config cfg)" "sms lib' = Some a"
    "0 < length (sm_arrays lib' a)" "sent (wmem lib') = sent (wmem lib)"
    "fst (snt_rand_value (wmem lib')) = fst (snt_rand_value (wmem lib))"
    using sm lib1(2,3) \<open>0 < length (sm_arrays lib a)\<close> by (simp_all add: lib' lib1(5) snt_rand_value_def Let_def)
qed

lemma open_first:
  assumes "proper_config lib cfg a" and "SafeCom_Init me cfg lib = Inr (OK, lib')" and "wf_world (wmem lib)"
    and "SendSpdu (type_vtable cfg) = Some f" and "0 < unat (max_connections (type_config cfg))"
  obtains c c' lib2 where "handle_event_at 0 EVENT_OPEN_CONN zero_pdu lib' = Inr lib2"
    and "sm_arrays lib2 a ! 0 = self c'" and "wmem lib2 = mem c'" and "sent (mem c) = sent (wmem lib)"
    and "fst (snt_rand_value (mem c)) = fst (snt_rand_value (wmem lib))"
    and "follows (case config_role (type_config cfg) of ROLE_SERVER \<Rightarrow> Listen | ROLE_CLIENT \<Rightarrow> Connect) f c c'"
    and "sm_role (self c) = config_role (type_config cfg)"
proof -
  note first = first_connection [OF assms]
  let ?c = "\<lparr>self = sm_arrays lib' a ! 0, pdu_of = zero_pdu, mem = wmem lib'\<rparr>"
  have adm: "admissible EVENT_OPEN_CONN ?c" by (simp add: admissible_def)
  have cons: "consistent (self ?c)" using first(2) by simp
  obtain c' where c': "Sm_HandleEvent EVENT_OPEN_CONN ?c = Inr c'" "follows (planned ?c EVENT_OPEN_CONN) f ?c c'"
    by (rule event_step [OF first(1) cons adm])
  have plan: "planned ?c EVENT_OPEN_CONN =
      (case config_role (type_config cfg) of ROLE_SERVER \<Rightarrow> Listen | ROLE_CLIENT \<Rightarrow> Connect)"
    using first(3,4) by (simp add: plan_event_def)
  have "handle_event_at 0 EVENT_OPEN_CONN zero_pdu lib' = Inr (store_connection 0 (self c') (mem c') lib')"
    using handle_event_index [OF first(5), of 0] first(6) c'(1) by simp
  with that [OF this _ _ _ _ c'(2) [unfolded plan]] first(4-8) show thesis by (simp add: store_connection_def)
qed

section \<open>Properties\<close>

text \<open>
  C18. The main program returns 0 with its one connection open: with the single argument
  \<open>server\<close> it listens and has sent nothing, with anything else it is a client that has sent one
  connection request and waits for the response. The sequence numbers start at the random number.
\<close>

theorem main_opens_connection:
  assumes "wf_world w"
  shows "\<exists>lib'. main argv (initial_lib w xss) = Inr (0, lib') \<and>
    (let sm = sm_arrays lib' 0 ! 0 in
     snt sm = fst (snt_rand_value w) \<and>
     (if length argv = 2 \<and> argv ! 1 = server_name
      then sm_role sm = ROLE_SERVER \<and> sm_state sm = STATE_DOWN \<and> sent (wmem lib') = sent w
      else sm_role sm = ROLE_CLIENT \<and> sm_state sm = STATE_START \<and>
        (\<exists>now code. length code = 8 \<and> sent (wmem lib') = sent w @
          [spdu (App_SendSpdu 0) CONNECTION_REQUEST handshake_payload sm now code])))"
proof -
  define server where "server \<longleftrightarrow> length argv = 2 \<and> argv ! 1 = server_name"
  define cfg where "cfg = \<lparr>type_vtable = \<lparr>SendSpdu = Some (App_SendSpdu 0), ReceiveMsg = Some (App_ReceiveMsg 0)\<rparr>,
    type_config = (if server
      then \<lparr>instname = server_name @ replicate 4 0, config_role = ROLE_SERVER, max_connections = MAX_CONNECTIONS,
        config_sms = Some 0\<rparr>
      else \<lparr>instname = client_name @ replicate 4 0, config_role = ROLE_CLIENT, max_connections = MAX_CONNECTIONS,
        config_sms = Some 0\<rparr>)\<rparr>"
  define lib where "lib = (initial_lib w xss)\<lparr>sm_arrays := (sm_arrays (initial_lib w xss))(0 := replicate (unat MAX_CONNECTIONS) zero_sm)\<rparr>"
  let ?lib = "lib\<lparr>initialized := (initialized lib)(RassInstance := True)\<rparr>"
  have cfg: "config_role (type_config cfg) = (if server then ROLE_SERVER else ROLE_CLIENT)"
      "SendSpdu (type_vtable cfg) = Some (App_SendSpdu 0)" "0 < unat (max_connections (type_config cfg))"
    by (simp_all add: cfg_def MAX_CONNECTIONS_def)
  have proper: "proper_config ?lib cfg 0"
    by (simp add: proper_config_def cfg_def lib_def MAX_CONNECTIONS_def)
  have w: "wmem ?lib = w" by (simp add: lib_def initial_lib_def)
  then have wf: "wf_world (wmem ?lib)" using assms by simp
  obtain lib1 where init: "SafeCom_Init RassInstance cfg ?lib = Inr (OK, lib1)"
    by (rule SafeCom_Init_ok [OF proper, of RassInstance])
  obtain c c' lib2 where opened: "handle_event_at 0 EVENT_OPEN_CONN zero_pdu lib1 = Inr lib2"
      "sm_arrays lib2 0 ! 0 = self c'" "wmem lib2 = mem c'" "sent (mem c) = sent w"
      "fst (snt_rand_value (mem c)) = fst (snt_rand_value w)"
      "follows (case config_role (type_config cfg) of ROLE_SERVER \<Rightarrow> Listen | ROLE_CLIENT \<Rightarrow> Connect) (App_SendSpdu 0) c c'"
      "sm_role (self c) = config_role (type_config cfg)"
    by (rule open_first [OF proper init wf cfg(2,3)]) (simp add: w)
  have "Rass_Init_VTable (Some cfg) lib = Inr (OK, lib1)"
    using init by (simp add: Rass_Init_VTable_def cfg_def lib_def initial_lib_def)
  moreover have "main argv (initial_lib w xss) = bindE (Rass_Init_VTable (Some cfg) lib) (\<lambda>(r, lib).
      if r \<noteq> OK then Inr (1, lib) else bindE (Rass_OpenConnection 0 lib) (\<lambda>(_, lib). Inr (0, lib)))"
    by (simp only: main_def Let_def cfg_def lib_def server_def)
  ultimately have main: "main argv (initial_lib w xss) = Inr (0, lib2)"
    using opened(1) by (simp add: Rass_OpenConnection_def SafeCom_defs)
  show ?thesis
  proof (cases server)
    case True
    have step: "follows Listen (App_SendSpdu 0) c c'" using opened(6) True by (simp add: cfg(1))
    show ?thesis
      using main opened(2-5,7) followsD(4,6) [OF step] True [unfolded server_def]
      by (intro exI [of _ lib2]) (simp add: Let_def cfg(1) True)
  next
    case False
    have step: "follows Connect (App_SendSpdu 0) c c'" using opened(6) False by (simp add: cfg(1))
    have "says Connect = Some (CONNECTION_REQUEST, handshake_payload)" by simp
    from followsD(7) [OF step this] obtain code now where "length code = 8"
      "sent (mem c') = sent w @ [spdu (App_SendSpdu 0) CONNECTION_REQUEST handshake_payload (self c') now code]"
      unfolding transmits_def opened(4) using length_code_seen by blast
    moreover have "snt (self c') = fst (snt_rand_value w)" "sm_role (self c') = ROLE_CLIENT" "sm_state (self c') = STATE_START"
      using followsD(4) [OF step] opened(5,7) False by (simp_all add: cfg(1))
    moreover have "\<not> (length argv = 2 \<and> argv ! 1 = server_name)" using False by (simp add: server_def)
    ultimately show ?thesis
      using main opened(2,3) by (intro exI [of _ lib2]) (simp only: Let_def if_False simp_thms, blast)
  qed
qed

theorem main_opens_connection_witness:
  "\<exists>lib'. main [[0x72], server_name] (initial_lib sample_world (\<lambda>_. [])) = Inr (0, lib') \<and>
    sm_state (sm_arrays lib' 0 ! 0) = STATE_DOWN"
  using main_opens_connection [of sample_world "[[0x72], server_name]" "\<lambda>_. []"]
  by (auto simp: sample_world_def Let_def)

text \<open>
  With the callbacks of \<open>mock/\<close> that \<open>Rass_Init\<close> and \<open>Sic_Init\<close> install, every received
  SPDU is reported as received and dropped: the process is left as it was, whatever the bytes.
\<close>

theorem default_callbacks_drop:
  assumes "proper_config lib (\<lparr>type_vtable = RassVTable, type_config = cfg\<rparr>) a" and "p \<noteq> NULL"
    and "\<not> initialized lib RassInstance" and "\<not> initialized lib SicInstance"
  shows "(\<exists>lib1. Rass_Init (Some cfg) lib = Inr (OK, lib1) \<and>
      Rass_ReceiveSpdu (receiver app) nodeId spduLen p lib1 = Inr (OK, lib1)) \<and>
    (\<exists>lib2. Sic_Init (Some cfg) lib = Inr (OK, lib2) \<and>
      Sic_ReceiveSpdu (receiver app) nodeId spduLen p lib2 = Inr (OK, lib2))"
proof -
  obtain lib1 where rass: "Rass_Init (Some cfg) lib = Inr (OK, lib1)" "vtables (wmem lib1) RassInstance = RassVTable"
    using rass.init_default_callbacks [OF assms(3,1)] by blast
  obtain lib2 where sic: "Sic_Init (Some cfg) lib = Inr (OK, lib2)" "vtables (wmem lib2) SicInstance = SicVTable"
    using sic.init_default_callbacks [OF assms(4,1)] by blast
  have "Rass_ReceiveSpdu (receiver app) nodeId spduLen p lib1 = Inr (OK, lib1)"
    using rass(2) assms(2) by (simp add: Rass_ReceiveSpdu_def SafeCom_defs RassVTable_def Fec_ReceiveBtp_def)
  moreover have "Sic_ReceiveSpdu (receiver app) nodeId spduLen p lib2 = Inr (OK, lib2)"
    using sic(2) assms(2) by (simp add: Sic_ReceiveSpdu_def SafeCom_defs SicVTable_def OsCom_ReceiveMsg_def)
  ultimately show ?thesis using rass(1) sic(1) by blast
qed

theorem default_callbacks_drop_witness:
  "\<exists>lib1. Rass_Init (Some (type_config (sample_config ROLE_SERVER 0))) sample_lib = Inr (OK, lib1) \<and>
    Rass_ReceiveSpdu (receiver (\<lambda>_ _ _ _ _. Inl Null_Call)) 0 44 (Ptr (Ext 0) 0) lib1 = Inr (OK, lib1)"
proof -
  have "proper_config sample_lib \<lparr>type_vtable = RassVTable, type_config = type_config (sample_config ROLE_SERVER 0)\<rparr> 0"
    by (simp add: proper_config_def)
  from default_callbacks_drop [OF this, of "Ptr (Ext 0) 0"] show ?thesis by simp
qed

end
