(* ===== verification/Wire.thy ===== *)
theory Wire
  imports Telegram
begin

text \<open>
  Received bytes of any origin: every string of 28 bytes is the header of a PDU, so
  \<open>deserialize_pdu\<close> is described on all inputs, and a well-formed SPDU is the serialisation of
  what it is read as.
\<close>

section \<open>Every header reads as a PDU\<close>

lemma byte_bit: "bit x n \<Longrightarrow> n < 8" for x :: u8
  using bit_imp_le_length [of x n] by simp

lemma split_be16: "be16 (push_bit 8 (ucast a) OR ucast b) = [a, b]" for a b :: u8
proof -
  have "ucast (drop_bit 8 (push_bit 8 (ucast a) OR ucast b :: u16)) = a"
    by (rule bit_word_eqI) (auto simp: bit_simps dest: byte_bit)
  moreover have "ucast (push_bit 8 (ucast a) OR ucast b :: u16) = b"
    by (rule bit_word_eqI) (auto simp: bit_simps dest: byte_bit)
  ultimately show ?thesis by (simp add: be16_def)
qed

lemma split_be32:
  "be32 (push_bit 24 (ucast a) OR push_bit 16 (ucast b) OR push_bit 8 (ucast c) OR ucast d) = [a, b, c, d]"
  for a b c d :: u8
proof -
  let ?v = "push_bit 24 (ucast a) OR push_bit 16 (ucast b) OR push_bit 8 (ucast c) OR ucast d :: u32"
  have "ucast (drop_bit 24 ?v) = a"
    by (rule bit_word_eqI) (auto simp: bit_simps dest: byte_bit)
  moreover have "ucast (drop_bit 16 ?v) = b"
    by (rule bit_word_eqI) (auto simp: bit_simps dest: byte_bit)
  moreover have "ucast (drop_bit 8 ?v) = c"
    by (rule bit_word_eqI) (auto simp: bit_simps dest: byte_bit)
  moreover have "ucast ?v = d"
    by (rule bit_word_eqI) (auto simp: bit_simps dest: byte_bit)
  ultimately show ?thesis by (simp add: be32_def)
qed

text \<open>The big-endian fields of the first 28 bytes.\<close>

definition parsed :: "u8 list \<Rightarrow> PDU_S" where
  "parsed bs =
     (let f16 = (\<lambda>k. push_bit 8 (ucast (bs ! k)) OR ucast (bs ! (k + 1)) :: u16);
          f32 = (\<lambda>k. push_bit 24 (ucast (bs ! k)) OR push_bit 16 (ucast (bs ! (k + 1))) OR
            push_bit 8 (ucast (bs ! (k + 2))) OR ucast (bs ! (k + 3)) :: u32)
      in \<lparr>message_length = f16 0, message_type = ucast (f16 2), receiver_id = f32 4, sender_id = f32 8,
          sequence_number = f32 12, confirmed_sequence_number = f32 16, timestamp = f32 20,
          confirmed_timestamp = f32 24, payload = NULL, safety_code = NULL\<rparr>)"

lemma header_parsed:
  assumes "28 \<le> length bs"
  shows "header (parsed bs) = take 28 bs"
proof -
  have "ucast (ucast v :: u32) = v" for v :: u16
    by (rule bit_word_eqI) (simp add: bit_simps)
  then have "header (parsed bs) = [bs ! 0, bs ! 1, bs ! 2, bs ! 3, bs ! 4, bs ! 5, bs ! 6, bs ! 7, bs ! 8, bs ! 9,
      bs ! 10, bs ! 11, bs ! 12, bs ! 13, bs ! 14, bs ! 15, bs ! 16, bs ! 17, bs ! 18, bs ! 19,
      bs ! 20, bs ! 21, bs ! 22, bs ! 23, bs ! 24, bs ! 25, bs ! 26, bs ! 27]"
    by (simp add: header_def parsed_def split_be16 split_be32)
  also have "\<dots> = map ((!) bs) [0, 1, 2, 3, 4, 5, 6, 7, 8, 9, 10, 11, 12, 13, 14, 15, 16, 17, 18, 19, 20, 21, 22,
      23, 24, 25, 26, 27]" by simp
  also have "[0, 1, 2, 3, 4, 5, 6, 7, 8, 9, 10, 11, 12, 13, 14, 15, 16, 17, 18, 19, 20, 21, 22, 23, 24, 25, 26,
      27] = [0..<28]" by code_simp
  also have "map ((!) bs) [0..<28] = take 28 bs" using assms by (intro nth_equalityI) simp_all
  finally show ?thesis .
qed

section \<open>Deserialisation of any bytes\<close>

text \<open>The length field as the code reads it.\<close>

abbreviation length_field :: "u8 list \<Rightarrow> nat" where
  "length_field bs \<equiv> unat (message_length (parsed bs))"

lemma holds_parsed: "28 \<le> length (ext w n) \<Longrightarrow> holds_at w (Ptr (Ext n) 0) 0 (header (parsed (ext w n)))"
  by (simp add: holds_at_def array_of_def header_parsed)

lemma deserialize_any:
  assumes "36 \<le> sz" and "28 \<le> length (ext w n)"
  shows "deserialize_pdu (Ptr (Ext n) 0) sz pdu w =
    Inr (let h = parsed (ext w n) in
      if sz < unat (message_length h) then decoded h pdu
      else (decoded h pdu)\<lparr>payload := Ptr (Ext n) 28, safety_code := Ptr (Ext n) (28 + payload_length h)\<rparr>, w)"
  using deserialize_pdu_at [OF holds_parsed [OF assms(2)] assms(1), of pdu] by (simp add: Let_def ptr_add_def)

text \<open>
  C11. Printing what was read: for any received SPDU of at least 36 bytes whose length field is
  its size, \<open>serialize_pdu\<close> of the PDU that \<open>deserialize_pdu\<close> fills in writes the same bytes
  again, safety code included, and changes nothing else, whatever the PDU held before.
\<close>

theorem wire_roundtrip:
  assumes "36 \<le> length (ext r n)" and "length_field (ext r n) = length (ext r n)" and "length (ext r n) \<le> length buf"
  shows "\<exists>pdu'. deserialize_pdu (Ptr (Ext n) 0) (length (ext r n)) pdu r = Inr (pdu', r) \<and>
    serialize_pdu pdu' buf (length (ext r n)) r = Inr (ext r n @ drop (length (ext r n)) buf, r)"
proof -
  let ?bs = "ext r n" and ?h = "parsed (ext r n)"
  define pdu' where "pdu' = (decoded ?h pdu)\<lparr>payload := Ptr (Ext n) 28, safety_code := Ptr (Ext n) (28 + payload_length ?h)\<rparr>"
  have des: "deserialize_pdu (Ptr (Ext n) 0) (length ?bs) pdu r = Inr (pdu', r)"
    using assms(1,2) by (subst deserialize_any) (simp_all add: Let_def pdu'_def)
  have ml: "unat (message_length pdu') = length ?bs" and ptrs: "payload pdu' = Ptr (Ext n) 28"
      "safety_code pdu' = Ptr (Ext n) (28 + payload_length ?h)"
    using assms(2) by (simp_all add: pdu'_def decoded_def)
  have pl: "payload_length ?h = length ?bs - 36" using assms(1,2) by (simp add: payload_length_sized)
  have bytes: "payload_bytes pdu' = length ?bs - 36" "code_bytes pdu' = 8"
    using assms(1) ml by (simp_all add: payload_bytes_def code_bytes_def ptrs payload_length_sized)
  have ser: "serialisable r pdu'"
    using assms(1) by (simp add: serialisable_def bytes ptrs pl readable_def array_of_def)
  have "ucast (ucast (ucast (message_type ?h) :: u16) :: u32) = (ucast (message_type ?h) :: u16)"
    by (rule bit_word_eqI) (simp add: bit_simps)
  then have "header pdu' = take 28 ?bs"
    using assms(1) header_parsed [of ?bs] by (simp add: pdu'_def header_def decoded_def)
  moreover have "length ?bs - 36 + (28 + payload_length ?h) = length ?bs - 36 + (length ?bs - 8)"
    using assms(1) by (simp add: pl)
  ultimately have "telegram r pdu' = take 28 ?bs @ take (length ?bs - 36) (drop 28 ?bs) @ take 8 (drop (length ?bs - 8) ?bs)"
    using assms(1) by (simp add: telegram_def bytes ptrs pl seen_bytes_def note_reads_def array_of_def)
  also have "take (length ?bs - 36) (drop 28 ?bs) @ take 8 (drop (length ?bs - 8) ?bs) = drop 28 ?bs"
    using append_take_drop_id [of "length ?bs - 36" "drop 28 ?bs"] assms(1) by simp
  finally have tel: "telegram r pdu' = ?bs" by simp
  have "after_telegram pdu' r = r" by (simp add: after_telegram_def ptrs note_reads_def)
  then have "serialize_pdu pdu' buf (length ?bs) r = Inr (?bs @ drop (length ?bs) buf, r)"
    using assms(3) by (simp add: serialize_pdu_spec ml ser tel overwrite_zero)
  with des show ?thesis by blast
qed

theorem wire_roundtrip_witness:
  "\<exists>pdu'. let r = sample_world\<lparr>ext := \<lambda>_. 0 # 40 # replicate 38 9\<rparr> in
     deserialize_pdu (Ptr (Ext 0) 0) 40 zero_pdu r = Inr (pdu', r) \<and>
     serialize_pdu pdu' (replicate 50 1) 40 r = Inr ((0 # 40 # replicate 38 9) @ replicate 10 1, r)"
proof -
  let ?r = "sample_world\<lparr>ext := \<lambda>_. 0 # 40 # replicate 38 9\<rparr>"
  have "length_field (ext ?r 0) = length (ext ?r 0)" by (simp add: parsed_def)
  from wire_roundtrip [OF _ this, of "replicate 50 1" zero_pdu] show ?thesis by (simp add: Let_def)
qed

end
