(* ===== verification/Interface.thy ===== *)
theory Interface
  imports Program Wire
begin

text \<open>
  The library as its application sees it: sequences of calls of the module \<open>Rass\<close> on its first
  connection, received SPDUs included. A well-formed library takes every proper call and stays
  well-formed, so no sequence of proper calls faults.
\<close>

section \<open>Calls\<close>

text \<open>
  Data to be sent stands in the application's array 1, received bytes in array 0. The message
  and the SPDU are passed with their length.
\<close>

datatype request = Open_request u32 | Close_request u32 | Send_request u32 "u8 list"
  | Receive_request u32 "u8 list" | State_request u32 | Main_request

definition holding :: "nat \<Rightarrow> u8 list \<Rightarrow> lib \<Rightarrow> lib" where
  "holding k bytes lib = lib\<lparr>wmem := (wmem lib)\<lparr>ext := (ext (wmem lib))(k := bytes)\<rparr>\<rparr>"

fun perform :: "receivers \<Rightarrow> request \<Rightarrow> call" where
  "perform app (Open_request i) lib = Rass_OpenConnection i lib"
| "perform app (Close_request i) lib = Rass_CloseConnection i lib"
| "perform app (Send_request i bytes) lib =
     Rass_SendData i (word_of_nat (length bytes)) (Ptr (Ext 1) 0) (holding 1 bytes lib)"
| "perform app (Receive_request i bytes) lib =
     Rass_ReceiveSpdu app i (word_of_nat (length bytes)) (Ptr (Ext 0) 0) (holding 0 bytes lib)"
| "perform app (State_request i) lib = Rass_ConnectionStateRequest i lib"
| "perform app Main_request lib = Rass_Main lib"

fun perform_all :: "receivers \<Rightarrow> request list \<Rightarrow> lib \<Rightarrow> lib outcome" where
  "perform_all app [] lib = Inr lib"
| "perform_all app (x # xs) lib = bindE (perform app x lib) (\<lambda>(_, lib). perform_all app xs lib)"

text \<open>
  Proper calls name the first connection; a message has at most 22 bytes. A received SPDU is
  shorter than a header, or its length field is at least 36 and covered by the bytes, or it is
  truncated and not part of the handshake.
\<close>

definition proper_spdu :: "u8 list \<Rightarrow> bool" where
  "proper_spdu bytes \<longleftrightarrow> length bytes < 2 ^ 32 \<and> (36 \<le> length bytes \<longrightarrow>
     36 \<le> length_field bytes \<and> length_field bytes \<le> length bytes \<or>
     length bytes < length_field bytes \<and>
       message_type (parsed bytes) \<notin> {message_code CONNECTION_REQUEST, message_code CONNECTION_RESPONSE})"

fun proper_request :: "request \<Rightarrow> bool" where
  "proper_request (Open_request i) = (i = 0)"
| "proper_request (Close_request i) = (i = 0)"
| "proper_request (Send_request i bytes) = (i = 0 \<and> length bytes \<le> 22)"
| "proper_request (Receive_request i bytes) = (i = 0 \<and> proper_spdu bytes)"
| "proper_request _ = True"

section \<open>Well-formed libraries\<close>

text \<open>The first connection, as the frame in which an event with the PDU is handled.\<close>

abbreviation first_frame :: "lib \<Rightarrow> nat \<Rightarrow> PDU_S \<Rightarrow> frame" where
  "first_frame lib a pdu \<equiv> \<lparr>self = sm_arrays lib a ! 0, pdu_of = pdu, mem = wmem lib\<rparr>"

definition sound_lib :: "lib \<Rightarrow> bool" where
  "sound_lib lib \<longleftrightarrow> (\<exists>a f g. sms lib = Some a \<and> sm_arrays lib a \<noteq> [] \<and>
     ReceiveMsg (vtables (wmem lib) RassInstance) = Some (App_ReceiveMsg g) \<and>
     operational f (first_frame lib a zero_pdu) \<and> consistent (sm_arrays lib a ! 0))"

lemma sound_lib_stored:
  assumes "sms lib = Some a" and "sm_arrays lib a \<noteq> []"
    and "ReceiveMsg (vtables (wmem lib) RassInstance) = Some (App_ReceiveMsg g)"
    and "operational f c" and "consistent (self c)" and "same_environment (wmem lib) (mem c)"
  shows "sound_lib (store_connection 0 (self c) (mem c) lib)"
proof -
  have "operational f (c\<lparr>pdu_of := zero_pdu\<rparr>)" by (rule operational_pdu [OF assms(4)]) simp
  then have "operational f \<lparr>self = self c, pdu_of = zero_pdu, mem = mem c\<rparr>"
    by (cases c) simp
  with assms show ?thesis
    by (auto simp: sound_lib_def store_connection_def same_environment_def)
qed

lemma sound_lib_holding: "sound_lib lib \<Longrightarrow> sound_lib (holding k bytes lib)"
  by (auto simp: sound_lib_def holding_def operational_def ready_def attached_def wf_world_def)

text \<open>One event on the first connection.\<close>

lemma event_sound:
  assumes lib: "sound_lib lib" and live: "code_live (wmem lib) pdu"
    and adm: "\<And>a. admissible event (first_frame lib a pdu)"
  obtains lib' where "handle_event_at 0 event pdu lib = Inr lib'" and "sound_lib lib'"
proof -
  obtain a f g where a: "sms lib = Some a" "sm_arrays lib a \<noteq> []"
      "ReceiveMsg (vtables (wmem lib) RassInstance) = Some (App_ReceiveMsg g)"
      "operational f (first_frame lib a zero_pdu)" "consistent (sm_arrays lib a ! 0)"
    using lib by (auto simp: sound_lib_def)
  have op: "operational f (first_frame lib a pdu)"
    using operational_pdu [OF a(4), of pdu] live by simp
  have cons: "consistent (self (first_frame lib a pdu))" using a(5) by simp
  obtain c where c: "Sm_HandleEvent event (first_frame lib a pdu) = Inr c"
      "follows (planned (first_frame lib a pdu) event) f (first_frame lib a pdu) c"
    by (rule event_step [OF op cons adm])
  have "handle_event_at 0 event pdu lib = Inr (store_connection 0 (self c) (mem c) lib)"
    using handle_event_index [OF a(1), of 0] a(2) c(1) by simp
  moreover have "sound_lib (store_connection 0 (self c) (mem c) lib)"
    by (rule sound_lib_stored [OF a(1-3) followsD(1,2) [OF c(2)]]) (use followsD(3) [OF c(2)] in simp)
  ultimately show thesis by (rule that)
qed

section \<open>Each call keeps the library well-formed\<close>

lemma send_sound:
  assumes lib: "sound_lib lib" and len: "length bytes \<le> 22"
  obtains lib' where "SafeCom_SendData me 0 (word_of_nat (length bytes)) (Ptr (Ext 1) 0) (holding 1 bytes lib) = Inr (OK, lib')"
    and "sound_lib lib'"
proof -
  let ?lib = "holding 1 bytes lib" and ?n = "ucast (word_of_nat (length bytes) :: u32) :: u8"
  obtain a f g where a: "sms ?lib = Some a" "sm_arrays ?lib a \<noteq> []"
      "ReceiveMsg (vtables (wmem ?lib) RassInstance) = Some (App_ReceiveMsg g)"
      "operational f (first_frame ?lib a zero_pdu)" "consistent (sm_arrays ?lib a ! 0)"
    using sound_lib_holding [OF lib, of 1 bytes] unfolding sound_lib_def by blast
  have n: "unat ?n = length bytes"
    using len by (simp add: unat_length_byte unat_of_nat)
  have held: "ext (wmem ?lib) 1 = bytes" by (simp add: holding_def)
  obtain c1 where c1: "Data ?n (Ptr (Ext 1) 0) (first_frame ?lib a zero_pdu) = Inr c1" "operational f c1"
      "sendable (mem c1) (pdu_of c1)" "self c1 = counted True (sm_arrays ?lib a ! 0)"
      "same_environment (wmem ?lib) (mem c1)"
    by (rule Data_frame [OF a(4), of ?n 0 1]) (use n len held in auto)
  let ?lib1 = "store_connection 0 (self c1) (mem c1) ?lib"
  have cons: "consistent (self c1)" using a(5) c1(4) by (simp add: consistent_def)
  have lib1: "sound_lib ?lib1" by (rule sound_lib_stored [OF a(1-3) c1(2) cons c1(5)])
  have w: "wmem ?lib1 = mem c1" using a(1) by (simp add: store_connection_def)
  have live: "code_live (wmem ?lib1) (pdu_of c1)" unfolding w using c1(2) by (simp add: operational_def ready_def)
  have adm: "admissible EVENT_SEND_DATA (first_frame ?lib1 k (pdu_of c1))" for k
    unfolding w using c1(3) by (simp add: admissible_def)
  obtain lib' where ev: "handle_event_at 0 EVENT_SEND_DATA (pdu_of c1) ?lib1 = Inr lib'" "sound_lib lib'"
    by (rule event_sound [OF lib1 live adm])
  have "SafeCom_SendData me 0 (word_of_nat (length bytes)) (Ptr (Ext 1) 0) ?lib = Inr (OK, lib')"
    using a(1,2) c1(1) ev(1) by (simp add: SafeCom_defs connection_def array_get_ok)
  with that ev(2) show thesis by blast
qed

lemma parsed_type_16: "ucast (ucast (message_type (parsed bs)) :: u16) = message_type (parsed bs)"
  by (simp add: parsed_def Let_def, rule bit_word_eqI) (auto simp: bit_simps dest: byte_bit)

text \<open>What the receive callbacks of the tests do with a proper SPDU: nothing, or one event that can be handled.\<close>

lemma received_proper:
  assumes proper: "proper_spdu bytes"
  obtains pdu where "\<And>lib. deserialize_pdu (Ptr (Ext 0) 0) (unat (word_of_nat (length bytes) :: u32)) zero_pdu
      (wmem (holding 0 bytes lib)) = Inr (pdu, wmem (holding 0 bytes lib))"
    and "\<And>lib. code_live (wmem (holding 0 bytes lib)) pdu"
    and "\<And>event lib a. event \<noteq> EVENT_SEND_DATA \<Longrightarrow>
      (event \<in> {EVENT_RECV_CONN_REQ, EVENT_RECV_CONN_RESP} \<Longrightarrow>
        message_type pdu \<in> {message_code CONNECTION_REQUEST, message_code CONNECTION_RESPONSE}) \<Longrightarrow>
      admissible event (first_frame (holding 0 bytes lib) a pdu)"
proof -
  have len: "unat (word_of_nat (length bytes) :: u32) = length bytes"
    using proper by (simp add: proper_spdu_def unat_of_nat)
  have held: "ext (wmem (holding 0 bytes lib)) 0 = bytes" for lib by (simp add: holding_def)
  show thesis
  proof (cases "length bytes < 36")
    case True
    show thesis
      by (rule that [of zero_pdu])
         (use True in \<open>simp_all add: len deserialize_pdu_short admissible_def\<close>, auto simp: zero_pdu_def)
  next
    case False
    let ?h = "parsed bytes"
    let ?full = "(decoded ?h zero_pdu)\<lparr>payload := Ptr (Ext 0) 28, safety_code := Ptr (Ext 0) (28 + payload_length ?h)\<rparr>"
    let ?pdu = "if length bytes < length_field bytes then decoded ?h zero_pdu else ?full"
    have des: "deserialize_pdu (Ptr (Ext 0) 0) (unat (word_of_nat (length bytes) :: u32)) zero_pdu
        (wmem (holding 0 bytes lib)) = Inr (?pdu, wmem (holding 0 bytes lib))" for lib
      using False deserialize_any [of "length bytes" "wmem (holding 0 bytes lib)" 0 zero_pdu]
      by (simp add: len held Let_def)
    have type: "message_type ?pdu = message_type ?h" by (simp add: deserialized_fields parsed_type_16)
    show thesis
    proof (rule that [OF des])
      fix lib
      show "code_live (wmem (holding 0 bytes lib)) ?pdu"
        using False proper
        by (auto simp: code_live_def code_bytes_def readable_def array_of_def held proper_spdu_def payload_length_sized
            deserialized_fields)
    next
      fix event lib a
      assume "event \<noteq> EVENT_SEND_DATA"
        and hand: "event \<in> {EVENT_RECV_CONN_REQ, EVENT_RECV_CONN_RESP} \<Longrightarrow>
          message_type ?pdu \<in> {message_code CONNECTION_REQUEST, message_code CONNECTION_RESPONSE}"
      moreover have "payload_live (wmem (holding 0 bytes lib)) ?full"
        using False by (simp add: payload_live_def array_of_def held)
      moreover have "length bytes \<ge> length_field bytes" if "event \<in> {EVENT_RECV_CONN_REQ, EVENT_RECV_CONN_RESP}"
        using hand [OF that] False proper type by (auto simp: proper_spdu_def)
      ultimately show "admissible event (first_frame (holding 0 bytes lib) a ?pdu)"
        by (auto simp: admissible_def)
    qed
  qed
qed

lemma server_receives:
  assumes lib: "sound_lib lib" and proper: "proper_spdu bytes"
  shows "\<exists>lib'. server_ReceiveSpdu 0 (word_of_nat (length bytes)) (Ptr (Ext 0) 0) (holding 0 bytes lib) = Inr (OK, lib') \<and>
    sound_lib lib'"
proof -
  let ?lib = "holding 0 bytes lib"
  have sound: "sound_lib ?lib" by (rule sound_lib_holding [OF lib])
  have same: "?lib\<lparr>wmem := wmem ?lib\<rparr> = ?lib" by simp
  obtain pdu where des: "deserialize_pdu (Ptr (Ext 0) 0) (unat (word_of_nat (length bytes) :: u32)) zero_pdu (wmem ?lib) =
      Inr (pdu, wmem ?lib)" and live: "code_live (wmem ?lib) pdu"
    and adm: "\<And>event a. event \<noteq> EVENT_SEND_DATA \<Longrightarrow>
      (event \<in> {EVENT_RECV_CONN_REQ, EVENT_RECV_CONN_RESP} \<Longrightarrow>
        message_type pdu \<in> {message_code CONNECTION_REQUEST, message_code CONNECTION_RESPONSE}) \<Longrightarrow>
      admissible event (first_frame ?lib a pdu)"
    by (rule received_proper [OF proper]) blast
  consider (request) "message_type pdu = message_code CONNECTION_REQUEST"
    | (heartbeat) "message_type pdu = message_code HEARTBEAT"
    | (dropped) "message_type pdu \<notin> {message_code CONNECTION_REQUEST, message_code HEARTBEAT}"
    by blast
  then show ?thesis
  proof cases
    case request
    have "admissible EVENT_RECV_CONN_REQ (first_frame ?lib a pdu)" for a by (rule adm) (simp_all add: request)
    then obtain lib' where "handle_event_at 0 EVENT_RECV_CONN_REQ pdu ?lib = Inr lib'" "sound_lib lib'"
      by (rule event_sound [OF sound live])
    then show ?thesis using request by (simp only: server_ReceiveSpdu_def des bindE_simps Let_def prod.case same) simp
  next
    case heartbeat
    have "admissible EVENT_RECV_HB (first_frame ?lib a pdu)" for a by (rule adm) simp_all
    then obtain lib' where "handle_event_at 0 EVENT_RECV_HB pdu ?lib = Inr lib'" "sound_lib lib'"
      by (rule event_sound [OF sound live])
    then show ?thesis using heartbeat by (simp only: server_ReceiveSpdu_def des bindE_simps Let_def prod.case same) simp
  next
    case dropped
    then show ?thesis using sound by (simp only: server_ReceiveSpdu_def des bindE_simps Let_def prod.case same) simp
  qed
qed

lemma client_receives:
  assumes lib: "sound_lib lib" and proper: "proper_spdu bytes"
  shows "\<exists>lib'. client_ReceiveSpdu 0 (word_of_nat (length bytes)) (Ptr (Ext 0) 0) (holding 0 bytes lib) = Inr (OK, lib') \<and>
    sound_lib lib'"
proof -
  let ?lib = "holding 0 bytes lib"
  have sound: "sound_lib ?lib" by (rule sound_lib_holding [OF lib])
  have same: "?lib\<lparr>wmem := wmem ?lib\<rparr> = ?lib" by simp
  obtain pdu where des: "deserialize_pdu (Ptr (Ext 0) 0) (unat (word_of_nat (length bytes) :: u32)) zero_pdu (wmem ?lib) =
      Inr (pdu, wmem ?lib)" and live: "code_live (wmem ?lib) pdu"
    and adm: "\<And>event a. event \<noteq> EVENT_SEND_DATA \<Longrightarrow>
      (event \<in> {EVENT_RECV_CONN_REQ, EVENT_RECV_CONN_RESP} \<Longrightarrow>
        message_type pdu \<in> {message_code CONNECTION_REQUEST, message_code CONNECTION_RESPONSE}) \<Longrightarrow>
      admissible event (first_frame ?lib a pdu)"
    by (rule received_proper [OF proper]) blast
  show ?thesis
  proof (cases "message_type pdu = message_code CONNECTION_RESPONSE")
    case True
    have "admissible EVENT_RECV_CONN_RESP (first_frame ?lib a pdu)" for a by (rule adm) (simp_all add: True)
    then obtain lib' where "handle_event_at 0 EVENT_RECV_CONN_RESP pdu ?lib = Inr lib'" "sound_lib lib'"
      by (rule event_sound [OF sound live])
    then show ?thesis using True by (simp only: client_ReceiveSpdu_def des bindE_simps Let_def prod.case same) simp
  next
    case False
    then show ?thesis using sound by (simp only: client_ReceiveSpdu_def des bindE_simps Let_def prod.case same) simp
  qed
qed

lemma perform_sound:
  assumes "sound_lib lib" and "proper_request x" and app: "app \<in> {server_ReceiveSpdu, client_ReceiveSpdu}"
  shows "\<exists>lib'. perform (receiver (\<lambda>_. app)) x lib = Inr (OK, lib') \<and> sound_lib lib'"
proof (cases x)
  case (Open_request i)
  have adm: "admissible EVENT_OPEN_CONN (first_frame lib a zero_pdu)" for a by (simp add: admissible_def)
  obtain lib' where "handle_event_at 0 EVENT_OPEN_CONN zero_pdu lib = Inr lib'" "sound_lib lib'"
    by (rule event_sound [OF assms(1) zero_pdu_live adm])
  then show ?thesis using assms(2) by (simp add: Open_request Rass_OpenConnection_def SafeCom_defs)
next
  case (Close_request i)
  have adm: "admissible EVENT_CLOSE_CONN (first_frame lib a zero_pdu)" for a by (simp add: admissible_def)
  obtain lib' where "handle_event_at 0 EVENT_CLOSE_CONN zero_pdu lib = Inr lib'" "sound_lib lib'"
    by (rule event_sound [OF assms(1) zero_pdu_live adm])
  then show ?thesis using assms(2) by (simp add: Close_request Rass_CloseConnection_def SafeCom_defs)
next
  case (Send_request i bytes)
  then have len: "length bytes \<le> 22" "i = 0" using assms(2) by simp_all
  obtain lib' where "SafeCom_SendData RassInstance 0 (word_of_nat (length bytes)) (Ptr (Ext 1) 0) (holding 1 bytes lib) = Inr (OK, lib')"
      "sound_lib lib'"
    by (rule send_sound [OF assms(1) len(1), of RassInstance])
  then show ?thesis by (simp add: Send_request len(2) Rass_SendData_def)
next
  case (Receive_request i bytes)
  then have proper: "proper_spdu bytes" "i = 0" using assms(2) by simp_all
  obtain g where g: "ReceiveMsg (vtables (wmem (holding 0 bytes lib)) RassInstance) = Some (App_ReceiveMsg g)"
    using assms(1) by (auto simp: sound_lib_def holding_def)
  have "\<exists>lib'. app 0 (word_of_nat (length bytes)) (Ptr (Ext 0) 0) (holding 0 bytes lib) = Inr (OK, lib') \<and> sound_lib lib'"
    using app server_receives [OF assms(1) proper(1)] client_receives [OF assms(1) proper(1)] by auto
  then show ?thesis
    by (auto simp: Receive_request proper(2) Rass_ReceiveSpdu_def SafeCom_defs g)
next
  case (State_request i)
  then show ?thesis
    using assms(1) by (simp add: Rass_ConnectionStateRequest_def SafeCom_ConnectionStateRequest_def SafeCom_ConnectionStateRequest_Impl_def)
next
  case Main_request
  then show ?thesis using assms(1) by (simp add: Rass_Main_def SafeCom_Main_def SafeCom_Main_Impl_def)
qed

lemma perform_all_sound:
  "sound_lib lib \<Longrightarrow> list_all proper_request xs \<Longrightarrow> app \<in> {server_ReceiveSpdu, client_ReceiveSpdu} \<Longrightarrow>
   \<exists>lib'. perform_all (receiver (\<lambda>_. app)) xs lib = Inr lib' \<and> sound_lib lib'"
proof (induction xs arbitrary: lib)
  case Nil
  then show ?case by simp
next
  case (Cons x xs)
  obtain lib1 where lib1: "perform (receiver (\<lambda>_. app)) x lib = Inr (OK, lib1)" "sound_lib lib1"
    using perform_sound [of lib x app] Cons.prems by auto
  show ?case using Cons.IH [OF lib1(2)] Cons.prems lib1(1) by simp
qed

lemma Rass_initialised_sound:
  assumes "proper_config lib cfg a" and "\<not> initialized lib RassInstance" and "wf_world (wmem lib)"
    and "SendSpdu (type_vtable cfg) = Some f" and "ReceiveMsg (type_vtable cfg) = Some (App_ReceiveMsg g)"
    and "0 < unat (max_connections (type_config cfg))"
  obtains lib1 where "Rass_Init_VTable (Some cfg) lib = Inr (OK, lib1)" and "sound_lib lib1"
proof -
  let ?lib = "lib\<lparr>initialized := (initialized lib)(RassInstance := True)\<rparr>"
  have proper: "proper_config ?lib cfg a" and wf: "wf_world (wmem ?lib)" using assms(1,3) by (simp_all add: proper_config_def)
  obtain lib1 where init: "SafeCom_Init RassInstance cfg ?lib = Inr (OK, lib1)"
    and w: "vtables (wmem lib1) RassInstance = type_vtable cfg"
    by (rule SafeCom_Init_ok [OF proper, of RassInstance]) simp
  note first = first_connection [OF proper init wf assms(4,6)]
  have "sound_lib lib1" using first(1,2,5,6) w assms(5) by (auto simp: sound_lib_def)
  moreover have "Rass_Init_VTable (Some cfg) lib = Inr (OK, lib1)"
    using init assms(2,4,5) by (simp add: rass.init_vtable_law)
  ultimately show thesis using that by blast
qed

section \<open>Properties\<close>

text \<open>
  C5. The library is type safe: after \<open>Rass_Init_VTable\<close> with a proper configuration and callbacks
  of the application, no sequence of proper calls on the first connection faults, whatever the
  order of opening, closing, sending and receiving and whatever is in the received SPDUs; each
  call returns \<open>OK\<close> and leaves the connection with its clock, callbacks and the right handler.
\<close>

theorem proper_calls_never_fault:
  assumes "proper_config lib cfg a" and "\<not> initialized lib RassInstance" and "wf_world (wmem lib)"
    and "SendSpdu (type_vtable cfg) = Some f" and "ReceiveMsg (type_vtable cfg) = Some (App_ReceiveMsg g)"
    and "0 < unat (max_connections (type_config cfg))"
    and "list_all proper_request calls" and "app \<in> {server_ReceiveSpdu, client_ReceiveSpdu}"
  shows "\<exists>lib1 lib2. Rass_Init_VTable (Some cfg) lib = Inr (OK, lib1) \<and> sound_lib lib1 \<and>
    perform_all (receiver (\<lambda>_. app)) calls lib1 = Inr lib2 \<and> sound_lib lib2"
proof -
  obtain lib1 where "Rass_Init_VTable (Some cfg) lib = Inr (OK, lib1)" "sound_lib lib1"
    by (rule Rass_initialised_sound [OF assms(1-6)])
  with perform_all_sound [OF _ assms(7,8)] show ?thesis by blast
qed

theorem proper_calls_never_fault_witness:
  "\<exists>lib1 lib2. Rass_Init_VTable (Some (sample_config ROLE_SERVER 0)) sample_lib = Inr (OK, lib1) \<and>
    perform_all (receiver (\<lambda>_. server_ReceiveSpdu))
      [Open_request 0, Receive_request 0 [1, 2, 3], Send_request 0 [7], Main_request, Close_request 0] lib1 = Inr lib2"
proof -
  have "wf_world (wmem sample_lib)" by (simp add: sample_world_def)
  moreover have "list_all proper_request
      [Open_request 0, Receive_request 0 [1, 2, 3], Send_request 0 [7], Main_request, Close_request 0]"
    by (simp add: proper_spdu_def)
  ultimately show ?thesis
    using proper_calls_never_fault [OF sample_proper [of ROLE_SERVER 0], of "App_SendSpdu 0" 0
        "[Open_request 0, Receive_request 0 [1, 2, 3], Send_request 0 [7], Main_request, Close_request 0]" server_ReceiveSpdu]
    by auto
qed

end
