(* ===== verification/Sm_Closing.thy ===== *)
theory Sm_Closing
  imports Sm_Theorems
begin

text \<open>
  The end of a connection: what a closed connection reacts to, what the user's closing confirms
  to the peer, and what happens to the telegrams that arrive while a retransmission is awaited.
\<close>

section \<open>Events that change nothing\<close>

lemma ignored:
  assumes "follows Ignore f c c'" and "consistent (self c)"
  shows "self c' = self c" and "sent (mem c') = sent (mem c)"
  using followsD(4,6) [OF assms(1)] assms(2) by (simp_all add: dispatched_def consistent_def)

lemma closed_ignores:
  "sm_state (self c) = STATE_CLOSED \<Longrightarrow> event \<notin> {EVENT_OPEN_CONN, EVENT_TI_ELAPSED} \<Longrightarrow> planned c event = Ignore"
  by (cases event) (simp_all add: plan_event_def)

lemma retr_req_ignores:
  "sm_state (self c) = STATE_RETR_REQ \<Longrightarrow> event \<in> {EVENT_RECV_HB, EVENT_RECV_DATA, EVENT_RECV_RETR_DATA} \<Longrightarrow>
   planned c event = Ignore"
  by (auto simp: plan_event_def)

section \<open>Properties\<close>

text \<open>
  C24. A closed connection stays as it is until it is opened: over any history without an open
  request and without the inactivity timer, whatever arrives, is sent or is closed again, the
  connection does not change and nothing is sent.
\<close>

theorem closed_until_opened:
  assumes "history c0 es c" and "operational f c0" and "consistent (self c0)"
    and "sm_state (self c0) = STATE_CLOSED"
    and "fst ` set es \<inter> {EVENT_OPEN_CONN, EVENT_TI_ELAPSED} = {}"
  shows "self c = self c0 \<and> sent (mem c) = sent (mem c0)"
  using assms
proof (induction rule: history.induct)
  case history_start
  then show ?case by simp
next
  case (history_event es c pdu event c')
  let ?c = "c\<lparr>pdu_of := pdu\<rparr>"
  have IH: "self c = self c0" "sent (mem c) = sent (mem c0)"
    using history_event.IH history_event.prems by auto
  have kept: "operational f c" "consistent (self c)"
    using history_kept [OF history_event.hyps(1) history_event.prems(1,2)] by simp_all
  have op: "operational f ?c" "consistent (self ?c)"
    using operational_pdu [OF kept(1) history_event.hyps(2)] kept(2) by simp_all
  have "planned ?c event = Ignore"
    by (rule closed_ignores) (use history_event.prems IH(1) in auto)
  then have "follows Ignore f ?c c'"
    using event_result [OF op history_event.hyps(3,4)] by metis
  from ignored [OF this op(2)] IH show ?case by simp
qed

theorem closed_until_opened_witness:
  "\<exists>c. history (sample_frame ROLE_SERVER STATE_CLOSED zero_pdu) [(EVENT_RECV_DATA, zero_pdu)] c \<and>
    sm_state (self c) = STATE_CLOSED \<and> sent (mem c) = []"
proof -
  let ?c = "sample_frame ROLE_SERVER STATE_CLOSED zero_pdu"
  have op: "operational (App_SendSpdu 0) ?c" by (rule sample_operational) simp
  have same: "?c\<lparr>pdu_of := zero_pdu\<rparr> = ?c" by (simp add: sample_frame_def)
  have adm: "admissible EVENT_RECV_DATA (?c\<lparr>pdu_of := zero_pdu\<rparr>)"
    by (simp add: admissible_def)
  obtain c where "Sm_HandleEvent EVENT_RECV_DATA (?c\<lparr>pdu_of := zero_pdu\<rparr>) = Inr c"
    by (rule event_step [OF _ _ adm, of "App_SendSpdu 0"]) (simp_all only: same op sample_fields)
  from history_event [OF history_start zero_pdu_live adm this]
  have h: "history ?c [(EVENT_RECV_DATA, zero_pdu)] c" by simp
  from closed_until_opened [OF h op sample_fields(3)] h show ?thesis
    by (auto simp: sample_memory_def sample_world_def initial_world_def)
qed

text \<open>
  The user's closing confirms sequence number 0: \<open>SafeCom_CloseConnection_Impl\<close> hands a zeroed
  PDU to the state machine, \<open>close_connection\<close> takes its sequence number for the one to confirm,
  and the disconnection request goes out with it, whatever the connection had received.
\<close>

theorem user_close_confirms_zero:
  assumes "operational f c" and "consistent (self c)" and "pdu_of c = zero_pdu"
    and "sm_state (self c) \<in> {STATE_START, STATE_UP, STATE_RETR_REQ, STATE_RETR_RUN}"
  shows "\<exists>c' now code. Sm_HandleEvent EVENT_CLOSE_CONN c = Inr c' \<and> sm_state (self c') = STATE_CLOSED \<and>
    sent (mem c') = sent (mem c) @ [spdu f DISCONNECTION_REQUEST (disc_payload USER_REQUEST 0) (self c') now code] \<and>
    confirmed_sequence_number (outgoing DISCONNECTION_REQUEST NULL 4 (self c') now) = 0"
proof -
  have adm: "admissible EVENT_CLOSE_CONN c" by (simp add: admissible_def)
  obtain c' where c': "Sm_HandleEvent EVENT_CLOSE_CONN c = Inr c'" "follows (planned c EVENT_CLOSE_CONN) f c c'"
    by (rule event_step [OF assms(1,2) adm])
  have plan: "planned c EVENT_CLOSE_CONN = Refuse USER_REQUEST"
    using assms(4) by (auto simp: plan_event_def)
  have says: "says (Refuse USER_REQUEST) = Some (DISCONNECTION_REQUEST, disc_payload USER_REQUEST 0)" by simp
  note f = followsD(4) [OF c'(2), unfolded plan] followsD(7) [OF c'(2), unfolded plan, OF says]
  have "cst (self c') = 0" "sm_state (self c') = STATE_CLOSED"
    using f(1) assms(3) by (simp_all add: after_simps)
  with c'(1) f(2) show ?thesis by (auto simp: transmits_def outgoing_def)
qed

theorem user_close_confirms_zero_witness:
  "\<exists>c'. Sm_HandleEvent EVENT_CLOSE_CONN (sample_frame ROLE_CLIENT STATE_UP zero_pdu) = Inr c' \<and>
    sm_state (self c') = STATE_CLOSED"
  using user_close_confirms_zero [OF sample_operational [OF zero_pdu_null(1), of ROLE_CLIENT STATE_UP] sample_fields(3)]
  by auto

text \<open>
  While a retransmission is awaited, heartbeats, data and retransmitted data that arrive are
  dropped without a trace: the connection and its sequence numbers stay as they are, nothing is
  sent, even when the PDU is the one that was missing.
\<close>

theorem awaiting_retransmission_drops:
  assumes "operational f c" and "consistent (self c)" and "sm_state (self c) = STATE_RETR_REQ"
    and "event \<in> {EVENT_RECV_HB, EVENT_RECV_DATA, EVENT_RECV_RETR_DATA}"
  shows "\<exists>c'. Sm_HandleEvent event c = Inr c' \<and> self c' = self c \<and> sent (mem c') = sent (mem c) \<and>
    clock_calls (mem c') = clock_calls (mem c)"
proof -
  have adm: "admissible event c" using assms(4) by (auto simp: admissible_def)
  obtain c' where c': "Sm_HandleEvent event c = Inr c'" "follows (planned c event) f c c'"
    by (rule event_step [OF assms(1,2) adm])
  have step: "follows Ignore f c c'" using c'(2) retr_req_ignores [OF assms(3,4)] by metis
  from c'(1) ignored [OF step assms(2)] followsD(5) [OF step] show ?thesis by simp
qed

theorem awaiting_retransmission_drops_witness:
  "\<exists>c'. Sm_HandleEvent EVENT_RECV_DATA (sample_frame ROLE_SERVER STATE_RETR_REQ zero_pdu) = Inr c' \<and>
    snr (self c') = 0"
proof -
  have "snr (sample_sm ROLE_SERVER STATE_RETR_REQ) = 0"
    by (simp add: sample_sm_def Sm_Init_def Let_def set_initial_values_def)
  then have "snr (self (sample_frame ROLE_SERVER STATE_RETR_REQ zero_pdu)) = 0" by (simp add: sample_frame_def)
  with awaiting_retransmission_drops [OF sample_operational [OF zero_pdu_null(1)] sample_fields(3,2), of EVENT_RECV_DATA ROLE_SERVER]
  show ?thesis by auto
qed

end
