(* ===== verification/Connections.thy ===== *)
theory Connections
  imports Interface Sm_Closing
begin

text \<open>
  Several connections in one library. They share the callbacks, the static buffers, the clock and
  the seed of the start numbers, and are otherwise kept apart by the index into the array \<open>sms\<close>: what
  happens on one does not concern another, once each has its clock and its callbacks.
\<close>

section \<open>A library whose connections are all in working order\<close>

abbreviation nth_frame :: "lib \<Rightarrow> nat \<Rightarrow> nat \<Rightarrow> PDU_S \<Rightarrow> frame" where
  "nth_frame lib a i pdu \<equiv> \<lparr>self = sm_arrays lib a ! i, pdu_of = pdu, mem = wmem lib\<rparr>"

definition in_order :: "send_fn \<Rightarrow> nat \<Rightarrow> nat \<Rightarrow> lib \<Rightarrow> bool" where
  "in_order f a n lib \<longleftrightarrow> sms lib = Some a \<and> n \<le> length (sm_arrays lib a) \<and>
     (\<forall>i < n. operational f (nth_frame lib a i zero_pdu) \<and> consistent (sm_arrays lib a ! i) \<and>
        channel (sm_arrays lib a ! i) = word_of_nat i)"

lemma in_orderD:
  assumes "in_order f a n lib"
  shows "sms lib = Some a" and "n \<le> length (sm_arrays lib a)"
    and "i < n \<Longrightarrow> operational f (nth_frame lib a i zero_pdu)" and "i < n \<Longrightarrow> consistent (sm_arrays lib a ! i)"
    and "i < n \<Longrightarrow> channel (sm_arrays lib a ! i) = word_of_nat i"
  using assms by (simp_all add: in_order_def)

lemma in_order_operational:
  "in_order f a n lib \<Longrightarrow> i < n \<Longrightarrow> code_live (wmem lib) pdu \<Longrightarrow> operational f (nth_frame lib a i pdu)"
  using operational_pdu [of f "nth_frame lib a i zero_pdu" pdu] in_orderD(3) by auto

text \<open>One connection and the memory are replaced.\<close>

lemma stored_at:
  assumes "sms lib = Some a" and "unat i < length (sm_arrays lib a)"
  shows "sms (store_connection i sm w lib) = Some a" and "wmem (store_connection i sm w lib) = w"
    and "sm_arrays (store_connection i sm w lib) a = (sm_arrays lib a)[unat i := sm]"
  using assms by (simp_all add: store_connection_def)

lemma in_order_stored:
  assumes lib: "in_order f a n lib" and i: "unat i < n" and op: "operational f c" and cons: "consistent (self c)"
    and chan: "channel (self c) = word_of_nat (unat i)" and env: "same_environment (wmem lib) (mem c)"
  shows "in_order f a n (store_connection i (self c) (mem c) lib)"
proof -
  let ?lib = "store_connection i (self c) (mem c) lib"
  have len: "unat i < length (sm_arrays lib a)" using i in_orderD(2) [OF lib] by simp
  note at = stored_at [OF in_orderD(1) [OF lib] len]
  have "operational f (nth_frame ?lib a k zero_pdu) \<and> consistent (sm_arrays ?lib a ! k) \<and>
      channel (sm_arrays ?lib a ! k) = word_of_nat k" if k: "k < n" for k
  proof (cases "k = unat i")
    case True
    have "operational f \<lparr>self = self c, pdu_of = zero_pdu, mem = mem c\<rparr>"
      using operational_pdu [OF op, of zero_pdu] by (cases c) simp
    then show ?thesis using True cons chan len by (simp add: at)
  next
    case False
    have "wf_world (mem c)" using op by (simp add: operational_def ready_def)
    moreover have "operational f (nth_frame lib a k zero_pdu)" by (rule in_orderD(3) [OF lib k])
    ultimately have "operational f \<lparr>self = sm_arrays lib a ! k, pdu_of = zero_pdu, mem = mem c\<rparr>"
      using env by (simp add: operational_def ready_def attached_def same_environment_def)
    then show ?thesis using False in_orderD(4,5) [OF lib k] by (simp add: at)
  qed
  then show ?thesis using at(1,3) in_orderD(2) [OF lib] by (simp add: in_order_def)
qed

section \<open>What one event leaves of the other connections\<close>

text \<open>Nothing of connection \<open>j\<close> changes, and nothing is sent in its name.\<close>

definition untouched :: "nat \<Rightarrow> nat \<Rightarrow> lib \<Rightarrow> lib \<Rightarrow> bool" where
  "untouched a j lib lib' \<longleftrightarrow> sm_arrays lib' a ! j = sm_arrays lib a ! j \<and>
     (\<exists>log. sent (wmem lib') = sent (wmem lib) @ log \<and> (\<forall>call \<in> set log. call_node call \<noteq> word_of_nat j))"

lemma untouched_refl: "untouched a j lib lib"
  by (simp add: untouched_def)

lemma untouched_trans: "untouched a j lib lib' \<Longrightarrow> untouched a j lib' lib'' \<Longrightarrow> untouched a j lib lib''"
  unfolding untouched_def by fastforce

lemma event_in_order:
  assumes lib: "in_order f a n lib" and i: "unat i < n" and live: "code_live (wmem lib) pdu"
    and adm: "admissible event (nth_frame lib a (unat i) pdu)"
  obtains c' where "handle_event_at i event pdu lib = Inr (store_connection i (self c') (mem c') lib)"
    and "follows (planned (nth_frame lib a (unat i) pdu) event) f (nth_frame lib a (unat i) pdu) c'"
    and "in_order f a n (store_connection i (self c') (mem c') lib)"
proof -
  let ?c = "nth_frame lib a (unat i) pdu"
  have len: "unat i < length (sm_arrays lib a)" using i in_orderD(2) [OF lib] by simp
  have cons: "consistent (self ?c)" using in_orderD(4) [OF lib i] by simp
  obtain c' where c': "Sm_HandleEvent event ?c = Inr c'" "follows (planned ?c event) f ?c c'"
    by (rule event_step [OF in_order_operational [OF lib i live] cons adm])
  have env: "same_environment (wmem lib) (mem c')" using followsD(3) [OF c'(2)] by simp
  have chan: "channel (self c') = word_of_nat (unat i)"
    using followsD(4) [OF c'(2)] in_orderD(5) [OF lib i] by (simp add: after_kept)
  have "in_order f a n (store_connection i (self c') (mem c') lib)"
    by (rule in_order_stored [OF lib i followsD(1,2) [OF c'(2)] chan env])
  moreover have "handle_event_at i event pdu lib = Inr (store_connection i (self c') (mem c') lib)"
    using handle_event_index [OF in_orderD(1) [OF lib] len] c'(1) by simp
  ultimately show thesis using that c'(2) by blast
qed

lemma event_untouched:
  assumes lib: "in_order f a n lib" and i: "unat i < n" and j: "j < n" "j \<noteq> unat i" and n: "n \<le> 2 ^ 32"
    and step: "follows p f (nth_frame lib a (unat i) pdu) c'"
  shows "untouched a j lib (store_connection i (self c') (mem c') lib)"
proof -
  have len: "unat i < length (sm_arrays lib a)" using i in_orderD(2) [OF lib] by simp
  note at = stored_at [OF in_orderD(1) [OF lib] len]
  obtain log where log: "sent (mem c') = sent (wmem lib) @ log" "\<forall>call \<in> set log. call_node call = word_of_nat (unat i)"
    using event_sent [OF step] in_orderD(5) [OF lib i] by (metis frame.select_convs(1,3))
  have "word_of_nat (unat i) \<noteq> (word_of_nat j :: u32)"
  proof
    assume "word_of_nat (unat i) = (word_of_nat j :: u32)"
    then have "unat (word_of_nat j :: u32) = unat i" by simp
    then show False using j n by (simp add: unat_of_nat)
  qed
  then show ?thesis using log j(2) by (auto simp: untouched_def at)
qed

text \<open>Only opening a closed connection draws a start number.\<close>

lemma opens_only:
  "opens (plan_event role v s event) \<longleftrightarrow> event = EVENT_OPEN_CONN \<and> s = STATE_CLOSED"
  by (cases event; cases s; cases role) (auto simp: opens_def plan_event_def judged_def)

lemma send_in_order:
  assumes lib: "in_order f a n lib" and i: "unat i < n" and fits: "unat msgLen mod 256 \<le> 22"
    and arr: "off + unat msgLen mod 256 \<le> length (ext (wmem lib) k)"
  obtains lib' where "SafeCom_SendData me i msgLen (Ptr (Ext k) off) lib = Inr (OK, lib')" and "in_order f a n lib'"
    and "n \<le> 2 ^ 32 \<longrightarrow> (\<forall>j < n. j \<noteq> unat i \<longrightarrow> untouched a j lib lib')" and "seed (wmem lib') = seed (wmem lib)"
proof -
  let ?c = "nth_frame lib a (unat i) zero_pdu" and ?n = "ucast msgLen :: u8"
  have len: "unat i < length (sm_arrays lib a)" using i in_orderD(2) [OF lib] by simp
  note sms = in_orderD(1) [OF lib]
  obtain c1 where c1: "Data ?n (Ptr (Ext k) off) ?c = Inr c1" "operational f c1" "sendable (mem c1) (pdu_of c1)"
      "self c1 = counted True (self ?c)" "sent (mem c1) = sent (wmem lib)" "same_environment (wmem lib) (mem c1)"
      "seed (mem c1) = seed (wmem lib)"
    by (rule Data_frame [OF in_orderD(3) [OF lib i], of ?n off k]) (use fits arr in \<open>auto simp: unat_length_byte\<close>)
  let ?lib1 = "store_connection i (self c1) (mem c1) lib"
  have kept: "consistent (self c1)" "channel (self c1) = word_of_nat (unat i)"
    using in_orderD(4,5) [OF lib i] c1(4) by (simp_all add: consistent_def counted_def)
  have lib1: "in_order f a n ?lib1" by (rule in_order_stored [OF lib i c1(2) kept c1(6)])
  note at = stored_at [OF sms len, of "self c1" "mem c1"]
  have live: "code_live (wmem ?lib1) (pdu_of c1)" using c1(2) by (simp add: at operational_def ready_def)
  have adm: "admissible EVENT_SEND_DATA (nth_frame ?lib1 a (unat i) (pdu_of c1))"
    using c1(3) by (simp add: at admissible_def)
  obtain c2 where ev: "handle_event_at i EVENT_SEND_DATA (pdu_of c1) ?lib1 = Inr (store_connection i (self c2) (mem c2) ?lib1)"
      "follows (planned (nth_frame ?lib1 a (unat i) (pdu_of c1)) EVENT_SEND_DATA) f (nth_frame ?lib1 a (unat i) (pdu_of c1)) c2"
      "in_order f a n (store_connection i (self c2) (mem c2) ?lib1)"
    by (rule event_in_order [OF lib1 i live adm])
  let ?lib2 = "store_connection i (self c2) (mem c2) ?lib1"
  have "SafeCom_SendData me i msgLen (Ptr (Ext k) off) lib = Inr (OK, ?lib2)"
    using sms len c1(1) ev(1) by (simp add: SafeCom_defs connection_def array_get_ok)
  moreover have "untouched a j lib ?lib2" if "n \<le> 2 ^ 32" "j < n" "j \<noteq> unat i" for j
  proof -
    have "untouched a j lib ?lib1" using that(3) c1(5) by (simp add: untouched_def at)
    then show ?thesis by (rule untouched_trans) (rule event_untouched [OF lib1 i that(2,3,1) ev(2)])
  qed
  moreover have "seed (wmem ?lib2) = seed (wmem lib)"
    using followsD(9) [OF ev(2)] c1(7) at stored_at(2) [OF at(1), of i "self c2" "mem c2"] len 
    by (simp add: opens_only)
  ultimately show thesis using that ev(3) by blast
qed

section \<open>Sequences of events on several connections\<close>

text \<open>
  The indices of the connections that are used, in order: events with a readable PDU, calls of
  \<open>SafeCom_SendData\<close>, and in between the application writes to its arrays.
\<close>

inductive happens :: "inst \<Rightarrow> nat \<Rightarrow> lib \<Rightarrow> u32 list \<Rightarrow> lib \<Rightarrow> bool" for me a lib where
  happens_nothing: "happens me a lib [] lib"
| happens_event: "happens me a lib is l \<Longrightarrow> code_live (wmem l) pdu \<Longrightarrow> admissible event (nth_frame l a (unat i) pdu) \<Longrightarrow>
    handle_event_at i event pdu l = Inr l' \<Longrightarrow> happens me a lib (is @ [i]) l'"
| happens_send: "happens me a lib is l \<Longrightarrow> unat msgLen mod 256 \<le> 22 \<Longrightarrow>
    off + unat msgLen mod 256 \<le> length (ext (wmem l) k) \<Longrightarrow>
    SafeCom_SendData me i msgLen (Ptr (Ext k) off) l = Inr (r, l') \<Longrightarrow> happens me a lib (is @ [i]) l'"
| happens_input: "happens me a lib is l \<Longrightarrow> happens me a lib is (l\<lparr>wmem := (wmem l)\<lparr>ext := e\<rparr>\<rparr>)"

lemma in_order_input: "in_order f a n l \<Longrightarrow> in_order f a n (l\<lparr>wmem := (wmem l)\<lparr>ext := e\<rparr>\<rparr>)"
  by (auto simp: in_order_def operational_def ready_def attached_def wf_world_def)

lemma happens_kept:
  assumes "happens me a lib is l" and "in_order f a n lib" and "n \<le> 2 ^ 32" and "\<forall>i \<in> set is. unat i < n"
  shows "in_order f a n l \<and> (\<forall>j < n. j \<notin> unat ` set is \<longrightarrow> untouched a j lib l)"
  using assms
proof (induction rule: happens.induct)
  case happens_nothing
  then show ?case by (simp add: untouched_refl)
next
  case (happens_event "is" l pdu event i l')
  have l: "in_order f a n l" "\<forall>j < n. j \<notin> unat ` set is \<longrightarrow> untouched a j lib l" and i: "unat i < n"
    using happens_event.IH happens_event.prems by auto
  obtain c' where c': "handle_event_at i event pdu l = Inr (store_connection i (self c') (mem c') l)"
      "follows (planned (nth_frame l a (unat i) pdu) event) f (nth_frame l a (unat i) pdu) c'"
      "in_order f a n (store_connection i (self c') (mem c') l)"
    by (rule event_in_order [OF l(1) i happens_event.hyps(2,3)])
  have "untouched a j l l'" if "j < n" "j \<noteq> unat i" for j
    using event_untouched [OF l(1) i that happens_event.prems(2) c'(2)] c'(1) happens_event.hyps(4) by simp
  then show ?case using l(2) c'(1,3) happens_event.hyps(4) untouched_trans by fastforce
next
  case (happens_send "is" l msgLen off k i r l')
  have l: "in_order f a n l" "\<forall>j < n. j \<notin> unat ` set is \<longrightarrow> untouched a j lib l" and i: "unat i < n"
    using happens_send.IH happens_send.prems by auto
  obtain l2 where l2: "SafeCom_SendData me i msgLen (Ptr (Ext k) off) l = Inr (OK, l2)" "in_order f a n l2"
      "n \<le> 2 ^ 32 \<longrightarrow> (\<forall>j < n. j \<noteq> unat i \<longrightarrow> untouched a j l l2)"
    by (rule send_in_order [OF l(1) i happens_send.hyps(2,3)])
  have "l' = l2" using l2(1) happens_send.hyps(4) by simp
  then show ?case using l(2) l2(2,3) happens_send.prems(2) untouched_trans by fastforce
next
  case (happens_input "is" l e)
  then show ?case using in_order_input [of f a n l e] by (auto simp: untouched_def)
qed

text \<open>
  Initialisation leaves all connections in working order when the application has put a clock and
  the instance into those that \<open>SafeCom_Init_Impl\<close> does not provide with them.
\<close>

definition prepared_array :: "inst \<Rightarrow> nat \<Rightarrow> SmType list \<Rightarrow> bool" where
  "prepared_array me n xs \<longleftrightarrow> (\<forall>j. 0 < j \<and> j < n \<longrightarrow> vtable (xs ! j) = Some me \<and> Tlocal (sm_time (xs ! j)) \<noteq> None)"

lemma initialised_in_order:
  assumes proper: "proper_config lib cfg a" and wf: "wf_world (wmem lib)" and f: "SendSpdu (type_vtable cfg) = Some f"
    and prepared: "prepared_array me (unat (max_connections (type_config cfg))) (sm_arrays lib a)"
    and init: "SafeCom_Init me cfg lib = Inr (OK, lib0)"
  shows "in_order f a (unat (max_connections (type_config cfg))) lib0"
proof -
  let ?n = "unat (max_connections (type_config cfg))"
  obtain lib' where l: "SafeCom_Init me cfg lib = Inr (OK, lib')" "sms lib' = Some a"
      "length (sm_arrays lib' a) = length (sm_arrays lib a)"
      "wmem lib' = (wmem lib)\<lparr>vtables := (vtables (wmem lib))(me := type_vtable cfg)\<rparr>"
    and at: "\<And>j. j < length (sm_arrays lib a) \<Longrightarrow> sm_arrays lib' a ! j =
      (let sm = sm_arrays lib a ! j;
           sm = (if j = 0 then sm\<lparr>vtable := Some me, sm_time := (sm_time sm)\<lparr>Tlocal := Some GetCurrentTimestamp_fn\<rparr>\<rparr> else sm)
       in if j < ?n then set_up (config_role (type_config cfg)) j sm else sm)"
    by (rule SafeCom_Init_ok [OF proper, of me]) blast
  have n: "?n \<le> length (sm_arrays lib a)" using proper by (simp add: proper_config_def)
  have "operational f (nth_frame lib' a i zero_pdu) \<and> consistent (sm_arrays lib' a ! i) \<and>
      channel (sm_arrays lib' a ! i) = word_of_nat i" if "i < ?n" for i
    using that n prepared wf f
    by (auto simp: at l(4) prepared_array_def set_up_def Sm_Init_def set_initial_values_def Let_def consistent_def
        operational_def ready_def attached_def wf_world_def)
  then show ?thesis using l init n by (simp add: in_order_def)
qed

section \<open>Properties\<close>

text \<open>
  C16. Connections are kept apart: in a library initialised with several connections, each with a
  clock and callbacks, any sequence of events and of sent data on other connections leaves a
  connection exactly as initialisation left it, sends nothing under its number, and leaves it able
  to handle every event with a readable PDU, by its own state, role and timeouts.
\<close>

theorem connections_kept_apart:
  assumes "proper_config lib cfg a" and "wf_world (wmem lib)" and "SendSpdu (type_vtable cfg) = Some f"
    and "n = unat (max_connections (type_config cfg))" and "prepared_array me n (sm_arrays lib a)"
    and "SafeCom_Init me cfg lib = Inr (OK, lib0)" and "happens me a lib0 is lib1"
    and "\<forall>i \<in> set is. unat i < n" and "unat j < n" and "j \<notin> set is"
  shows "sm_arrays lib1 a ! unat j = sm_arrays lib0 a ! unat j \<and>
    (\<exists>log. sent (wmem lib1) = sent (wmem lib0) @ log \<and> (\<forall>call \<in> set log. call_node call \<noteq> j)) \<and>
    (\<forall>event pdu. code_live (wmem lib1) pdu \<and> admissible event (nth_frame lib1 a (unat j) pdu) \<longrightarrow>
      (\<exists>lib2 c. handle_event_at j event pdu lib1 = Inr lib2 \<and> sm_arrays lib2 a ! unat j = self c \<and>
        follows (planned (nth_frame lib1 a (unat j) pdu) event) f (nth_frame lib1 a (unat j) pdu) c))"
proof -
  have "in_order f a n lib0"
    using initialised_in_order [OF assms(1-3) _ assms(6)] assms(4,5) by simp
  moreover have "n \<le> 2 ^ 32" using unat_bounds(3) [of "max_connections (type_config cfg)"] assms(4) by simp
  ultimately have kept: "in_order f a n lib1" "\<forall>j < n. j \<notin> unat ` set is \<longrightarrow> untouched a j lib0 lib1"
    using happens_kept [OF assms(7)] assms(8) by blast+
  have "unat j \<notin> unat ` set is" using assms(10) by (auto simp flip: word_unat_eq_iff)
  then have same: "untouched a (unat j) lib0 lib1" using kept(2) assms(9) by blast
  have len: "unat j < length (sm_arrays lib1 a)" using assms(9) in_orderD(2) [OF kept(1)] by simp
  have "\<exists>lib2 c. handle_event_at j event pdu lib1 = Inr lib2 \<and> sm_arrays lib2 a ! unat j = self c \<and>
      follows (planned (nth_frame lib1 a (unat j) pdu) event) f (nth_frame lib1 a (unat j) pdu) c"
    if r: "code_live (wmem lib1) pdu" "admissible event (nth_frame lib1 a (unat j) pdu)" for event pdu
  proof -
    obtain c where c: "handle_event_at j event pdu lib1 = Inr (store_connection j (self c) (mem c) lib1)"
        "follows (planned (nth_frame lib1 a (unat j) pdu) event) f (nth_frame lib1 a (unat j) pdu) c"
      by (rule event_in_order [OF kept(1) assms(9) r])
    have "sm_arrays (store_connection j (self c) (mem c) lib1) a ! unat j = self c"
      using len by (simp add: stored_at [OF in_orderD(1) [OF kept(1)] len])
    with c show ?thesis by blast
  qed
  then show ?thesis using same by (simp add: untouched_def)
qed

text \<open>Two connections, the second one prepared by the application.\<close>

definition pair_lib :: lib where
  "pair_lib = initial_lib sample_world (\<lambda>_. [zero_sm,
     zero_sm\<lparr>vtable := Some RassInstance, sm_time := zero_time\<lparr>Tlocal := Some GetCurrentTimestamp_fn\<rparr>\<rparr>])"

theorem connections_kept_apart_witness:
  "\<exists>lib0 lib1 lib2. SafeCom_Init RassInstance (sample_config ROLE_CLIENT 0) pair_lib = Inr (OK, lib0) \<and>
    handle_event_at 0 EVENT_OPEN_CONN zero_pdu lib0 = Inr lib1 \<and>
    sm_arrays lib1 0 ! 1 = sm_arrays lib0 0 ! 1 \<and> handle_event_at 1 EVENT_OPEN_CONN zero_pdu lib1 = Inr lib2"
proof -
  let ?cfg = "sample_config ROLE_CLIENT 0"
  have cfg: "proper_config pair_lib ?cfg 0" "wf_world (wmem pair_lib)" "SendSpdu (type_vtable ?cfg) = Some (App_SendSpdu 0)"
      "unat (max_connections (type_config ?cfg)) = 2" "prepared_array RassInstance 2 (sm_arrays pair_lib 0)"
    by (auto simp: proper_config_def pair_lib_def initial_lib_def sample_config_def sample_world_def prepared_array_def
        less_2_cases_iff)
  obtain lib0 where lib0: "SafeCom_Init RassInstance ?cfg pair_lib = Inr (OK, lib0)"
    by (rule SafeCom_Init_ok [OF cfg(1), of RassInstance]) blast
  have order: "in_order (App_SendSpdu 0) 0 2 lib0"
    using initialised_in_order [OF cfg(1-3) _ lib0] cfg(4,5) by simp
  have adm: "admissible EVENT_OPEN_CONN c" for c by (simp add: admissible_def)
  obtain lib1 where lib1: "handle_event_at 0 EVENT_OPEN_CONN zero_pdu lib0 = Inr lib1"
    by (rule event_in_order [OF order _ sample_code_live adm, of 0]) simp_all
  have "happens RassInstance 0 lib0 ([] @ [0]) lib1"
    by (rule happens_event [OF happens_nothing sample_code_live adm lib1])
  then have run: "happens RassInstance 0 lib0 [0] lib1" by simp
  have "sm_arrays lib1 0 ! unat (1 :: u32) = sm_arrays lib0 0 ! unat (1 :: u32) \<and>
      (\<exists>lib2. handle_event_at 1 EVENT_OPEN_CONN zero_pdu lib1 = Inr lib2)"
    using connections_kept_apart [OF cfg(1-3) cfg(4) [symmetric] cfg(5) lib0 run, of 1] adm sample_code_live by fastforce
  with lib0 lib1 show ?thesis by auto
qed

end
