(* ===== verification/Start_Numbers.thy ===== *)
theory Start_Numbers
  imports Connections
begin

text \<open>
  The start numbers of a process: every opening of a connection, whichever it is, takes the next
  value of \<open>snt_rand_value\<close>, whose only state is a 32-bit seed with a constant initial value that
  all connections share; nothing else takes one.
\<close>

section \<open>The sequence of the generator\<close>

text \<open>The \<open>k\<close>-th number drawn from a given start.\<close>

definition start_number :: "world \<Rightarrow> nat \<Rightarrow> u32" where
  "start_number w k = fst (snt_rand_value (((\<lambda>w. snd (snt_rand_value w)) ^^ k) w))"

definition next_number :: "u32 \<Rightarrow> u32" where
  "next_number s = (s * 1103515245 + 12345) mod 101"

lemma snt_rand_value_next: "snt_rand_value w = (next_number (seed w), w\<lparr>seed := next_number (seed w)\<rparr>)"
  by (simp add: snt_rand_value_def next_number_def Let_def)

lemma start_number_funpow: "start_number w k = (next_number ^^ Suc k) (seed w)"
proof -
  have "seed (((\<lambda>w. snd (snt_rand_value w)) ^^ k) w) = (next_number ^^ k) (seed w)"
    by (induction k) (simp_all add: snt_rand_value_next)
  then show ?thesis by (simp add: start_number_def snt_rand_value_next)
qed

lemma start_number_seed: "seed w = seed w' \<Longrightarrow> start_number w k = start_number w' k"
  by (simp add: start_number_funpow)

lemma start_number_Suc: "start_number w (Suc k) = next_number (start_number w k)"
  by (simp add: start_number_funpow)

lemma next_numbers:
  "next_number 12345 = 14" "next_number 14 = 42" "next_number 42 = 12" "next_number 12 = 39" "next_number 39 = 58"
  "next_number 58 = 67" "next_number 67 = 28" "next_number 28 = 94" "next_number 94 = 47" "next_number 47 = 35"
  "next_number 35 = 87" "next_number 87 = 21" "next_number 21 = 68" "next_number 68 = 80" "next_number 80 = 96"
  "next_number 96 = 50" "next_number 50 = 90" "next_number 90 = 8" "next_number 8 = 0" "next_number 0 = 23"
  "next_number 23 = 71" "next_number 71 = 67"
  by (simp_all add: next_number_def)

primrec drawn :: "nat \<Rightarrow> u32 \<Rightarrow> u32 list" where
  "drawn 0 s = []"
| "drawn (Suc n) s = next_number s # drawn n (next_number s)"

lemma map_start_number: "map (start_number w) [0..<n] = drawn n (seed w)"
proof -
  have "map (\<lambda>k. (next_number ^^ Suc k) s) [0..<n] = drawn n s" for s
  proof (induction n arbitrary: s)
    case (Suc n)
    have "map (\<lambda>k. (next_number ^^ Suc k) s) [0..<Suc n] =
        next_number s # map (\<lambda>k. (next_number ^^ Suc (Suc k)) s) [0..<n]"
      by (simp only: upt_conv_Cons zero_less_Suc map_Suc_upt [symmetric] map_map list.map comp_def) simp
    also have "(\<lambda>k. (next_number ^^ Suc (Suc k)) s) = (\<lambda>k. (next_number ^^ Suc k) (next_number s))"
      by (simp add: funpow_swap1)
    finally show ?case using Suc by simp
  qed simp
  moreover have "start_number w = (\<lambda>k. (next_number ^^ Suc k) (seed w))" by (rule ext) (rule start_number_funpow)
  ultimately show ?thesis by (simp only:)
qed

text \<open>The 21 numbers of a process, of which the last sixteen form a cycle.\<close>

lemma first_numbers:
  assumes "seed w = 12345"
  shows "map (start_number w) [0..<22] =
    [14, 42, 12, 39, 58, 67, 28, 94, 47, 35, 87, 21, 68, 80, 96, 50, 90, 8, 0, 23, 71, 67]"
proof -
  have "drawn 22 12345 = [14, 42, 12, 39, 58, 67, 28, 94, 47, 35, 87, 21, 68, 80, 96, 50, 90, 8, 0, 23, 71, 67]"
    by (simp add: eval_nat_numeral next_numbers)
  then show ?thesis by (simp only: map_start_number assms)
qed

lemma start_number_period:
  assumes "seed w = 12345"
  shows "start_number w (k + 21) = start_number w (k + 5)"
proof -
  have "start_number w 21 = map (start_number w) [0..<22] ! 21" "start_number w 5 = map (start_number w) [0..<22] ! 5"
    by simp_all
  then have same: "start_number w 21 = start_number w 5"
    by (simp add: first_numbers [OF assms])
  show ?thesis
  proof (induction k)
    case 0
    show ?case using same by simp
  next
    case (Suc k)
    then have "start_number w (Suc (k + 21)) = start_number w (Suc (k + 5))" by (simp only: start_number_Suc)
    then show ?case by simp
  qed
qed

lemma start_number_range:
  assumes "seed w = 12345"
  shows "range (start_number w) = set (map (start_number w) [0..<21])"
proof -
  have "start_number w k \<in> start_number w ` {..<21}" for k
  proof (induction k rule: less_induct)
    case (less k)
    show ?case
    proof (cases "k < 21")
      case False
      then have "start_number w k = start_number w (k - 16)"
        using start_number_period [OF assms, of "k - 21"] by simp
      moreover have "start_number w (k - 16) \<in> start_number w ` {..<21}" using False by (intro less) simp
      ultimately show ?thesis by simp
    qed simp
  qed
  then show ?thesis by (auto simp: atLeast0LessThan)
qed

lemma start_number_card:
  assumes "seed w = 12345"
  shows "card (range (start_number w)) = 21"
proof -
  have "map (start_number w) [0..<21] = take 21 (map (start_number w) [0..<22])" by (simp add: take_map)
  then have "map (start_number w) [0..<21] =
      [14, 42, 12, 39, 58, 67, 28, 94, 47, 35, 87, 21, 68, 80, 96, 50, 90, 8, 0, 23, 71]"
    by (simp add: first_numbers [OF assms])
  then have "distinct (map (start_number w) [0..<21])" by simp
  from distinct_card [OF this] show ?thesis by (simp add: start_number_range [OF assms])
qed

text \<open>The numbers in the order in which they are drawn: five, then the cycle for ever.\<close>

definition seed_cycle :: "u32 list" where
  "seed_cycle = [14, 42, 12, 39, 58, 67, 28, 94, 47, 35, 87, 21, 68, 80, 96, 50, 90, 8, 0, 23, 71]"

definition in_cycle :: "nat \<Rightarrow> nat" where
  "in_cycle k = (if k < 5 then k else 5 + (k - 5) mod 16)"

lemma in_cycle_less: "in_cycle k < 21"
  by (simp add: in_cycle_def)

lemma start_number_in_cycle:
  assumes "seed w = 12345"
  shows "start_number w k = seed_cycle ! in_cycle k"
proof -
  have early: "start_number w j = seed_cycle ! j" if "j < 21" for j
  proof -
    have prefix: "take 21 (map (start_number w) [0..<22]) = seed_cycle"
      by (simp only: first_numbers [OF assms] seed_cycle_def) simp
    have "map (start_number w) [0..<22] ! j = take 21 (map (start_number w) [0..<22]) ! j"
      by (rule nth_take [symmetric]) (rule that)
    also have "\<dots> = seed_cycle ! j" by (simp only: prefix)
    finally show ?thesis using that by simp
  qed
  have "start_number w (5 + j) = start_number w (5 + j mod 16)" for j
  proof (induction j rule: less_induct)
    case (less j)
    show ?case
    proof (cases "j < 16")
      case False
      then have "start_number w (5 + j) = start_number w (5 + (j - 16))"
        using start_number_period [OF assms, of "j - 16"] by (simp add: add.commute)
      also have "\<dots> = start_number w (5 + (j - 16) mod 16)" by (rule less) (use False in simp)
      finally show ?thesis using False by (simp add: le_mod_geq)
    qed simp
  qed
  from this [of "k - 5"] have "start_number w k = start_number w (in_cycle k)" by (cases "k < 5") (simp_all add: in_cycle_def)
  also have "\<dots> = seed_cycle ! in_cycle k" by (rule early) (rule in_cycle_less)
  finally show ?thesis .
qed

section \<open>The start numbers of a process\<close>

text \<open>
  What happens in a library with \<open>n\<close> connections, with the start numbers that the openings gave: an
  event on a connection, after which the number it now counts from is noted if it was closed and
  the event opened it; data sent on a connection; new bytes in the application's arrays.
\<close>

inductive openings :: "inst \<Rightarrow> nat \<Rightarrow> nat \<Rightarrow> lib \<Rightarrow> u32 list \<Rightarrow> lib \<Rightarrow> bool" for me a n lib where
  openings_none: "openings me a n lib [] lib"
| openings_event: "openings me a n lib starts l \<Longrightarrow> unat i < n \<Longrightarrow> code_live (wmem l) pdu \<Longrightarrow>
    admissible event (nth_frame l a (unat i) pdu) \<Longrightarrow> handle_event_at i event pdu l = Inr l' \<Longrightarrow>
    noted = (if event = EVENT_OPEN_CONN \<and> sm_state (sm_arrays l a ! unat i) = STATE_CLOSED
      then [snt (sm_arrays l' a ! unat i)] else []) \<Longrightarrow> openings me a n lib (starts @ noted) l'"
| openings_send: "openings me a n lib starts l \<Longrightarrow> unat i < n \<Longrightarrow> unat msgLen mod 256 \<le> 22 \<Longrightarrow>
    off + unat msgLen mod 256 \<le> length (ext (wmem l) k) \<Longrightarrow>
    SafeCom_SendData me i msgLen (Ptr (Ext k) off) l = Inr (r, l') \<Longrightarrow> openings me a n lib starts l'"
| openings_input: "openings me a n lib starts l \<Longrightarrow> openings me a n lib starts (l\<lparr>wmem := (wmem l)\<lparr>ext := e\<rparr>\<rparr>)"

text \<open>The seed is drawn from at every opening and at nothing else.\<close>

lemma event_opening:
  assumes lib: "in_order f a n l" and i: "unat i < n" and r: "code_live (wmem l) pdu" "admissible event (nth_frame l a (unat i) pdu)"
    and step: "handle_event_at i event pdu l = Inr l'"
  shows "in_order f a n l'"
    and "event = EVENT_OPEN_CONN \<and> sm_state (sm_arrays l a ! unat i) = STATE_CLOSED \<Longrightarrow>
      snt (sm_arrays l' a ! unat i) = start_number (wmem l) 0 \<and> seed (wmem l') = next_number (seed (wmem l))"
    and "\<not> (event = EVENT_OPEN_CONN \<and> sm_state (sm_arrays l a ! unat i) = STATE_CLOSED) \<Longrightarrow> seed (wmem l') = seed (wmem l)"
proof -
  let ?c = "nth_frame l a (unat i) pdu"
  obtain c' where c': "handle_event_at i event pdu l = Inr (store_connection i (self c') (mem c') l)"
      "follows (planned ?c event) f ?c c'" "in_order f a n (store_connection i (self c') (mem c') l)"
    by (rule event_in_order [OF lib i r])
  have len: "unat i < length (sm_arrays l a)" using i in_orderD(2) [OF lib] by simp
  note at = stored_at [OF in_orderD(1) [OF lib] len, of "self c'" "mem c'"]
  have l': "l' = store_connection i (self c') (mem c') l" using step c'(1) by simp
  show "in_order f a n l'" using c'(3) l' by simp
  have seed: "seed (wmem l') = (if opens (planned ?c event) then next_number (seed (wmem l)) else seed (wmem l))"
    using followsD(9) [OF c'(2)] by (simp add: l' at snt_rand_value_next)
  show "seed (wmem l') = seed (wmem l)" if "\<not> (event = EVENT_OPEN_CONN \<and> sm_state (sm_arrays l a ! unat i) = STATE_CLOSED)"
    using seed that by (simp only: opens_only frame.select_convs if_False)
  assume opened: "event = EVENT_OPEN_CONN \<and> sm_state (sm_arrays l a ! unat i) = STATE_CLOSED"
  then have "planned ?c event \<in> {Listen, Connect}"
    by (cases "sm_role (sm_arrays l a ! unat i)") (simp_all add: plan_event_def)
  then have "snt (self c') = fst (snt_rand_value (wmem l))" using followsD(4) [OF c'(2)] by auto
  then show "snt (sm_arrays l' a ! unat i) = start_number (wmem l) 0 \<and> seed (wmem l') = next_number (seed (wmem l))"
    using seed opened len by (simp add: opens_only l' at start_number_def)
qed

lemma openings_draw:
  assumes "openings me a n lib starts l" and "in_order f a n lib"
  shows "in_order f a n l \<and> seed (wmem l) = (next_number ^^ length starts) (seed (wmem lib)) \<and>
    starts = map (start_number (wmem lib)) [0..<length starts]"
  using assms
proof (induction rule: openings.induct)
  case openings_none
  then show ?case by simp
next
  case (openings_event starts l i pdu event l' noted)
  then have l: "in_order f a n l" "seed (wmem l) = (next_number ^^ length starts) (seed (wmem lib))"
      "starts = map (start_number (wmem lib)) [0..<length starts]" by blast+
  note step = event_opening [OF l(1) openings_event.hyps(2-5)]
  have drawn: "start_number (wmem l) 0 = start_number (wmem lib) (length starts)"
    by (simp add: start_number_funpow l(2))
  show ?case
  proof (cases "event = EVENT_OPEN_CONN \<and> sm_state (sm_arrays l a ! unat i) = STATE_CLOSED")
    case True
    then have "noted = [start_number (wmem lib) (length starts)]"
      using openings_event.hyps(6) step(2) drawn by simp
    then show ?thesis using step(1) step(2) [OF True] l(2,3) by simp
  next
    case False
    then have "noted = []" using openings_event.hyps(6) by auto
    then show ?thesis using step(1) step(3) [OF False] l(2,3) by simp
  qed
next
  case (openings_send starts l i msgLen off k r l')
  then have l: "in_order f a n l" "seed (wmem l) = (next_number ^^ length starts) (seed (wmem lib))"
      "starts = map (start_number (wmem lib)) [0..<length starts]" by blast+
  obtain l2 where "SafeCom_SendData me i msgLen (Ptr (Ext k) off) l = Inr (OK, l2)" "in_order f a n l2"
      "seed (wmem l2) = seed (wmem l)"
    by (rule send_in_order [OF l(1) openings_send.hyps(2-4)])
  then show ?case using openings_send.hyps(5) l(2,3) by simp
next
  case (openings_input starts l e)
  then show ?case using in_order_input [of f a n l e] by simp
qed

text \<open>The library with two connections, initialised.\<close>

lemma pair_lib_config:
  "proper_config pair_lib (sample_config ROLE_CLIENT 0) 0" "wf_world (wmem pair_lib)" "seed (wmem pair_lib) = 12345"
  "SendSpdu (type_vtable (sample_config ROLE_CLIENT 0)) = Some (App_SendSpdu 0)"
  "2 = unat (max_connections (type_config (sample_config ROLE_CLIENT 0)))"
  "prepared_array RassInstance 2 (sm_arrays pair_lib 0)"
proof -
  show "seed (wmem pair_lib) = 12345" by (simp add: pair_lib_def initial_lib_def sample_world_def initial_world_def)
qed (auto simp: proper_config_def pair_lib_def initial_lib_def sample_config_def sample_world_def prepared_array_def
    less_2_cases_iff)

lemma pair_lib_initialised:
  obtains lib0 where "SafeCom_Init RassInstance (sample_config ROLE_CLIENT 0) pair_lib = Inr (OK, lib0)"
    and "in_order (App_SendSpdu 0) 0 2 lib0" and "\<forall>j < 2. sm_state (sm_arrays lib0 0 ! j) = STATE_CLOSED"
proof -
  let ?cfg = "sample_config ROLE_CLIENT 0"
  have two: "length (sm_arrays pair_lib 0) = 2" by (simp add: pair_lib_def initial_lib_def)
  obtain lib0 where lib0: "SafeCom_Init RassInstance ?cfg pair_lib = Inr (OK, lib0)"
    and at: "\<And>j. j < length (sm_arrays pair_lib 0) \<Longrightarrow> sm_arrays lib0 0 ! j =
      (let sm = sm_arrays pair_lib 0 ! j;
           sm = (if j = 0 then sm\<lparr>vtable := Some RassInstance, sm_time := (sm_time sm)\<lparr>Tlocal := Some GetCurrentTimestamp_fn\<rparr>\<rparr> else sm)
       in if j < unat (max_connections (type_config ?cfg)) then set_up (config_role (type_config ?cfg)) j sm else sm)"
    by (rule SafeCom_Init_ok [OF pair_lib_config(1), of RassInstance]) blast
  have "sm_state (sm_arrays lib0 0 ! j) = STATE_CLOSED" if "j < 2" for j
    using at [of j] that two by (simp add: set_up_def Sm_Init_def set_initial_values_def Let_def flip: pair_lib_config(5))
  moreover have "in_order (App_SendSpdu 0) 0 2 lib0"
    using initialised_in_order [OF pair_lib_config(1,2,4) _ lib0] pair_lib_config(6) by (simp flip: pair_lib_config(5))
  ultimately show thesis using that [OF lib0] by blast
qed

section \<open>Properties\<close>

text \<open>
  C17. Start numbers repeat: after the initialisation of a library whose connections each have a
  clock and callbacks, let any events and calls that send data happen on its connections, with PDUs
  and messages that can be read. The numbers from
  which the connections start when they are opened are then, in the order of the openings and over
  all connections, the first ones of a fixed sequence of 21 numbers, of which the last sixteen come
  again in the same order for ever. The n-th opening draws the n-th number, and nothing else
  draws: the seed is always the number of the last opening.
\<close>

theorem start_numbers_repeat:
  assumes "proper_config lib cfg a" and "wf_world (wmem lib)" and "seed (wmem lib) = 12345"
    and "SendSpdu (type_vtable cfg) = Some f" and "n = unat (max_connections (type_config cfg))"
    and "prepared_array me n (sm_arrays lib a)" and "SafeCom_Init me cfg lib = Inr (OK, lib0)"
    and "openings me a n lib0 starts lib1"
  shows "starts = map (\<lambda>k. [14, 42, 12, 39, 58, 67, 28, 94, 47, 35, 87, 21, 68, 80, 96, 50, 90, 8, 0, 23, 71] !
      (if k < 5 then k else 5 + (k - 5) mod 16)) [0..<length starts] \<and>
    seed (wmem lib1) = last (12345 # starts)"
proof -
  have "wmem lib0 = (wmem lib)\<lparr>vtables := (vtables (wmem lib))(me := type_vtable cfg)\<rparr>"
    by (rule SafeCom_Init_ok [OF assms(1), of me]) (use assms(7) in auto)
  then have seed: "seed (wmem lib0) = 12345" using assms(3) by simp
  have lib0: "in_order f a n lib0"
    using initialised_in_order [OF assms(1,2,4) _ assms(7)] assms(5,6) by simp
  note drawn = openings_draw [OF assms(8) lib0]
  have "starts = map (\<lambda>k. seed_cycle ! in_cycle k) [0..<length starts]"
    using drawn start_number_in_cycle [OF seed] by (metis (no_types, lifting) map_ext)
  moreover have "seed (wmem lib1) = last (12345 # starts)"
  proof (cases "length starts")
    case (Suc m)
    then have "last starts = start_number (wmem lib0) m"
      using drawn by (metis diff_Suc_1 last_conv_nth length_0_conv lessI nat.distinct(1) nth_map_upt add_0 diff_zero)
    then show ?thesis using drawn seed Suc by (auto simp: start_number_funpow)
  qed (use drawn seed in simp)
  ultimately show ?thesis by (simp only: seed_cycle_def in_cycle_def)
qed

theorem start_numbers_repeat_witness:
  "\<exists>lib0 lib1 lib2. SafeCom_Init RassInstance (sample_config ROLE_CLIENT 0) pair_lib = Inr (OK, lib0) \<and>
    handle_event_at 0 EVENT_OPEN_CONN zero_pdu lib0 = Inr lib1 \<and> handle_event_at 1 EVENT_OPEN_CONN zero_pdu lib1 = Inr lib2 \<and>
    snt (sm_arrays lib1 0 ! 0) = 14 \<and> snt (sm_arrays lib2 0 ! 1) = 42"
proof -
  obtain lib0 where lib0: "SafeCom_Init RassInstance (sample_config ROLE_CLIENT 0) pair_lib = Inr (OK, lib0)"
      and order: "in_order (App_SendSpdu 0) 0 2 lib0" and closed0: "\<forall>j < 2. sm_state (sm_arrays lib0 0 ! j) = STATE_CLOSED"
    by (rule pair_lib_initialised)
  have adm: "admissible EVENT_OPEN_CONN c" for c by (simp add: admissible_def)
  have low: "unat (0 :: u32) < 2" by simp
  obtain c1 :: frame where lib1: "handle_event_at 0 EVENT_OPEN_CONN zero_pdu lib0 = Inr (store_connection 0 (self c1) (mem c1) lib0)"
      and order1: "in_order (App_SendSpdu 0) 0 2 (store_connection 0 (self c1) (mem c1) lib0)"
    by (rule event_in_order [OF order low sample_code_live adm])
  define l1 where "l1 = store_connection 0 (self c1) (mem c1) lib0"
  have len: "2 \<le> length (sm_arrays lib0 0)" "sms lib0 = Some 0" using in_orderD(1,2) [OF order] by simp_all
  have "unat (0 :: u32) < length (sm_arrays lib0 0)" using len(1) low by linarith
  from stored_at(3) [OF len(2) this] have "sm_arrays l1 0 ! 1 = sm_arrays lib0 0 ! 1" by (simp add: l1_def)
  then have closed: "sm_state (sm_arrays l1 0 ! 1) = STATE_CLOSED" using closed0 by simp
  have high: "unat (1 :: u32) < 2" by simp
  obtain c2 :: frame where lib2: "handle_event_at 1 EVENT_OPEN_CONN zero_pdu l1 = Inr (store_connection 1 (self c2) (mem c2) l1)"
    by (rule event_in_order [OF order1 [folded l1_def] high sample_code_live adm])
  let ?l2 = "store_connection 1 (self c2) (mem c2) l1"
  have "openings RassInstance 0 2 lib0 ([] @ [snt (sm_arrays l1 0 ! 0)]) l1"
    by (rule openings_event [OF openings_none _ sample_code_live adm lib1 [folded l1_def]]) (use closed0 in simp_all)
  then have "openings RassInstance 0 2 lib0 (([] @ [snt (sm_arrays l1 0 ! 0)]) @ [snt (sm_arrays ?l2 0 ! 1)]) ?l2"
    by (rule openings_event [OF _ _ sample_code_live adm lib2]) (use closed in simp_all)
  from start_numbers_repeat [OF pair_lib_config lib0 this] have "snt (sm_arrays l1 0 ! 0) = 14" "snt (sm_arrays ?l2 0 ! 1) = 42"
    by simp_all
  with lib0 lib1 lib2 show ?thesis unfolding l1_def by blast
qed

end
