(* ===== verification/Link.thy ===== *)
theory Link
  imports Sm_Theorems
begin

text \<open>
  Two connections that talk to each other: a client and a server, each a process of its own with
  its memory, joined by two queues of telegrams that carry the bytes handed to \<open>SendSpdu\<close>. A
  side beats (\<open>EVENT_TH_ELAPSED\<close>), sends data (the two calls of \<open>SafeCom_SendData_Impl\<close>), or
  receives the telegram at the head of its queue. The application of each side is the receiver of
  the test programs, for all message types: it deserialises the bytes into a zeroed PDU and
  raises the event of the message type.
\<close>

section \<open>Receiving and sending at one side\<close>

definition event_of :: "u32 \<Rightarrow> Event option" where
  "event_of code =
     (if code = message_code CONNECTION_REQUEST then Some EVENT_RECV_CONN_REQ
      else if code = message_code CONNECTION_RESPONSE then Some EVENT_RECV_CONN_RESP
      else if code = message_code RETRANSMISSION_REQUEST then Some EVENT_RECV_RETR_REQ
      else if code = message_code RETRANSMISSION_RESPONSE then Some EVENT_RECV_RETR_RESP
      else if code = message_code DISCONNECTION_REQUEST then Some EVENT_RECV_DISC_REQ
      else if code = message_code HEARTBEAT then Some EVENT_RECV_HB
      else if code = message_code DATA then Some EVENT_RECV_DATA
      else if code = message_code RETRANSMITTED_DATA then Some EVENT_RECV_RETR_DATA
      else None)"

fun event_for :: "MessageType \<Rightarrow> Event" where
  "event_for CONNECTION_REQUEST = EVENT_RECV_CONN_REQ"
| "event_for CONNECTION_RESPONSE = EVENT_RECV_CONN_RESP"
| "event_for RETRANSMISSION_REQUEST = EVENT_RECV_RETR_REQ"
| "event_for RETRANSMISSION_RESPONSE = EVENT_RECV_RETR_RESP"
| "event_for DISCONNECTION_REQUEST = EVENT_RECV_DISC_REQ"
| "event_for HEARTBEAT = EVENT_RECV_HB"
| "event_for DATA = EVENT_RECV_DATA"
| "event_for RETRANSMITTED_DATA = EVENT_RECV_RETR_DATA"

lemma event_of_code [simp]: "event_of (message_code t) = Some (event_for t)"
  by (cases t) (simp_all add: event_of_def)

text \<open>The received bytes stand in the side's array 0.\<close>

definition arrived :: "u8 list \<Rightarrow> world \<Rightarrow> world" where
  "arrived bytes w = w\<lparr>ext := (ext w)(0 := bytes)\<rparr>"

definition receive_spdu :: "u8 list \<Rightarrow> frame \<Rightarrow> frame outcome" where
  "receive_spdu bytes c =
     bindE (deserialize_pdu (Ptr (Ext 0) 0) (length bytes) zero_pdu (arrived bytes (mem c))) (\<lambda>(pdu, w).
     let c = c\<lparr>mem := w, pdu_of := pdu\<rparr>
     in case event_of (message_type pdu) of None \<Rightarrow> Inr c | Some event \<Rightarrow> Sm_HandleEvent event c)"

definition beat :: "frame \<Rightarrow> frame outcome" where
  "beat c = Sm_HandleEvent EVENT_TH_ELAPSED (c\<lparr>pdu_of := zero_pdu\<rparr>)"

text \<open>The application's message stands in the side's array 1.\<close>

definition send_data :: "u8 list \<Rightarrow> frame \<Rightarrow> frame outcome" where
  "send_data content c =
     bindE (Data (word_of_nat (length content)) (Ptr (Ext 1) 0)
       (c\<lparr>pdu_of := zero_pdu, mem := (mem c)\<lparr>ext := (ext (mem c))(1 := content)\<rparr>\<rparr>))
     (Sm_HandleEvent EVENT_SEND_DATA)"

text \<open>The bytes of the \<open>SendSpdu\<close> calls between two points.\<close>

definition emitted :: "frame \<Rightarrow> frame \<Rightarrow> u8 list list" where
  "emitted c c' = map call_data (drop (length (sent (mem c))) (sent (mem c')))"

text \<open>A side that can go on with whatever comes next.\<close>

definition able :: "send_fn \<Rightarrow> frame \<Rightarrow> bool" where
  "able f c \<longleftrightarrow> operational f (c\<lparr>pdu_of := zero_pdu\<rparr>) \<and> consistent (self c)"

lemma able_after: "follows a f c c' \<Longrightarrow> able f c'"
  using followsD(1,2) operational_pdu [of f c' zero_pdu] by (auto simp: able_def)

lemma able_arrived:
  assumes "able f c"
  shows "operational f (c\<lparr>mem := arrived bytes (mem c), pdu_of := zero_pdu\<rparr>)"
  using assms
  by (auto simp: able_def operational_def ready_def attached_def arrived_def wf_world_def code_live_def code_bytes_def)

lemma arrived_simps [simp]:
  "sent (arrived b w) = sent w" "clock_calls (arrived b w) = clock_calls w" "reading (arrived b w) n = reading w n"
  "ext (arrived b w) 0 = b" "seed (arrived b w) = seed w" "code_seen (arrived b w) k m = code_seen w k m"
  by (simp_all add: arrived_def reading_def code_seen_def)

section \<open>Telegrams between the sides\<close>

text \<open>Bytes that are a telegram of type \<open>t\<close> sent by a connection in state \<open>sm\<close>, with any safety code.\<close>

definition telegram_of :: "MessageType \<Rightarrow> u8 list \<Rightarrow> SmType \<Rightarrow> u8 list \<Rightarrow> bool" where
  "telegram_of t content sm bytes \<longleftrightarrow>
     length content \<le> 22 \<and> (\<exists>now code. length code = 8 \<and> bytes = covered t content sm now @ code)"

lemma transmits_emits:
  assumes "transmits f t content sm now (mem c0) (mem c')" and "length content \<le> 22"
    and "sent (mem c0) = sent (mem c)"
  obtains b where "emitted c c' = [b]" and "telegram_of t content sm b"
  using assms by (fastforce simp: transmits_def emitted_def telegram_of_def spdu_def)

text \<open>What a side does with a telegram of the other: one event with the telegram's numbers.\<close>

lemma receive_covered:
  assumes fits: "length content \<le> 22" and code: "length code = 8" and able: "able f c"
    and payload: "t \<in> {CONNECTION_REQUEST, CONNECTION_RESPONSE} \<Longrightarrow> 4 \<le> length content"
  obtains c0 c' where "receive_spdu (covered t content sm now @ code) c = Inr c'"
    and "follows (planned c0 (event_for t)) f c0 c'"
    and "self c0 = self c" and "sent (mem c0) = sent (mem c)" and "clock_calls (mem c0) = clock_calls (mem c)"
    and "\<And>n. reading (mem c0) n = reading (mem c) n" and "fst (snt_rand_value (mem c0)) = fst (snt_rand_value (mem c))"
    and "sequence_number (pdu_of c0) = snt sm" and "timestamp (pdu_of c0) = now"
    and "confirmed_sequence_number (pdu_of c0) = (if t = CONNECTION_REQUEST then 0 else cst sm)"
    and "confirmed_timestamp (pdu_of c0) = (if t = CONNECTION_REQUEST then 0 else ctsr sm)"
    and "4 \<le> length content \<Longrightarrow> version_known (judge c0) = (take 4 content = [0x30, 0x33, 0x30, 0x31])"
proof -
  let ?bytes = "covered t content sm now @ code"
  let ?w = "arrived ?bytes (mem c)"
  have "take (36 + length content) (ext ?w 0) = ?bytes" using code by simp
  then obtain pdu
    where des: "deserialize_pdu (Ptr (Ext 0) 0) (36 + length content) zero_pdu ?w = Inr (pdu, ?w)"
      and pdu: "message_type pdu = message_code t" "sequence_number pdu = snt sm"
        "confirmed_sequence_number pdu = (if t = CONNECTION_REQUEST then 0 else cst sm)" "timestamp pdu = now"
        "confirmed_timestamp pdu = (if t = CONNECTION_REQUEST then 0 else ctsr sm)"
        "seen_bytes ?w (payload pdu) (length content) = content" "code_live ?w pdu"
        "4 \<le> length content \<Longrightarrow> payload_live ?w pdu"
        "4 \<le> length content \<Longrightarrow> seen_bytes ?w (payload pdu) 4 = take 4 content"
    by (rule telegram_received [OF fits code]) (rule that; simp)
  let ?c = "c\<lparr>mem := ?w, pdu_of := pdu\<rparr>"
  have op: "operational f ?c"
    using operational_pdu [OF able_arrived [OF able, of ?bytes], of pdu] pdu(7) by simp
  have adm: "admissible (event_for t) ?c"
    using payload pdu(8) by (cases t) (auto simp: admissible_def)
  have cons: "consistent (self ?c)" using able by (simp add: able_def)
  obtain c' where c': "Sm_HandleEvent (event_for t) ?c = Inr c'" "follows (planned ?c (event_for t)) f ?c c'"
    by (rule event_step [OF op cons adm])
  have "receive_spdu ?bytes c = Inr c'"
    using c'(1) code by (simp add: receive_spdu_def des pdu(1))
  then show thesis
    using that [OF _ c'(2)] pdu by (simp add: judge_def snt_rand_value_def Let_def)
qed

lemma receive_telegram:
  assumes tel: "telegram_of t content sm bytes" and able: "able f c"
    and payload: "t \<in> {CONNECTION_REQUEST, CONNECTION_RESPONSE} \<Longrightarrow> 4 \<le> length content"
  obtains c0 c' where "receive_spdu bytes c = Inr c'" and "follows (planned c0 (event_for t)) f c0 c'"
    and "self c0 = self c" and "sent (mem c0) = sent (mem c)" and "clock_calls (mem c0) = clock_calls (mem c)"
    and "\<And>n. reading (mem c0) n = reading (mem c) n"
    and "sequence_number (pdu_of c0) = snt sm"
    and "t \<noteq> CONNECTION_REQUEST \<Longrightarrow> confirmed_timestamp (pdu_of c0) = ctsr sm"
    and "4 \<le> length content \<Longrightarrow> version_known (judge c0) = (take 4 content = [0x30, 0x33, 0x30, 0x31])"
proof -
  obtain now code where len: "length content \<le> 22" "length code = 8" and bytes: "bytes = covered t content sm now @ code"
    using tel by (auto simp: telegram_of_def)
  obtain c0 c' where r: "receive_spdu bytes c = Inr c'" "follows (planned c0 (event_for t)) f c0 c'"
      "self c0 = self c" "sent (mem c0) = sent (mem c)" "clock_calls (mem c0) = clock_calls (mem c)"
      "\<And>n. reading (mem c0) n = reading (mem c) n" "sequence_number (pdu_of c0) = snt sm"
      "confirmed_timestamp (pdu_of c0) = (if t = CONNECTION_REQUEST then 0 else ctsr sm)"
      "4 \<le> length content \<Longrightarrow> version_known (judge c0) = (take 4 content = [0x30, 0x33, 0x30, 0x31])"
    unfolding bytes
    by (rule receive_covered [OF len able payload, where t = t and sm = sm and now = now])
       (assumption, (rule that; simp add: bytes))
  then show thesis using that by simp
qed

section \<open>The handshake\<close>

lemma open_client:
  assumes able: "able f c" and "sm_role (self c) = ROLE_CLIENT" and "sm_state (self c) = STATE_CLOSED"
  obtains c' b where "Sm_HandleEvent EVENT_OPEN_CONN (c\<lparr>pdu_of := zero_pdu\<rparr>) = Inr c'" and "able f c'"
    and "emitted c c' = [b]" and "telegram_of CONNECTION_REQUEST handshake_payload (self c') b"
    and "sm_state (self c') = STATE_START" and "sm_role (self c') = ROLE_CLIENT"
    and "timeouts (sm_time (self c')) = timeouts (sm_time (self c))" and "snt (self c') = fst (snt_rand_value (mem c))"
proof -
  let ?c = "c\<lparr>pdu_of := zero_pdu\<rparr>"
  have adm: "admissible EVENT_OPEN_CONN ?c" by (simp add: admissible_def)
  have op: "operational f ?c" "consistent (self ?c)" using able by (simp_all add: able_def)
  obtain c' where c': "Sm_HandleEvent EVENT_OPEN_CONN ?c = Inr c'" "follows (planned ?c EVENT_OPEN_CONN) f ?c c'"
    by (rule event_step [OF op adm])
  have plan: "planned ?c EVENT_OPEN_CONN = Connect" using assms by (simp add: plan_event_def)
  have says: "says Connect = Some (CONNECTION_REQUEST, handshake_payload)" by simp
  note f = followsD(4) [OF c'(2), unfolded plan] followsD(7) [OF c'(2), unfolded plan, OF says]
  obtain b where "emitted c c' = [b]" "telegram_of CONNECTION_REQUEST handshake_payload (self c') b"
    by (rule transmits_emits [OF f(2)]) simp_all
  with that [OF c'(1) able_after [OF c'(2)]] f(1) assms(2) show thesis by simp
qed

lemma accept_request:
  assumes able: "able f s" and "sm_state (self s) = STATE_DOWN"
    and tel: "telegram_of CONNECTION_REQUEST handshake_payload sm b"
  obtains s' b' where "receive_spdu b s = Inr s'" and "able f s'" and "emitted s s' = [b']"
    and "telegram_of CONNECTION_RESPONSE handshake_payload (self s') b'"
    and "sm_state (self s') = STATE_START" and "snr (self s') = snt sm + 1" and "snt (self s') = snt (self s)"
    and "ctsr (self s') = reading (mem s) (clock_calls (mem s))" and "sm_role (self s') = sm_role (self s)"
    and "timeouts (sm_time (self s')) = timeouts (sm_time (self s))"
proof -
  obtain c0 s' where r: "receive_spdu b s = Inr s'" "follows (planned c0 EVENT_RECV_CONN_REQ) f c0 s'"
      "self c0 = self s" "sent (mem c0) = sent (mem s)" "clock_calls (mem c0) = clock_calls (mem s)"
      "\<And>n. reading (mem c0) n = reading (mem s) n" "sequence_number (pdu_of c0) = snt sm"
      "version_known (judge c0)"
    by (rule receive_telegram [OF tel able]) (simp_all add: handshake_payload_def)
  have plan: "planned c0 EVENT_RECV_CONN_REQ = Accept_request"
    using r(3,8) assms(2) by (simp add: plan_event_def)
  have says: "says Accept_request = Some (CONNECTION_RESPONSE, handshake_payload)" by simp
  note f = followsD(4) [OF r(2), unfolded plan] followsD(7) [OF r(2), unfolded plan, OF says]
  obtain b' where "emitted s s' = [b']" "telegram_of CONNECTION_RESPONSE handshake_payload (self s') b'"
    by (rule transmits_emits [OF f(2)]) (simp_all add: r(4))
  with that [OF r(1) able_after [OF r(2)]] f(1) r(3,5,6,7) show thesis by (simp add: after_simps)
qed

lemma accept_response:
  assumes able: "able f c" and "sm_state (self c) = STATE_START" and "sm_role (self c) = ROLE_CLIENT"
    and tel: "telegram_of CONNECTION_RESPONSE handshake_payload sm b"
  obtains c' b' where "receive_spdu b c = Inr c'" and "able f c'" and "emitted c c' = [b']"
    and "telegram_of HEARTBEAT [] (self c') b'" and "sm_state (self c') = STATE_UP"
    and "snr (self c') = snt sm + 1" and "snt (self c') = snt (self c) + 1" and "ctsr (self c') = ctsr sm"
    and "timeouts (sm_time (self c')) = timeouts (sm_time (self c))"
proof -
  obtain c0 c' where r: "receive_spdu b c = Inr c'" "follows (planned c0 EVENT_RECV_CONN_RESP) f c0 c'"
      "self c0 = self c" "sent (mem c0) = sent (mem c)" "sequence_number (pdu_of c0) = snt sm"
      "confirmed_timestamp (pdu_of c0) = ctsr sm" "version_known (judge c0)"
    by (rule receive_telegram [OF tel able]) (simp_all add: handshake_payload_def)
  have plan: "planned c0 EVENT_RECV_CONN_RESP = Accept_response"
    using r(3,7) assms(2,3) by (simp add: plan_event_def)
  have says: "says Accept_response = Some (HEARTBEAT, [])" by simp
  note f = followsD(4) [OF r(2), unfolded plan] followsD(7) [OF r(2), unfolded plan, OF says]
  obtain b' where "emitted c c' = [b']" "telegram_of HEARTBEAT [] (self c') b'"
    by (rule transmits_emits [OF f(2)]) (simp_all add: r(4))
  with that [OF r(1) able_after [OF r(2)]] f(1) r(3,5,6) show thesis by (simp add: after_simps)
qed

lemma fresh_same:
  "ctsr sm = confirmed_timestamp pdu \<Longrightarrow> 0 < Tmax (timeouts (sm_time sm)) \<Longrightarrow> check_seq_confirmed_timestamp sm pdu"
  by (simp add: check_seq_confirmed_timestamp_def)

lemma accept_heartbeat:
  assumes able: "able f s" and "sm_state (self s) = STATE_START" and "sm_role (self s) = ROLE_SERVER"
    and tel: "telegram_of HEARTBEAT content sm b" and "snr (self s) = snt sm" and "ctsr (self s) = ctsr sm"
    and "0 < Tmax (timeouts (sm_time (self s)))"
  obtains s' where "receive_spdu b s = Inr s'" and "able f s'" and "emitted s s' = []"
    and "sm_state (self s') = STATE_UP" and "snr (self s') = snt sm + 1" and "snt (self s') = snt (self s)"
    and "ctsr (self s') = ctsr (self s)" and "timeouts (sm_time (self s')) = timeouts (sm_time (self s))"
proof -
  obtain c0 s' where r: "receive_spdu b s = Inr s'" "follows (planned c0 EVENT_RECV_HB) f c0 s'"
      "self c0 = self s" "sent (mem c0) = sent (mem s)" "sequence_number (pdu_of c0) = snt sm"
      "confirmed_timestamp (pdu_of c0) = ctsr sm"
    by (rule receive_telegram [OF tel able]) simp_all
  have plan: "planned c0 EVENT_RECV_HB = Accept STATE_UP"
    using r assms by (simp add: plan_event_def judged_def fresh_same)
  have "sent (mem s') = sent (mem c0)" using followsD(6) [OF r(2), unfolded plan] by simp
  with that [OF r(1) able_after [OF r(2)]] followsD(4) [OF r(2), unfolded plan] r(3-6) assms(6) show thesis
    by (simp add: after_simps emitted_def)
qed


section \<open>An established connection\<close>

text \<open>What one step of a side in the state UP leaves of the connection, and what it counts.\<close>

definition stays_up :: "send_fn \<Rightarrow> nat \<Rightarrow> nat \<Rightarrow> frame \<Rightarrow> frame \<Rightarrow> bool" where
  "stays_up f sends gets c c' \<longleftrightarrow> able f c' \<and> sm_state (self c') = STATE_UP \<and>
     snt (self c') = snt (self c) + word_of_nat sends \<and> snr (self c') = snr (self c) + word_of_nat gets \<and>
     ctsr (self c') = ctsr (self c) \<and> timeouts (sm_time (self c')) = timeouts (sm_time (self c))"

lemma beat_up:
  assumes able: "able f c" and "sm_state (self c) = STATE_UP"
  obtains c' b where "beat c = Inr c'" and "stays_up f 1 0 c c'" and "emitted c c' = [b]"
    and "telegram_of HEARTBEAT [] (self c') b"
proof -
  let ?c = "c\<lparr>pdu_of := zero_pdu\<rparr>"
  have adm: "admissible EVENT_TH_ELAPSED ?c" by (simp add: admissible_def)
  have op: "operational f ?c" "consistent (self ?c)" using able by (simp_all add: able_def)
  obtain c' where c': "beat c = Inr c'" "follows (planned ?c EVENT_TH_ELAPSED) f ?c c'"
    unfolding beat_def by (rule event_step [OF op adm])
  have plan: "planned ?c EVENT_TH_ELAPSED = Beat" using assms by (simp add: plan_event_def)
  have says: "says Beat = Some (HEARTBEAT, [])" by simp
  note f = followsD(4) [OF c'(2), unfolded plan] followsD(7) [OF c'(2), unfolded plan, OF says]
  obtain b where "emitted c c' = [b]" "telegram_of HEARTBEAT [] (self c') b"
    by (rule transmits_emits [OF f(2)]) simp_all
  with that [OF c'(1)] able_after [OF c'(2)] f(1) assms(2) show thesis
    by (simp add: stays_up_def after_simps)
qed

lemma able_holding: "able f c \<Longrightarrow> operational f (c\<lparr>pdu_of := zero_pdu, mem := (mem c)\<lparr>ext := e\<rparr>\<rparr>)"
  by (auto simp: able_def operational_def ready_def attached_def wf_world_def)

lemma Data_long:
  assumes "Tlocal (sm_time (self c)) \<noteq> None" and "pdu_of c = zero_pdu" and "Data n (Ptr b off) c = Inr c'"
  shows "unat n \<le> 22"
proof -
  have "code_bytes (pdu_of c) = 0" by (simp add: assms(2) code_bytes_def)
  with assms(3) show ?thesis
    by (subst (asm) Data_spec [OF assms(1)]) (auto simp: Let_def split: if_splits)
qed

text \<open>The two steps of a send: the telegram is built and counted, then the event is handled.\<close>

lemma send_frame:
  assumes able: "able f c" and sent: "send_data content c = Inr c'"
  obtains c1 payload where "self c1 = counted True (self c)" and "sent (mem c1) = sent (mem c)"
    and "follows (planned c1 EVENT_SEND_DATA) f c1 c'" and "telegram_of DATA payload (self c1) (telegram (mem c1) (pdu_of c1))"
proof -
  let ?n = "word_of_nat (length content) :: u8" and ?p = "Ptr (Ext 1) 0"
  let ?c = "c\<lparr>pdu_of := zero_pdu, mem := (mem c)\<lparr>ext := (ext (mem c))(1 := content)\<rparr>\<rparr>"
  have c: "operational f ?c" by (rule able_holding [OF able])
  obtain c1 where c1: "Data ?n ?p ?c = Inr c1" "Sm_HandleEvent EVENT_SEND_DATA c1 = Inr c'"
    using sent by (auto simp: send_data_def elim!: bindE_InrE)
  have n: "unat ?n \<le> 22" by (rule Data_long [OF _ _ c1(1)]) (use c in \<open>simp_all add: operational_def ready_def\<close>)
  have arr: "0 + unat ?n \<le> length (ext (mem ?c) 1)" by (simp add: unat_of_nat)
  define payload where "payload = take (unat ?n) (drop 0 (ext (mem ?c) 1))"
  have fits: "length payload = unat ?n" by (simp add: payload_def unat_of_nat)
  obtain j now where d: "operational f c1" "sendable (mem c1) (pdu_of c1)" "self c1 = counted True (self c)"
      "sent (mem c1) = sent (mem c)" "unat (message_length (pdu_of c1)) = 36 + unat ?n"
      "telegram (mem c1) (pdu_of c1) = covered DATA payload (self c1) now @
        code_seen (mem ?c) j (covered DATA payload (self c1) now)"
    by (rule Data_frame [OF c _ n arr]) (use c1(1) in \<open>auto simp: payload_def\<close>)
  have adm: "admissible EVENT_SEND_DATA c1" using d(2) by (simp add: admissible_def)
  have cons: "consistent (self c1)" using able d(3) by (simp add: able_def consistent_def)
  have "telegram_of DATA payload (self c1) (telegram (mem c1) (pdu_of c1))"
    using fits n d(6) by (auto simp: telegram_of_def)
  with that [OF d(3,4) event_result [OF d(1) cons adm c1(2)]] show thesis by blast
qed

lemma send_up:
  assumes able: "able f c" and "sm_state (self c) = STATE_UP" and sent: "send_data content c = Inr c'"
  obtains b payload where "stays_up f 1 0 c c'" and "emitted c c' = [b]" and "telegram_of DATA payload (self c') b"
proof -
  obtain c1 payload where d: "self c1 = counted True (self c)" "sent (mem c1) = sent (mem c)"
      "follows (planned c1 EVENT_SEND_DATA) f c1 c'" "telegram_of DATA payload (self c1) (telegram (mem c1) (pdu_of c1))"
    by (rule send_frame [OF able sent])
  have plan: "planned c1 EVENT_SEND_DATA = Forward" using assms(2) d(1) by (simp add: plan_event_def)
  note f = followsD(4) [OF d(3), unfolded plan] followsD(8) [OF d(3) plan]
  have "emitted c c' = [telegram (mem c1) (pdu_of c1)]" using f(2) d(2) by (simp add: emitted_def)
  moreover have "telegram_of DATA payload (self c') (telegram (mem c1) (pdu_of c1))"
    using f(1) d(4) by (simp add: telegram_of_def covered_def outgoing_def)
  moreover have "stays_up f 1 0 c c'"
    using able_after [OF d(3)] f(1) d(1) assms(2) by (simp add: stays_up_def counted_def)
  ultimately show thesis using that by blast
qed

lemma receive_up:
  assumes able: "able f c" and "sm_state (self c) = STATE_UP"
    and tel: "telegram_of t content sm b" and "t \<in> {HEARTBEAT, DATA}"
    and "snt sm = snr (self c)" and "ctsr sm = ctsr (self c)" and "0 < Tmax (timeouts (sm_time (self c)))"
  obtains c' where "receive_spdu b c = Inr c'" and "stays_up f 0 1 c c'" and "emitted c c' = []"
    and "Ti (sm_time (self c')) =
      Tmax (timeouts (sm_time (self c))) - (reading (mem c) (clock_calls (mem c)) - ctsr (self c))"
proof -
  obtain c0 c' where r: "receive_spdu b c = Inr c'" "follows (planned c0 (event_for t)) f c0 c'"
      "self c0 = self c" "sent (mem c0) = sent (mem c)" "clock_calls (mem c0) = clock_calls (mem c)"
      "\<And>n. reading (mem c0) n = reading (mem c) n" "sequence_number (pdu_of c0) = snt sm"
      "confirmed_timestamp (pdu_of c0) = ctsr sm"
    by (rule receive_telegram [OF tel able]) (use assms(4) in auto)
  have plan: "planned c0 (event_for t) = Accept STATE_UP"
    using r(3,7,8) assms(2,4-7) by (auto simp: plan_event_def judged_def fresh_same)
  note f = followsD(4) [OF r(2), unfolded plan] followsD(6) [OF r(2), unfolded plan]
  have "sent (mem c') = sent (mem c)" using f(2) r(4) by simp
  with that [OF r(1)] able_after [OF r(2)] f(1) r(3,5-8) assms(2,5,6) show thesis
    by (simp add: stays_up_def after_simps emitted_def)
qed


section \<open>Two sides and their queues\<close>

datatype side = Client | Server

fun other :: "side \<Rightarrow> side" where
  "other Client = Server"
| "other Server = Client"

lemma other_other [simp]: "other (other i) = i" "other i \<noteq> i" "i \<noteq> other i"
  by (cases i; simp)+

lemma side_cases: "j = i \<or> j = other i"
  by (cases i; cases j) simp_all

record link =
  endp :: "side \<Rightarrow> frame"
  inbox :: "side \<Rightarrow> u8 list list"

text \<open>Side \<open>i\<close> becomes \<open>c'\<close>, its queue is \<open>rest\<close>, and what it sent joins the queue of the other.\<close>

definition moved :: "side \<Rightarrow> frame \<Rightarrow> u8 list list \<Rightarrow> link \<Rightarrow> link" where
  "moved i c' rest l = \<lparr>endp = (endp l)(i := c'),
     inbox = (inbox l)(i := rest, other i := inbox l (other i) @ emitted (endp l i) c')\<rparr>"

lemma moved_simps [simp]:
  "endp (moved i c' rest l) i = c'" "endp (moved i c' rest l) (other i) = endp l (other i)"
  "inbox (moved i c' rest l) i = rest"
  "inbox (moved i c' rest l) (other i) = inbox l (other i) @ emitted (endp l i) c'"
  by (simp_all add: moved_def)

inductive link_step :: "link \<Rightarrow> link \<Rightarrow> bool" where
  link_beat: "beat (endp l i) = Inr c' \<Longrightarrow> link_step l (moved i c' (inbox l i) l)"
| link_data: "send_data content (endp l i) = Inr c' \<Longrightarrow> link_step l (moved i c' (inbox l i) l)"
| link_receive: "inbox l i = b # rest \<Longrightarrow> receive_spdu b (endp l i) = Inr c' \<Longrightarrow> link_step l (moved i c' rest l)"

text \<open>
  A queue of heartbeats and data that continues the sequence: the telegrams carry the numbers
  from \<open>n\<close> up to, not including, \<open>m\<close>, and the confirmed time stamp \<open>ts\<close>.
\<close>

definition carries :: "u32 \<Rightarrow> u32 \<Rightarrow> u8 list \<Rightarrow> bool" where
  "carries ts n b \<longleftrightarrow> (\<exists>t content sm. t \<in> {HEARTBEAT, DATA} \<and> telegram_of t content sm b \<and> snt sm = n \<and> ctsr sm = ts)"

fun numbered :: "u32 \<Rightarrow> u32 \<Rightarrow> u8 list list \<Rightarrow> u32 \<Rightarrow> bool" where
  "numbered ts n [] m \<longleftrightarrow> n = m"
| "numbered ts n (b # bs) m \<longleftrightarrow> carries ts n b \<and> numbered ts (n + 1) bs m"

lemma next_number [simp]: "x + 1 \<noteq> (x :: u32)" "x \<noteq> (x + 1 :: u32)"
  by (metis add_cancel_right_right one_neq_zero)+

lemma numbered_snoc: "numbered ts n bs m \<Longrightarrow> carries ts m b \<Longrightarrow> numbered ts n (bs @ [b]) (m + 1)"
  by (induction bs arbitrary: n) simp_all

text \<open>
  Both sides are established and in step: each waits for exactly the numbers that are under way
  to it. The number in a connection is the one it used last, so the next is one more.
\<close>

definition in_step :: "(side \<Rightarrow> send_fn) \<Rightarrow> u32 \<Rightarrow> link \<Rightarrow> bool" where
  "in_step f ts l \<longleftrightarrow> (\<forall>i. able (f i) (endp l i) \<and> sm_state (self (endp l i)) = STATE_UP \<and>
     ctsr (self (endp l i)) = ts \<and> 0 < Tmax (timeouts (sm_time (self (endp l i)))) \<and>
     numbered ts (snr (self (endp l i))) (inbox l i) (snt (self (endp l (other i))) + 1))"

lemma in_stepD:
  assumes "in_step f ts l"
  shows "able (f i) (endp l i)" and "sm_state (self (endp l i)) = STATE_UP" and "ctsr (self (endp l i)) = ts"
    and "0 < Tmax (timeouts (sm_time (self (endp l i))))"
    and "numbered ts (snr (self (endp l i))) (inbox l i) (snt (self (endp l (other i))) + 1)"
  using assms by (auto simp: in_step_def)

lemma in_step_sends:
  assumes l: "in_step f ts l" and up: "stays_up (f i) 1 0 (endp l i) c'"
    and "emitted (endp l i) c' = [b]" and "carries ts (snt (self c')) b"
  shows "in_step f ts (moved i c' (inbox l i) l)"
  unfolding in_step_def
proof
  fix j
  from side_cases [of j i] show "able (f j) (endp (moved i c' (inbox l i) l) j) \<and>
      sm_state (self (endp (moved i c' (inbox l i) l) j)) = STATE_UP \<and>
      ctsr (self (endp (moved i c' (inbox l i) l) j)) = ts \<and>
      0 < Tmax (timeouts (sm_time (self (endp (moved i c' (inbox l i) l) j)))) \<and>
      numbered ts (snr (self (endp (moved i c' (inbox l i) l) j))) (inbox (moved i c' (inbox l i) l) j)
        (snt (self (endp (moved i c' (inbox l i) l) (other j))) + 1)"
    using in_stepD [OF l, of i] in_stepD [OF l, of "other i"] up assms(3,4)
      numbered_snoc [of ts "snr (self (endp l (other i)))" "inbox l (other i)" "snt (self c')" b]
    by (auto simp: stays_up_def)
qed

lemma in_step_gets:
  assumes l: "in_step f ts l" and up: "stays_up (f i) 0 1 (endp l i) c'"
    and "emitted (endp l i) c' = []" and "inbox l i = b # rest"
  shows "in_step f ts (moved i c' rest l)"
  unfolding in_step_def
proof
  fix j
  from side_cases [of j i] show "able (f j) (endp (moved i c' rest l) j) \<and>
      sm_state (self (endp (moved i c' rest l) j)) = STATE_UP \<and>
      ctsr (self (endp (moved i c' rest l) j)) = ts \<and>
      0 < Tmax (timeouts (sm_time (self (endp (moved i c' rest l) j)))) \<and>
      numbered ts (snr (self (endp (moved i c' rest l) j))) (inbox (moved i c' rest l) j)
        (snt (self (endp (moved i c' rest l) (other j))) + 1)"
    using in_stepD [OF l, of i] in_stepD [OF l, of "other i"] up assms(3,4)
    by (auto simp: stays_up_def)
qed

lemma sent_carries:
  assumes "in_step f ts l" and "stays_up (f i) 1 0 (endp l i) c'"
    and "telegram_of t content (self c') b" and "t \<in> {HEARTBEAT, DATA}"
  shows "carries ts (snt (self c')) b"
  using assms(2-4) in_stepD(3) [OF assms(1), of i] unfolding carries_def stays_up_def by metis

text \<open>The telegram at the head of a queue is the expected one and is taken.\<close>

lemma in_step_receive:
  assumes l: "in_step f ts l" and box: "inbox l i = b # rest"
  obtains c' where "receive_spdu b (endp l i) = Inr c'" and "stays_up (f i) 0 1 (endp l i) c'"
    and "emitted (endp l i) c' = []"
    and "Ti (sm_time (self c')) = Tmax (timeouts (sm_time (self (endp l i)))) -
      (reading (mem (endp l i)) (clock_calls (mem (endp l i))) - ts)"
proof -
  have "carries ts (snr (self (endp l i))) b" using in_stepD(5) [OF l, of i] by (simp add: box)
  then obtain t content sm where "telegram_of t content sm b" "t \<in> {HEARTBEAT, DATA}"
      "snt sm = snr (self (endp l i))" "ctsr sm = ts" by (auto simp: carries_def)
  with receive_up [of "f i" "endp l i" t content sm b] in_stepD [OF l, of i] that show thesis by metis
qed

lemma in_step_link_step:
  assumes "link_step l l'" and l: "in_step f ts l"
  shows "in_step f ts l'"
  using assms(1)
proof cases
  case (link_beat i c')
  obtain b where "stays_up (f i) 1 0 (endp l i) c'" "emitted (endp l i) c' = [b]" "telegram_of HEARTBEAT [] (self c') b"
    using beat_up [OF in_stepD(1,2) [OF l, of i]] link_beat(2) by (metis sum.inject(2))
  with in_step_sends [OF l] sent_carries [OF l] show ?thesis by (simp add: link_beat(1))
next
  case (link_data content i c')
  obtain b payload where "stays_up (f i) 1 0 (endp l i) c'" "emitted (endp l i) c' = [b]"
      "telegram_of DATA payload (self c') b"
    using send_up [OF in_stepD(1,2) [OF l, of i] link_data(2)] by metis
  with in_step_sends [OF l] sent_carries [OF l] show ?thesis by (simp add: link_data(1))
next
  case (link_receive i b rest c')
  have "stays_up (f i) 0 1 (endp l i) c'" "emitted (endp l i) c' = []"
    using in_step_receive [OF l link_receive(2)] link_receive(3) by (metis sum.inject(2))+
  with in_step_gets [OF l] link_receive show ?thesis by simp
qed

lemma in_step_link_steps: "link_step\<^sup>*\<^sup>* l l' \<Longrightarrow> in_step f ts l \<Longrightarrow> in_step f ts l'"
  by (induction rule: rtranclp_induct) (auto intro: in_step_link_step)


section \<open>The handshake as a whole\<close>

text \<open>The link of two sides with nothing under way.\<close>

definition quiet :: "frame \<Rightarrow> frame \<Rightarrow> link" where
  "quiet c s = \<lparr>endp = case_side c s, inbox = \<lambda>_. []\<rparr>"

lemma quiet_simps [simp]:
  "endp (quiet c s) Client = c" "endp (quiet c s) Server = s" "inbox (quiet c s) i = []"
  by (simp_all add: quiet_def)

lemma in_step_quiet:
  "in_step f ts (quiet c s) \<longleftrightarrow>
     able (f Client) c \<and> able (f Server) s \<and> sm_state (self c) = STATE_UP \<and> sm_state (self s) = STATE_UP \<and>
     ctsr (self c) = ts \<and> ctsr (self s) = ts \<and> 0 < Tmax (timeouts (sm_time (self c))) \<and>
     0 < Tmax (timeouts (sm_time (self s))) \<and> snr (self c) = snt (self s) + 1 \<and> snr (self s) = snt (self c) + 1"
proof -
  have "(\<forall>i. P i) \<longleftrightarrow> P Client \<and> P Server" for P by (metis side.exhaust)
  then show ?thesis by (auto simp: in_step_def)
qed

lemma handshake:
  assumes able: "able (f Client) c" "able (f Server) s"
    and "sm_role (self c) = ROLE_CLIENT" and "sm_state (self c) = STATE_CLOSED"
    and "sm_role (self s) = ROLE_SERVER" and "sm_state (self s) = STATE_DOWN"
    and "0 < Tmax (timeouts (sm_time (self c)))" and "0 < Tmax (timeouts (sm_time (self s)))"
  obtains c1 b1 s1 b2 c2 b3 s2 where "Sm_HandleEvent EVENT_OPEN_CONN (c\<lparr>pdu_of := zero_pdu\<rparr>) = Inr c1"
    and "emitted c c1 = [b1]" and "receive_spdu b1 s = Inr s1" and "emitted s s1 = [b2]"
    and "receive_spdu b2 c1 = Inr c2" and "emitted c1 c2 = [b3]" and "receive_spdu b3 s1 = Inr s2"
    and "emitted s1 s2 = []" and "in_step f (reading (mem s) (clock_calls (mem s))) (quiet c2 s2)"
    and "snt (self c2) = fst (snt_rand_value (mem c)) + 1"
    and "telegram_of CONNECTION_REQUEST handshake_payload (self c1) b1"
    and "telegram_of CONNECTION_RESPONSE handshake_payload (self s1) b2" and "telegram_of HEARTBEAT [] (self c2) b3"
proof -
  obtain c1 b1 where c1: "Sm_HandleEvent EVENT_OPEN_CONN (c\<lparr>pdu_of := zero_pdu\<rparr>) = Inr c1" "able (f Client) c1"
      "emitted c c1 = [b1]" "telegram_of CONNECTION_REQUEST handshake_payload (self c1) b1"
      "sm_state (self c1) = STATE_START" "sm_role (self c1) = ROLE_CLIENT"
      "timeouts (sm_time (self c1)) = timeouts (sm_time (self c))" "snt (self c1) = fst (snt_rand_value (mem c))"
    using open_client [OF able(1) assms(3,4)] by metis
  obtain s1 b2 where s1: "receive_spdu b1 s = Inr s1" "able (f Server) s1" "emitted s s1 = [b2]"
      "telegram_of CONNECTION_RESPONSE handshake_payload (self s1) b2" "sm_state (self s1) = STATE_START"
      "snr (self s1) = snt (self c1) + 1" "ctsr (self s1) = reading (mem s) (clock_calls (mem s))"
      "sm_role (self s1) = ROLE_SERVER" "timeouts (sm_time (self s1)) = timeouts (sm_time (self s))"
    using accept_request [OF able(2) assms(6) c1(4)] assms(5) by metis
  obtain c2 b3 where c2: "receive_spdu b2 c1 = Inr c2" "able (f Client) c2" "emitted c1 c2 = [b3]"
      "telegram_of HEARTBEAT [] (self c2) b3" "sm_state (self c2) = STATE_UP"
      "snr (self c2) = snt (self s1) + 1" "snt (self c2) = snt (self c1) + 1" "ctsr (self c2) = ctsr (self s1)"
      "timeouts (sm_time (self c2)) = timeouts (sm_time (self c1))"
    using accept_response [OF c1(2,5,6) s1(4)] by metis
  obtain s2 where s2: "receive_spdu b3 s1 = Inr s2" "able (f Server) s2" "emitted s1 s2 = []"
      "sm_state (self s2) = STATE_UP" "snr (self s2) = snt (self c2) + 1" "snt (self s2) = snt (self s1)"
      "ctsr (self s2) = ctsr (self s1)" "timeouts (sm_time (self s2)) = timeouts (sm_time (self s1))"
    by (rule accept_heartbeat [OF s1(2,5,8) c2(4)]) (use assms(8) s1(6,9) c2(7,8) in simp_all)
  have "in_step f (reading (mem s) (clock_calls (mem s))) (quiet c2 s2)"
    using c2 s2 s1(6,7,9) c1(7) assms(7,8) by (simp add: in_step_quiet)
  moreover have "snt (self c2) = fst (snt_rand_value (mem c)) + 1" using c1(8) c2(7) by simp
  ultimately show thesis by (rule that [OF c1(1,3) s1(1,3) c2(1,3) s2(1,3) _ _ c1(4) s1(4) c2(4)])
qed

section \<open>A lost telegram\<close>

lemma miss_one:
  assumes able: "able f c" and "sm_state (self c) = STATE_UP"
    and tel: "telegram_of t content sm b" and "t \<in> {HEARTBEAT, DATA}" and "snt sm \<noteq> snr (self c)"
  obtains c' q where "receive_spdu b c = Inr c'" and "able f c'" and "sm_state (self c') = STATE_RETR_REQ"
    and "emitted c c' = [q]" and "telegram_of RETRANSMISSION_REQUEST [] (self c') q"
proof -
  obtain c0 c' where r: "receive_spdu b c = Inr c'" "follows (planned c0 (event_for t)) f c0 c'"
      "self c0 = self c" "sent (mem c0) = sent (mem c)" "sequence_number (pdu_of c0) = snt sm"
    by (rule receive_telegram [OF tel able]) (use assms(4) in auto)
  have plan: "planned c0 (event_for t) = Ask_again"
    using r(3,5) assms(2,4,5) by (auto simp: plan_event_def judged_def)
  have says: "says Ask_again = Some (RETRANSMISSION_REQUEST, [])" by simp
  note f = followsD(4) [OF r(2), unfolded plan] followsD(7) [OF r(2), unfolded plan, OF says]
  obtain q where "emitted c c' = [q]" "telegram_of RETRANSMISSION_REQUEST [] (self c') q"
    by (rule transmits_emits [OF f(2)]) (simp_all add: r(4))
  with that [OF r(1) able_after [OF r(2)]] f(1) show thesis by (simp add: after_simps)
qed

lemma refuse_again:
  assumes able: "able f c" and "sm_state (self c) = STATE_UP" and tel: "telegram_of RETRANSMISSION_REQUEST content sm b"
  obtains c' d where "receive_spdu b c = Inr c'" and "able f c'" and "sm_state (self c') = STATE_CLOSED"
    and "emitted c c' = [d]"
    and "telegram_of DISCONNECTION_REQUEST (disc_payload FAIL_RETRANSMISSION 0) (self c') d"
proof -
  obtain c0 c' where r: "receive_spdu b c = Inr c'" "follows (planned c0 EVENT_RECV_RETR_REQ) f c0 c'"
      "self c0 = self c" "sent (mem c0) = sent (mem c)"
    by (rule receive_telegram [OF tel able]) simp_all
  have plan: "planned c0 EVENT_RECV_RETR_REQ = Refuse FAIL_RETRANSMISSION"
    using r(3) assms(2) by (simp add: plan_event_def)
  have says: "says (Refuse FAIL_RETRANSMISSION) = Some (DISCONNECTION_REQUEST, disc_payload FAIL_RETRANSMISSION 0)" by simp
  note f = followsD(4) [OF r(2), unfolded plan] followsD(7) [OF r(2), unfolded plan, OF says]
  obtain d where "emitted c c' = [d]" "telegram_of DISCONNECTION_REQUEST (disc_payload FAIL_RETRANSMISSION 0) (self c') d"
    by (rule transmits_emits [OF f(2)]) (simp_all add: r(4) disc_payload_def be16_def)
  with that [OF r(1) able_after [OF r(2)]] f(1) show thesis by (simp add: after_simps)
qed

lemma told_to_close:
  assumes able: "able f c" and "sm_state (self c) \<in> {STATE_START, STATE_UP, STATE_RETR_REQ, STATE_RETR_RUN}"
    and tel: "telegram_of DISCONNECTION_REQUEST content sm b"
  obtains c' where "receive_spdu b c = Inr c'" and "able f c'" and "sm_state (self c') = STATE_CLOSED"
    and "emitted c c' = []"
proof -
  obtain c0 c' where r: "receive_spdu b c = Inr c'" "follows (planned c0 EVENT_RECV_DISC_REQ) f c0 c'"
      "self c0 = self c" "sent (mem c0) = sent (mem c)"
    by (rule receive_telegram [OF tel able]) simp_all
  have plan: "planned c0 EVENT_RECV_DISC_REQ = Close"
    using r(3) assms(2) by (auto simp: plan_event_def)
  note f = followsD(4) [OF r(2), unfolded plan] followsD(6) [OF r(2), unfolded plan]
  with that [OF r(1) able_after [OF r(2)]] r(4) show thesis by (simp add: after_simps emitted_def)
qed

end
