(* ===== verification/Link_Theorems.thy ===== *)
theory Link_Theorems
  imports Link Wire
begin

text \<open>
  The properties of two connections that talk to each other: the handshake, an established link
  without losses, what becomes of its supervision, one lost telegram, what the safety code is worth
  on the way, and what a recording of another run is taken for.
\<close>

section \<open>Links to evaluate\<close>

lemma sample_able: "able (App_SendSpdu 0) (sample_frame role s zero_pdu)"
  using sample_operational [of zero_pdu role s] by (simp add: able_def sample_frame_def sample_sm_def consistent_def)

lemma sample_Tmax: "Tmax (timeouts (sm_time (self (sample_frame role s pdu)))) = 30"
  by (simp add: sample_frame_def sample_sm_def)

lemma sample_in_step:
  obtains c s ts where "in_step (\<lambda>_. App_SendSpdu 0) ts (quiet c s)"
  by (rule handshake [of "\<lambda>_. App_SendSpdu 0" "sample_frame ROLE_CLIENT STATE_CLOSED zero_pdu"
        "sample_frame ROLE_SERVER STATE_DOWN zero_pdu"]) (simp_all add: sample_able sample_Tmax)

lemma in_step_beat:
  assumes l: "in_step f ts l"
  obtains l' b where "link_step l l'" and "in_step f ts l'" and "inbox l' (other i) = inbox l (other i) @ [b]"
    and "inbox l' i = inbox l i"
proof -
  obtain c' b where "beat (endp l i) = Inr c'" "stays_up (f i) 1 0 (endp l i) c'" "emitted (endp l i) c' = [b]"
      "telegram_of HEARTBEAT [] (self c') b"
    using beat_up [OF in_stepD(1,2) [OF l, of i]] by metis
  with that [OF link_beat in_step_sends [OF l]] sent_carries [OF l] show thesis by simp
qed

lemma after_cong:
  assumes "sequence_number p = sequence_number q" and "confirmed_sequence_number p = confirmed_sequence_number q"
    and "timestamp p = timestamp q" and "confirmed_timestamp p = confirmed_timestamp q"
  shows "after a p t0 t1 r sm = after a q t0 t1 r sm"
  using assms by (cases a) (simp_all add: after_simps)

section \<open>Received bytes of any origin\<close>

text \<open>
  Bytes whose length field is at least 36 and not more than what was received: the PDU the receiver sees, the
  action that the table gives for it, and what becomes of the connection.
\<close>

definition received_frame :: "u8 list \<Rightarrow> frame \<Rightarrow> frame" where
  "received_frame b c = c\<lparr>mem := arrived b (mem c), pdu_of := (decoded (parsed b) zero_pdu)
     \<lparr>payload := Ptr (Ext 0) 28, safety_code := Ptr (Ext 0) (28 + payload_length (parsed b))\<rparr>\<rparr>"

definition received_action :: "u8 list \<Rightarrow> frame \<Rightarrow> action" where
  "received_action b c = (case event_of (message_type (parsed b)) of None \<Rightarrow> Ignore
     | Some event \<Rightarrow> planned (received_frame b c) event)"

definition received_self :: "action \<Rightarrow> u8 list \<Rightarrow> frame \<Rightarrow> SmType" where
  "received_self a b c = dispatched (after a (pdu_of (received_frame b c)) (reading (mem c) (clock_calls (mem c)))
     (reading (mem c) (clock_calls (mem c) + 1)) (fst (snt_rand_value (mem c))) (self c))"

lemma parsed_cong:
  assumes "take 28 b' = take 28 b"
  shows "parsed b' = parsed b"
proof -
  have "b' ! k = b ! k" if "k < 28" for k
    using arg_cong [OF assms, of "\<lambda>xs. xs ! k"] that by simp
  then show ?thesis by (simp add: parsed_def)
qed

lemma take_shorter: "take n xs = take n ys \<Longrightarrow> k \<le> n \<Longrightarrow> take k xs = take k ys"
  by (metis take_take min.absorb1)

lemma received_kept [simp]: "self (received_frame b c) = self c"
  by (simp add: received_frame_def)

lemma received_message_type: "message_type (pdu_of (received_frame b c)) = message_type (parsed b)"
proof -
  have "ucast (ucast (ucast v :: u32) :: u16) = (ucast v :: u32)" for v :: u16
    by (rule bit_word_eqI) (use bit_imp_le_length [of v] in \<open>auto simp: bit_simps\<close>)
  then show ?thesis by (simp add: received_frame_def decoded_def parsed_def Let_def)
qed

lemma received_version: "version_known (judge (received_frame b c)) = (take 4 (drop 28 b) = [0x30, 0x33, 0x30, 0x31])"
  by (simp add: judge_def received_frame_def seen_bytes_def array_of_def)

lemma receive_bytes:
  assumes able: "able f c" and n: "36 \<le> length_field b" "length_field b \<le> length b"
  obtains d where "receive_spdu b c = Inr d" and "follows (received_action b c) f (received_frame b c) d \<or>
    d = received_frame b c \<and> received_action b c = Ignore"
proof -
  let ?c = "received_frame b c" and ?w = "arrived b (mem c)"
  have des: "deserialize_pdu (Ptr (Ext 0) 0) (length b) zero_pdu ?w = Inr (pdu_of ?c, ?w)"
    using deserialize_any [of "length b" ?w 0 zero_pdu] n by (simp add: received_frame_def Let_def)
  have frame: "c\<lparr>mem := ?w, pdu_of := pdu_of ?c\<rparr> = ?c" by (simp add: received_frame_def)
  have pl: "payload_length (parsed b) = length_field b - 36" using n(1) by (simp add: payload_length_sized)
  have live: "code_live ?w (pdu_of ?c)" "payload_live ?w (pdu_of ?c)"
    using n by (simp_all add: received_frame_def code_live_def code_bytes_def readable_def array_of_def payload_live_def pl)
  have op: "operational f ?c"
    using operational_pdu [OF able_arrived [OF able, of b], of "pdu_of ?c"] live(1) by (simp add: received_frame_def)
  have cons: "consistent (self ?c)" using able by (simp add: able_def received_frame_def)
  show thesis
  proof (cases "event_of (message_type (parsed b))")
    case None
    then have "receive_spdu b c = Inr ?c" by (simp add: receive_spdu_def des frame received_message_type)
    with that None show thesis by (simp add: received_action_def)
  next
    case (Some event)
    have "event \<noteq> EVENT_SEND_DATA" using Some by (auto simp: event_of_def split: if_splits)
    then have adm: "admissible event ?c" using live(2) by (simp add: admissible_def received_frame_def)
    obtain d where d: "Sm_HandleEvent event ?c = Inr d" "follows (planned ?c event) f ?c d"
      by (rule event_step [OF op cons adm])
    have "receive_spdu b c = Inr d" by (simp add: receive_spdu_def des frame received_message_type Some d(1))
    with that d(2) Some show thesis by (simp add: received_action_def)
  qed
qed

lemma received_self:
  assumes "follows (received_action b c) f (received_frame b c) d \<or> d = received_frame b c \<and> received_action b c = Ignore"
    and "able f c"
  shows "self d = received_self (received_action b c) b c"
  using assms(1)
proof
  assume "follows (received_action b c) f (received_frame b c) d"
  moreover have "mem (received_frame b c) = arrived b (mem c)" "self (received_frame b c) = self c"
    by (simp_all add: received_frame_def)
  ultimately show ?thesis
    using followsD(4) by (simp add: received_self_def snt_rand_value_def Let_def)
next
  assume "d = received_frame b c \<and> received_action b c = Ignore"
  moreover have "dispatched (self c) = self c" using assms(2) by (simp add: able_def consistent_def dispatched_def)
  ultimately show ?thesis by (simp add: received_self_def)
qed

text \<open>Only the two messages of the handshake have their version looked at.\<close>

lemma plan_cong:
  assumes "in_sequence v' = in_sequence v" and "fresh v' = fresh v"
    and "event \<in> {EVENT_RECV_CONN_REQ, EVENT_RECV_CONN_RESP} \<longrightarrow> version_known v' = version_known v"
  shows "plan_event role v' s event = plan_event role v s event"
  using assms by (cases event; cases s; cases role) (simp_all add: plan_event_def judged_def)

lemma received_action_cong:
  assumes "parsed b' = parsed b"
    and "message_type (parsed b) \<in> {message_code CONNECTION_REQUEST, message_code CONNECTION_RESPONSE} \<Longrightarrow> take 32 b' = take 32 b"
  shows "received_action b' c = received_action b c"
proof (cases "event_of (message_type (parsed b))")
  case None
  then show ?thesis by (simp add: received_action_def assms(1))
next
  case (Some event)
  have version: "take 4 (drop 28 b') = take 4 (drop 28 b)" if "event \<in> {EVENT_RECV_CONN_REQ, EVENT_RECV_CONN_RESP}"
  proof -
    have "message_type (parsed b) \<in> {message_code CONNECTION_REQUEST, message_code CONNECTION_RESPONSE}"
      using Some that by (auto simp: event_of_def split: if_splits)
    from arg_cong [OF assms(2) [OF this], of "drop 28"] show ?thesis by (simp add: take_drop)
  qed
  have "planned (received_frame b' c) event = planned (received_frame b c) event"
  proof -
    let ?d = "received_frame b c" and ?d' = "received_frame b' c"
    have "self ?d' = self ?d" "pdu_of ?d' = pdu_of ?d" by (simp_all add: received_frame_def assms(1))
    then show ?thesis
      using version plan_cong [of "judge ?d'" "judge ?d" event] by (simp add: received_version)
  qed
  with Some show ?thesis by (simp add: received_action_def assms(1))
qed

section \<open>Properties\<close>

text \<open>
  C6. The handshake: when a closed client opens and the server is listening, three telegrams
  carried over establish both connections. They end in step: each side waits for the number the
  other will use next, and both hold the server's clock reading at the request as confirmed time
  stamp. Whatever the eight bytes of safety code on the way are, it makes no difference.
\<close>

theorem handshake_establishes:
  assumes "able (f Client) c" and "able (f Server) s"
    and "sm_role (self c) = ROLE_CLIENT" and "sm_state (self c) = STATE_CLOSED"
    and "sm_role (self s) = ROLE_SERVER" and "sm_state (self s) = STATE_DOWN"
    and "0 < Tmax (timeouts (sm_time (self c)))" and "0 < Tmax (timeouts (sm_time (self s)))"
  shows "\<exists>c1 b1 s1 b2 c2 b3 s2. Sm_HandleEvent EVENT_OPEN_CONN (c\<lparr>pdu_of := zero_pdu\<rparr>) = Inr c1 \<and>
    emitted c c1 = [b1] \<and> receive_spdu b1 s = Inr s1 \<and> emitted s s1 = [b2] \<and>
    receive_spdu b2 c1 = Inr c2 \<and> emitted c1 c2 = [b3] \<and> receive_spdu b3 s1 = Inr s2 \<and> emitted s1 s2 = [] \<and>
    in_step f (reading (mem s) (clock_calls (mem s))) (quiet c2 s2)"
  by (rule handshake [OF assms]) blast

theorem handshake_establishes_witness:
  "\<exists>c1. Sm_HandleEvent EVENT_OPEN_CONN (sample_frame ROLE_CLIENT STATE_CLOSED zero_pdu) = Inr c1 \<and>
    (\<exists>b1 s1. emitted (sample_frame ROLE_CLIENT STATE_CLOSED zero_pdu) c1 = [b1] \<and>
      receive_spdu b1 (sample_frame ROLE_SERVER STATE_DOWN zero_pdu) = Inr s1)"
proof -
  have "sample_frame role s zero_pdu\<lparr>pdu_of := zero_pdu\<rparr> = sample_frame role s zero_pdu" for role s
    by (simp add: sample_frame_def)
  with handshake_establishes [of "\<lambda>_. App_SendSpdu 0" "sample_frame ROLE_CLIENT STATE_CLOSED zero_pdu"
      "sample_frame ROLE_SERVER STATE_DOWN zero_pdu"]
  show ?thesis by (simp add: sample_able sample_Tmax) blast
qed

text \<open>
  C7. A link without losses stays up: from two connections in step, after any interleaving of
  heartbeats, data and receipts, in which each queue keeps its order, both connections are in
  step and in the state UP, a heartbeat can be sent, and the next telegram of a queue is
  accepted.
\<close>

theorem lossless_link_stays_up:
  assumes "in_step f ts l" and "link_step\<^sup>*\<^sup>* l l'"
  shows "in_step f ts l' \<and> sm_state (self (endp l' i)) = STATE_UP \<and> (\<exists>c'. beat (endp l' i) = Inr c') \<and>
    (inbox l' i \<noteq> [] \<longrightarrow> (\<exists>c'. receive_spdu (hd (inbox l' i)) (endp l' i) = Inr c' \<and>
      sm_state (self c') = STATE_UP \<and> snr (self c') = snr (self (endp l' i)) + 1))"
proof -
  have l': "in_step f ts l'" using in_step_link_steps assms by blast
  have "\<exists>c'. beat (endp l' i) = Inr c'" using beat_up [OF in_stepD(1,2) [OF l', of i]] by metis
  moreover have "\<exists>c'. receive_spdu b (endp l' i) = Inr c' \<and>
      sm_state (self c') = STATE_UP \<and> snr (self c') = snr (self (endp l' i)) + 1" if "inbox l' i = b # rest" for b rest
    by (rule in_step_receive [OF l' that]) (auto simp: stays_up_def)
  ultimately show ?thesis using l' in_stepD(2) [OF l'] by (cases "inbox l' i") auto
qed

theorem lossless_link_stays_up_witness:
  "\<exists>f ts l l'. in_step f ts l \<and> link_step l l' \<and> in_step f ts l' \<and> inbox l' Server \<noteq> []"
proof -
  obtain c s ts where l: "in_step (\<lambda>_. App_SendSpdu 0) ts (quiet c s)" by (rule sample_in_step)
  obtain l' b where l': "link_step (quiet c s) l'" "inbox l' (other Client) = inbox (quiet c s) (other Client) @ [b]"
    by (rule in_step_beat [OF l, of Client])
  from lossless_link_stays_up [OF l r_into_rtranclp [of link_step, OF l'(1)]] l l' show ?thesis
    by (metis append_is_Nil_conv not_Cons_self2 other.simps(1))
qed

text \<open>
  C14. The supervision of an established link counts down to its end whatever arrives: the
  confirmed time stamp never moves on from the server's reading at the handshake, so the timer
  that a receipt sets is \<open>Tmax\<close> less the age of the connection, modulo \<open>2 ^ 32\<close>. A telegram
  that is taken in \<open>Tmax\<close> after the handshake leaves a timer of zero.
\<close>

theorem supervision_runs_out:
  assumes "in_step f ts l" and "link_step\<^sup>*\<^sup>* l l'" and "inbox l' i = b # rest"
  shows "\<exists>c'. receive_spdu b (endp l' i) = Inr c' \<and>
    (let now = reading (mem (endp l' i)) (clock_calls (mem (endp l' i)));
         tmax = Tmax (timeouts (sm_time (self (endp l' i))))
     in ctsr (self c') = ts \<and>
        uint (Ti (sm_time (self c'))) = (uint tmax - (uint now - uint ts)) mod 2 ^ 32 \<and>
        (now = ts + tmax \<longrightarrow> Ti (sm_time (self c')) = 0))"
proof -
  have l': "in_step f ts l'" using in_step_link_steps assms(1,2) by blast
  obtain c' where "receive_spdu b (endp l' i) = Inr c'" "stays_up (f i) 0 1 (endp l' i) c'"
    and "Ti (sm_time (self c')) = Tmax (timeouts (sm_time (self (endp l' i)))) -
      (reading (mem (endp l' i)) (clock_calls (mem (endp l' i))) - ts)"
    by (rule in_step_receive [OF l' assms(3)])
  then show ?thesis
    using in_stepD(3) [OF l', of i]
    by (intro exI [of _ c']) (simp add: Let_def stays_up_def uint_word_ariths mod_simps)
qed

theorem supervision_runs_out_witness:
  "\<exists>(l' :: link) b c'. inbox l' Server = [b] \<and> receive_spdu b (endp l' Server) = Inr c' \<and>
    ctsr (self c') = ctsr (self (endp l' Client))"
proof -
  obtain c s ts where l: "in_step (\<lambda>_. App_SendSpdu 0) ts (quiet c s)" by (rule sample_in_step)
  obtain l' b where l': "link_step (quiet c s) l'" "in_step (\<lambda>_. App_SendSpdu 0) ts l'"
      "inbox l' (other Client) = inbox (quiet c s) (other Client) @ [b]"
    by (rule in_step_beat [OF l, of Client])
  have "inbox l' Server = [b]" using l'(3) by simp
  moreover from supervision_runs_out [OF l r_into_rtranclp [of link_step, OF l'(1)] this]
  obtain c' where "receive_spdu b (endp l' Server) = Inr c'" "ctsr (self c') = ts"
    unfolding Let_def by blast
  ultimately show ?thesis using in_stepD(3) [OF l'(2), of Client] by metis
qed

text \<open>
  C15. One lost telegram ends the connection: the side that misses it asks for a retransmission
  with the next one, the other side answers the request with a disconnection request of reason
  "retransmission failed" and closes, and so does the side that asked.
\<close>

theorem one_lost_telegram_closes:
  assumes "in_step f ts l" and "inbox l i = [lost, b]" and "inbox l (other i) = []"
  shows "\<exists>c1 q d1 d c2. receive_spdu b (endp l i) = Inr c1 \<and> sm_state (self c1) = STATE_RETR_REQ \<and>
    emitted (endp l i) c1 = [q] \<and> receive_spdu q (endp l (other i)) = Inr d1 \<and>
    sm_state (self d1) = STATE_CLOSED \<and> emitted (endp l (other i)) d1 = [d] \<and>
    telegram_of DISCONNECTION_REQUEST (disc_payload FAIL_RETRANSMISSION 0) (self d1) d \<and>
    receive_spdu d c1 = Inr c2 \<and> sm_state (self c2) = STATE_CLOSED \<and> emitted c1 c2 = []"
proof -
  note l = in_stepD [OF assms(1)]
  obtain t content sm where b: "telegram_of t content sm b" "t \<in> {HEARTBEAT, DATA}"
      "snt sm = snr (self (endp l i)) + 1"
    using l(5) [of i] by (auto simp: assms(2) carries_def)
  have ne: "snt sm \<noteq> snr (self (endp l i))" by (simp only: b(3) next_number not_False_eq_True)
  obtain c1 q where c1: "receive_spdu b (endp l i) = Inr c1" "able (f i) c1" "sm_state (self c1) = STATE_RETR_REQ"
      "emitted (endp l i) c1 = [q]" "telegram_of RETRANSMISSION_REQUEST [] (self c1) q"
    by (rule miss_one [OF l(1,2) b(1,2) ne])
  obtain d1 d where d1: "receive_spdu q (endp l (other i)) = Inr d1" "sm_state (self d1) = STATE_CLOSED"
      "emitted (endp l (other i)) d1 = [d]"
      "telegram_of DISCONNECTION_REQUEST (disc_payload FAIL_RETRANSMISSION 0) (self d1) d"
    by (rule refuse_again [OF l(1,2) c1(5)])
  obtain c2 where "receive_spdu d c1 = Inr c2" "sm_state (self c2) = STATE_CLOSED" "emitted c1 c2 = []"
    by (rule told_to_close [OF c1(2) _ d1(4)]) (simp add: c1(3))
  with c1 d1 show ?thesis by blast
qed

theorem one_lost_telegram_closes_witness:
  "\<exists>(l :: link) b c1. length (inbox l Server) = 2 \<and> b = last (inbox l Server) \<and>
    receive_spdu b (endp l Server) = Inr c1 \<and> sm_state (self c1) = STATE_RETR_REQ"
proof -
  obtain c s ts where l: "in_step (\<lambda>_. App_SendSpdu 0) ts (quiet c s)" by (rule sample_in_step)
  obtain l1 b1 where l1: "in_step (\<lambda>_. App_SendSpdu 0) ts l1"
      "inbox l1 (other Client) = inbox (quiet c s) (other Client) @ [b1]" "inbox l1 Client = inbox (quiet c s) Client"
    by (rule in_step_beat [OF l, of Client])
  obtain l2 b2 where l2: "in_step (\<lambda>_. App_SendSpdu 0) ts l2"
      "inbox l2 (other Client) = inbox l1 (other Client) @ [b2]" "inbox l2 Client = inbox l1 Client"
    by (rule in_step_beat [OF l1(1), of Client])
  have box: "inbox l2 Server = [b1, b2]" "inbox l2 (other Server) = []" using l1 l2 by simp_all
  then have "length (inbox l2 Server) = 2 \<and> b2 = last (inbox l2 Server)" by simp
  with one_lost_telegram_closes [OF l2(1) box] show ?thesis by blast
qed

text \<open>
  C12. The safety code of a received telegram is not checked: take any bytes whose length field is
  at least 36 and not more than what was received, and any other bytes that agree with them up to
  the eight bytes of safety code at the end of the telegram. Both are received without a fault, for any
  message type, state and role of a receiver that has its clock and callbacks, and they leave the same connection behind. The one exception is a connection
  request or response with a payload of less than four bytes: \<open>check_version\<close> compares the four
  bytes from offset 28, which then lie in the safety code wholly or in part, with \<open>0301\<close>. A server
  that waits for a request accepts it if and only if these four bytes match, so that for such a
  request the safety code decides.
\<close>

theorem safety_code_not_checked:
  assumes "able f c" and "36 \<le> length_field b" and "length_field b \<le> length b" and "length_field b \<le> length b'"
    and "take (length_field b - 8) b' = take (length_field b - 8) b"
  shows "\<exists>d d'. receive_spdu b c = Inr d \<and> receive_spdu b' c = Inr d' \<and>
    (\<not> (length_field b < 40 \<and> message_type (parsed b) \<in> {message_code CONNECTION_REQUEST, message_code CONNECTION_RESPONSE}) \<longrightarrow>
      self d = self d') \<and>
    (message_type (parsed b) = message_code CONNECTION_REQUEST \<and> sm_state (self c) = STATE_DOWN \<longrightarrow>
      sm_state (self d) = (if take 4 (drop 28 b) = [0x30, 0x33, 0x30, 0x31] then STATE_START else STATE_CLOSED) \<and>
      sm_state (self d') = (if take 4 (drop 28 b') = [0x30, 0x33, 0x30, 0x31] then STATE_START else STATE_CLOSED))"
proof -
  let ?n = "length_field b" and ?k = "clock_calls (mem c)" and ?r = "fst (snt_rand_value (mem c))"
  have same: "parsed b' = parsed b"
    by (rule parsed_cong) (rule take_shorter [OF assms(5)], use assms(2-4) in simp_all)
  obtain d where d: "receive_spdu b c = Inr d" "follows (received_action b c) f (received_frame b c) d \<or> d = received_frame b c \<and> received_action b c = Ignore"
    using receive_bytes [OF assms(1-3)] by blast
  obtain d' where d': "receive_spdu b' c = Inr d'" "follows (received_action b' c) f (received_frame b' c) d' \<or> d' = received_frame b' c \<and> received_action b' c = Ignore"
    using receive_bytes [OF assms(1), of b'] assms(2,4) same by auto
  have pdu: "pdu_of (received_frame b' c) = pdu_of (received_frame b c)" by (simp add: received_frame_def same)
  have self: "self d = received_self (received_action b c) b c" by (rule received_self [OF d(2) assms(1)])
  have self': "self d' = received_self (received_action b' c) b' c" by (rule received_self [OF d'(2) assms(1)])
  have "self d = self d'"
    if "\<not> (?n < 40 \<and> message_type (parsed b) \<in> {message_code CONNECTION_REQUEST, message_code CONNECTION_RESPONSE})"
  proof -
    have "received_action b' c = received_action b c"
      by (rule received_action_cong [OF same]) (use that take_shorter [OF assms(5), of 32] assms(3,4) in auto)
    then show ?thesis by (simp add: self self' received_self_def pdu)
  qed
  moreover have "sm_state (received_self (received_action x c) x c) =
      (if take 4 (drop 28 x) = [0x30, 0x33, 0x30, 0x31] then STATE_START else STATE_CLOSED)"
    if "message_type (parsed x) = message_code CONNECTION_REQUEST" "sm_state (self c) = STATE_DOWN" for x
    using that by (simp add: received_self_def received_action_def plan_event_def received_version after_simps del: message_code.simps)
  ultimately show ?thesis using d(1) d'(1) self self' same by (simp del: message_code.simps)
qed

theorem safety_code_not_checked_witness:
  "(\<exists>d d'. receive_spdu ([0, 36, 0x18, 0x4C] @ replicate 32 0) (sample_frame ROLE_SERVER STATE_UP zero_pdu) = Inr d \<and>
    receive_spdu ([0, 36, 0x18, 0x4C] @ replicate 24 0 @ replicate 8 9) (sample_frame ROLE_SERVER STATE_UP zero_pdu) = Inr d' \<and>
    self d = self d') \<and>
   (\<exists>d d'. receive_spdu ([0, 36, 0x18, 0x38] @ replicate 32 0) (sample_frame ROLE_SERVER STATE_DOWN zero_pdu) = Inr d \<and>
    receive_spdu ([0, 36, 0x18, 0x38] @ replicate 24 0 @ [0x30, 0x33, 0x30, 0x31, 0, 0, 0, 0])
      (sample_frame ROLE_SERVER STATE_DOWN zero_pdu) = Inr d' \<and>
    sm_state (self d) = STATE_CLOSED \<and> sm_state (self d') = STATE_START)"
proof -
  let ?hb = "0 # 36 # 0x18 # 0x4C # replicate 32 0" and ?hb' = "0 # 36 # 0x18 # 0x4C # replicate 24 0 @ replicate 8 9"
  let ?rq = "0 # 36 # 0x18 # 0x38 # replicate 32 0"
    and ?rq' = "0 # 36 # 0x18 # 0x38 # replicate 24 0 @ [0x30, 0x33, 0x30, 0x31, 0, 0, 0, 0]"
  have fields: "length_field ?hb = 36" "length_field ?rq = 36" "message_type (parsed ?hb) = 0x184C" "message_type (parsed ?rq) = 0x1838"
    by (simp_all add: parsed_def)
  have state: "sm_state (self (sample_frame ROLE_SERVER STATE_DOWN zero_pdu)) = STATE_DOWN"
    by (simp add: sample_frame_def sample_sm_def)
  have zeros: "replicate 4 0 \<noteq> [0x30, 0x33, 0x30, 0x31 :: u8]" by code_simp
  have "take 28 ?hb' = take 28 ?hb" "take 28 ?rq' = take 28 ?rq" "drop 28 ?rq = replicate 8 0"
      "drop 28 ?rq' = [0x30, 0x33, 0x30, 0x31, 0, 0, 0, 0]"
    by simp_all
  then show ?thesis
    using safety_code_not_checked [OF sample_able, of ?hb ?hb' ROLE_SERVER STATE_UP]
      safety_code_not_checked [OF sample_able, of ?rq ?rq' ROLE_SERVER STATE_DOWN]
    by (simp add: fields state zeros)
qed

text \<open>The handshake between fresh connections, as the steps of both sides.\<close>

definition handshaken :: "frame \<Rightarrow> frame \<Rightarrow> frame \<Rightarrow> frame \<Rightarrow> bool" where
  "handshaken c s c2 s2 \<longleftrightarrow> (\<exists>c1 b1 s1 b2 b3. Sm_HandleEvent EVENT_OPEN_CONN (c\<lparr>pdu_of := zero_pdu\<rparr>) = Inr c1 \<and>
     emitted c c1 = [b1] \<and> receive_spdu b1 s = Inr s1 \<and> emitted s s1 = [b2] \<and>
     receive_spdu b2 c1 = Inr c2 \<and> emitted c1 c2 = [b3] \<and> receive_spdu b3 s1 = Inr s2)"

definition fresh_pair :: "(side \<Rightarrow> send_fn) \<Rightarrow> frame \<Rightarrow> frame \<Rightarrow> bool" where
  "fresh_pair f c s \<longleftrightarrow> able (f Client) c \<and> able (f Server) s \<and>
     sm_role (self c) = ROLE_CLIENT \<and> sm_state (self c) = STATE_CLOSED \<and>
     sm_role (self s) = ROLE_SERVER \<and> sm_state (self s) = STATE_DOWN \<and>
     0 < Tmax (timeouts (sm_time (self c))) \<and> 0 < Tmax (timeouts (sm_time (self s)))"

lemma handshaken_in_step:
  assumes "fresh_pair f c s" and "handshaken c s c2 s2"
  shows "in_step f (reading (mem s) (clock_calls (mem s))) (quiet c2 s2) \<and> snt (self c2) = fst (snt_rand_value (mem c)) + 1"
proof -
  have p: "able (f Client) c" "able (f Server) s" "sm_role (self c) = ROLE_CLIENT" "sm_state (self c) = STATE_CLOSED"
      "sm_role (self s) = ROLE_SERVER" "sm_state (self s) = STATE_DOWN"
      "0 < Tmax (timeouts (sm_time (self c)))" "0 < Tmax (timeouts (sm_time (self s)))"
    using assms(1) by (simp_all add: fresh_pair_def)
  from handshake [OF p] assms(2) show ?thesis
    unfolding handshaken_def by (metis sum.inject(2) list.inject)
qed

lemma send_data_returns:
  assumes able: "able f c" and "sm_state (self c) = STATE_UP" and len: "length content \<le> 22"
  shows "\<exists>c'. send_data content c = Inr c'"
proof -
  let ?n = "word_of_nat (length content) :: u8"
  let ?c = "c\<lparr>pdu_of := zero_pdu, mem := (mem c)\<lparr>ext := (ext (mem c))(1 := content)\<rparr>\<rparr>"
  have n: "unat ?n = length content" using len by (simp add: unat_of_nat)
  have op: "operational f ?c" by (rule able_holding [OF able])
  obtain c1 where c1: "Data ?n (Ptr (Ext 1) 0) ?c = Inr c1" "operational f c1" "sendable (mem c1) (pdu_of c1)"
      "self c1 = counted True (self c)"
    by (rule Data_frame [OF op, of ?n 0 1]) (use n len in auto)
  have adm: "admissible EVENT_SEND_DATA c1" using c1(3) by (simp add: admissible_def)
  have cons: "consistent (self c1)" using able c1(4) by (simp add: able_def consistent_def)
  obtain c' where "Sm_HandleEvent EVENT_SEND_DATA c1 = Inr c'" by (rule event_step [OF c1(2) cons adm])
  with c1(1) show ?thesis by (simp add: send_data_def)
qed

lemma receive_expected:
  assumes able: "able f c" and "sm_state (self c) = STATE_UP" and tel: "telegram_of DATA content sm b"
    and "snt sm = snr (self c)" and "ctsr sm - ctsr (self c) < Tmax (timeouts (sm_time (self c)))"
  shows "\<exists>c'. receive_spdu b c = Inr c' \<and> sm_state (self c') = STATE_UP \<and> snr (self c') = snr (self c) + 1"
proof -
  obtain c0 c' where r: "receive_spdu b c = Inr c'" "follows (planned c0 EVENT_RECV_DATA) f c0 c'" "self c0 = self c"
      "sequence_number (pdu_of c0) = snt sm" "confirmed_timestamp (pdu_of c0) = ctsr sm"
    by (rule receive_telegram [OF tel able]) auto
  have plan: "planned c0 EVENT_RECV_DATA = Accept STATE_UP"
    using r(3-5) assms(2,4,5) by (simp add: plan_event_def judged_def judge_def check_seq_confirmed_timestamp_def)
  from followsD(4) [OF r(2), unfolded plan] r(1,3,4) assms(4) show ?thesis
    by (intro exI [of _ c']) (simp add: after_simps)
qed

text \<open>
  C13. A recording is accepted after a restart: the first sequence number of a client depends on
  its seed alone, which is the same constant at every program start. A data telegram of one run
  is accepted in another run, by a server that the client of that run has sent no data, whenever
  the server's clock at the first handshake shows what it shows at the second or is ahead of it by
  less than \<open>Tmax\<close>, modulo \<open>2 ^ 32\<close>.
\<close>

theorem recording_accepted_after_restart:
  assumes "fresh_pair f c s" and "handshaken c s c2 s2" and "send_data content c2 = Inr c3" and "emitted c2 c3 = [b]"
    and "fresh_pair f' c' s'" and "handshaken c' s' c2' s2'" and "seed (mem c') = seed (mem c)"
    and "reading (mem s) (clock_calls (mem s)) - reading (mem s') (clock_calls (mem s')) < Tmax (timeouts (sm_time (self s2')))"
  shows "\<exists>s3. receive_spdu b s2' = Inr s3 \<and> sm_state (self s3) = STATE_UP \<and> snr (self s3) = snr (self s2') + 1"
proof -
  have one: "in_step f (reading (mem s) (clock_calls (mem s))) (quiet c2 s2)" "snt (self c2) = fst (snt_rand_value (mem c)) + 1"
    using handshaken_in_step [OF assms(1,2)] by simp_all
  have two: "in_step f' (reading (mem s') (clock_calls (mem s'))) (quiet c2' s2')" "snt (self c2') = fst (snt_rand_value (mem c)) + 1"
    using handshaken_in_step [OF assms(5,6)] assms(7) by (simp_all add: snt_rand_value_def Let_def)
  have c2: "able (f Client) c2" "sm_state (self c2) = STATE_UP" "ctsr (self c2) = reading (mem s) (clock_calls (mem s))"
    using one(1) by (simp_all add: in_step_quiet)
  have s2: "able (f' Server) s2'" "sm_state (self s2') = STATE_UP" "ctsr (self s2') = reading (mem s') (clock_calls (mem s'))"
      "snr (self s2') = snt (self c2') + 1"
    using two(1) by (simp_all add: in_step_quiet)
  obtain payload where sent: "stays_up (f Client) 1 0 c2 c3" "telegram_of DATA payload (self c3) b"
    using send_up [OF c2(1,2) assms(3)] assms(4) by (metis list.inject)
  have "snt (self c3) = snr (self s2')" "ctsr (self c3) = reading (mem s) (clock_calls (mem s))"
    using sent(1) one(2) two(2) s2(4) c2(3) by (simp_all add: stays_up_def)
  then show ?thesis using receive_expected [OF s2(1,2) sent(2)] assms(8) s2(3) by simp
qed

theorem recording_accepted_after_restart_witness:
  "\<exists>c2 s2 c3 b s3. handshaken (sample_frame ROLE_CLIENT STATE_CLOSED zero_pdu) (sample_frame ROLE_SERVER STATE_DOWN zero_pdu) c2 s2 \<and>
    send_data [7] c2 = Inr c3 \<and> emitted c2 c3 = [b] \<and> receive_spdu b s2 = Inr s3 \<and> sm_state (self s3) = STATE_UP"
proof -
  let ?f = "\<lambda>_. App_SendSpdu 0" and ?c = "sample_frame ROLE_CLIENT STATE_CLOSED zero_pdu"
    and ?s = "sample_frame ROLE_SERVER STATE_DOWN zero_pdu"
  have pair: "fresh_pair ?f ?c ?s" by (simp add: fresh_pair_def sample_able sample_Tmax)
  obtain c2 s2 where run: "handshaken ?c ?s c2 s2" and l: "in_step ?f (reading (mem ?s) (clock_calls (mem ?s))) (quiet c2 s2)"
    by (rule handshake [of ?f ?c ?s]) (auto simp: sample_able sample_Tmax handshaken_def)
  have c2: "able (?f Client) c2" "sm_state (self c2) = STATE_UP" "0 < Tmax (timeouts (sm_time (self s2)))"
    using l by (simp_all add: in_step_quiet)
  obtain c3 where c3: "send_data [7] c2 = Inr c3" using send_data_returns [OF c2(1,2), of "[7]"] by auto
  obtain b where b: "emitted c2 c3 = [b]" using send_up [OF c2(1,2) c3] by metis
  obtain s3 where "receive_spdu b s2 = Inr s3" "sm_state (self s3) = STATE_UP"
    using recording_accepted_after_restart [OF pair run c3 b pair run refl] c2(3) by auto
  with run c3 b show ?thesis by blast
qed

end
