(* ===== verification/Network.thy ===== *)
theory Network
  imports Link_Theorems "HOL-Library.Sublist"
begin

text \<open>
  Two connections on an unreliable network: a telegram that was sent can be delivered never, once
  or many times, at once or much later, in any order. The argument needs little of the nodes: the
  locale \<open>sequenced_node\<close> states it, and the state machine provides it from an established
  connection on, with closing by the user, the timers and all that is received.
\<close>

section \<open>Nodes and the network\<close>

text \<open>All that was handed to the network by each side, and all that each side accepted, in order.\<close>

record ('s, 'm) net =
  peer :: "side \<Rightarrow> 's"
  wire :: "side \<Rightarrow> 'm list"
  taken :: "side \<Rightarrow> 'm list"

definition stepped :: "side \<Rightarrow> 's \<Rightarrow> 'm list \<Rightarrow> 'm list \<Rightarrow> ('s, 'm) net \<Rightarrow> ('s, 'm) net" where
  "stepped i s out got l = \<lparr>peer = (peer l)(i := s), wire = (wire l)(i := wire l i @ out),
     taken = (taken l)(i := taken l i @ got)\<rparr>"

lemma stepped_simps [simp]:
  "peer (stepped i s out got l) j = (if j = i then s else peer l j)"
  "wire (stepped i s out got l) j = (if j = i then wire l i @ out else wire l j)"
  "taken (stepped i s out got l) j = (if j = i then taken l i @ got else taken l j)"
  by (simp_all add: stepped_def)

text \<open>
  A node acts by itself or receives any telegram the other side ever sent; \<open>acts s out s'\<close> and
  \<open>gets s m acc out s'\<close> say what it then sends, and whether it accepted the telegram.
\<close>

inductive net_step ::
    "('s \<Rightarrow> 'm list \<Rightarrow> 's \<Rightarrow> bool) \<Rightarrow> ('s \<Rightarrow> 'm \<Rightarrow> bool \<Rightarrow> 'm list \<Rightarrow> 's \<Rightarrow> bool) \<Rightarrow> ('s, 'm) net \<Rightarrow> ('s, 'm) net \<Rightarrow> bool"
  for acts gets where
  net_act: "acts (peer l i) out s' \<Longrightarrow> net_step acts gets l (stepped i s' out [] l)"
| net_get: "m \<in> set (wire l (other i)) \<Longrightarrow> gets (peer l i) m acc out s' \<Longrightarrow>
    net_step acts gets l (stepped i s' out (if acc then [m] else []) l)"

text \<open>
  What a node sends in one step: nothing, one telegram with the next number, or, as it stops,
  one telegram that is not part of the sequence.
\<close>

definition sends_next :: "('s \<Rightarrow> bool) \<Rightarrow> ('s \<Rightarrow> u32) \<Rightarrow> (u32 \<Rightarrow> 'm \<Rightarrow> bool) \<Rightarrow> ('m \<Rightarrow> bool) \<Rightarrow> 's \<Rightarrow> 'm list \<Rightarrow> 's \<Rightarrow> bool" where
  "sends_next live used bears final s out s' \<longleftrightarrow>
     (out = [] \<and> (live s' \<longrightarrow> live s \<and> used s' = used s)) \<or>
     (\<exists>m. out = [m] \<and> live s \<and> live s' \<and> used s' = used s + 1 \<and> bears (used s + 1) m) \<or>
     (\<exists>m. out = [m] \<and> \<not> live s' \<and> final m)"

lemma word_of_nat_32:
  assumes "word_of_nat a = (word_of_nat b :: u32)" and "a < 2 ^ 32" and "b < 2 ^ 32"
  shows "a = b"
  using arg_cong [OF assms(1), of unat] assms(2,3) by (simp add: unat_of_nat)

locale sequenced_node =
  fixes ok :: "'s \<Rightarrow> bool" and live :: "'s \<Rightarrow> bool" and used :: "'s \<Rightarrow> u32" and awaits :: "'s \<Rightarrow> u32"
    and bears :: "u32 \<Rightarrow> 'm \<Rightarrow> bool" and final :: "'m \<Rightarrow> bool"
    and acts :: "'s \<Rightarrow> 'm list \<Rightarrow> 's \<Rightarrow> bool" and gets :: "'s \<Rightarrow> 'm \<Rightarrow> bool \<Rightarrow> 'm list \<Rightarrow> 's \<Rightarrow> bool"
  assumes acts_law: "ok s \<Longrightarrow> acts s out s' \<Longrightarrow>
      ok s' \<and> awaits s' = awaits s \<and> sends_next live used bears final s out s'"
    and gets_law: "ok s \<Longrightarrow> gets s m acc out s' \<Longrightarrow> bears n m \<or> final m \<Longrightarrow>
      ok s' \<and> sends_next live used bears final s out s' \<and> awaits s' = (if acc then awaits s + 1 else awaits s)"
    and accepts_law: "ok s \<Longrightarrow> gets s m True out s' \<Longrightarrow> (bears n m \<longrightarrow> n = awaits s) \<and> \<not> final m"
    and gets_total: "ok s \<Longrightarrow> bears n m \<or> final m \<Longrightarrow> \<exists>acc out s'. gets s m acc out s'"
begin

text \<open>What a side has sent: numbers from \<open>base\<close> on, then telegrams outside the sequence.\<close>

definition spoken :: "u32 \<Rightarrow> 's \<Rightarrow> 'm list \<Rightarrow> bool" where
  "spoken base s ms \<longleftrightarrow> (\<exists>nums fins. ms = nums @ fins \<and>
     (\<forall>j < length nums. bears (base + word_of_nat j) (nums ! j)) \<and> (\<forall>m \<in> set fins. final m) \<and>
     (live s \<longrightarrow> fins = [] \<and> used s + 1 = base + word_of_nat (length nums)))"

lemma spoken_step:
  assumes "spoken base s ms" and sends: "sends_next live used bears final s out s'"
  shows "spoken base s' (ms @ out)"
proof -
  obtain nums fins where ms: "ms = nums @ fins" "\<forall>j < length nums. bears (base + word_of_nat j) (nums ! j)"
      "\<forall>m \<in> set fins. final m" "live s \<Longrightarrow> fins = [] \<and> used s + 1 = base + word_of_nat (length nums)"
    using assms(1) by (auto simp: spoken_def)
  consider (none) "out = []" "live s' \<Longrightarrow> live s \<and> used s' = used s"
    | (numbered) m where "out = [m]" "live s" "used s' = used s + 1" "bears (used s + 1) m"
    | (stops) m where "out = [m]" "\<not> live s'" "final m"
    using sends by (auto simp: sends_next_def)
  then show ?thesis
  proof cases
    case none
    then show ?thesis using ms unfolding spoken_def by (intro exI [of _ nums] exI [of _ fins]) auto
  next
    case numbered
    then show ?thesis using ms unfolding spoken_def
      by (intro exI [of _ "nums @ [m]"] exI [of _ "[]"]) (auto simp: nth_append less_Suc_eq add.assoc)
  next
    case stops
    then show ?thesis using ms unfolding spoken_def by (intro exI [of _ nums] exI [of _ "fins @ [m]"]) auto
  qed
qed

lemma spoken_member: "spoken base s ms \<Longrightarrow> m \<in> set ms \<Longrightarrow> (\<exists>n. bears n m) \<or> final m"
  unfolding spoken_def by (metis Un_iff in_set_conv_nth set_append)

text \<open>A telegram that is accepted is the one behind those accepted so far.\<close>

lemma accepts_next:
  assumes ms: "spoken base s ms" and m: "m \<in> set ms" and len: "length ms < 2 ^ 32"
    and got: "prefix got ms" "awaits r = base + word_of_nat (length got)"
    and acc: "ok r" "gets r m True out r'"
  shows "prefix (got @ [m]) ms"
proof -
  obtain nums fins where parts: "ms = nums @ fins" "\<forall>j < length nums. bears (base + word_of_nat j) (nums ! j)"
      "\<forall>m \<in> set fins. final m"
    using ms by (auto simp: spoken_def)
  have "m \<in> set nums" using m parts(1,3) accepts_law [OF acc] by auto
  then obtain j where j: "j < length nums" "m = nums ! j" by (auto simp: in_set_conv_nth)
  then have "base + word_of_nat j = awaits r" using parts(2) accepts_law [OF acc] by blast
  then have "word_of_nat j = (word_of_nat (length got) :: u32)" by (simp add: got(2))
  moreover have "j < 2 ^ 32" "length got < 2 ^ 32"
    using j(1) len parts(1) prefix_length_le [OF got(1)] by auto
  ultimately have "j = length got" by (rule word_of_nat_32)
  moreover have "length got < length ms" "ms ! length got = m"
    using j parts(1) \<open>j = length got\<close> by (auto simp: nth_append)
  ultimately show ?thesis
    using got(1) by (metis append_one_prefix)
qed

definition sequenced :: "(side \<Rightarrow> u32) \<Rightarrow> ('s, 'm) net \<Rightarrow> bool" where
  "sequenced base l \<longleftrightarrow> (\<forall>i. ok (peer l i) \<and> spoken (base i) (peer l i) (wire l i) \<and>
     (length (wire l (other i)) < 2 ^ 32 \<longrightarrow> prefix (taken l i) (wire l (other i)) \<and>
        awaits (peer l i) = base (other i) + word_of_nat (length (taken l i))))"

lemma sequencedD:
  assumes "sequenced base l"
  shows "ok (peer l i)" and "spoken (base i) (peer l i) (wire l i)"
    and "length (wire l (other i)) < 2 ^ 32 \<Longrightarrow> prefix (taken l i) (wire l (other i)) \<and>
      awaits (peer l i) = base (other i) + word_of_nat (length (taken l i))"
  using assms by (auto simp: sequenced_def)

text \<open>One side steps: it keeps what it must, and its accepted telegrams stay a prefix.\<close>

lemma sequenced_stepped:
  assumes l: "sequenced base l" and ok: "ok s'" and sends: "sends_next live used bears final (peer l i) out s'"
    and prefix: "length (wire l (other i)) < 2 ^ 32 \<Longrightarrow> prefix (taken l i @ got) (wire l (other i))"
    and awaits: "awaits s' = awaits (peer l i) + word_of_nat (length got)"
  shows "sequenced base (stepped i s' out got l)"
  unfolding sequenced_def
proof
  fix j
  note L = sequencedD [OF l]
  have spoken: "spoken (base i) s' (wire l i @ out)" by (rule spoken_step [OF L(2) sends])
  consider (this_side) "j = i" | (other_side) "j = other i" using side_cases by blast
  then show "ok (peer (stepped i s' out got l) j) \<and>
      spoken (base j) (peer (stepped i s' out got l) j) (wire (stepped i s' out got l) j) \<and>
      (length (wire (stepped i s' out got l) (other j)) < 2 ^ 32 \<longrightarrow>
        prefix (taken (stepped i s' out got l) j) (wire (stepped i s' out got l) (other j)) \<and>
        awaits (peer (stepped i s' out got l) j) =
          base (other j) + word_of_nat (length (taken (stepped i s' out got l) j)))"
  proof cases
    case this_side
    then show ?thesis using ok spoken prefix awaits L(3) [of i] by (simp add: add.assoc)
  next
    case other_side
    then show ?thesis using L(1,2) [of j] L(3) [of j] by (auto intro: prefix_order.trans)
  qed
qed

lemma sequenced_net_step:
  assumes "net_step acts gets l l'" and l: "sequenced base l"
  shows "sequenced base l'"
  using assms(1)
proof cases
  case (net_act i out s')
  show ?thesis unfolding net_act(1)
    by (rule sequenced_stepped [OF l]) (use acts_law [OF sequencedD(1) [OF l] net_act(2)] sequencedD(3) [OF l] in auto)
next
  case (net_get m i acc out s')
  have m: "(\<exists>n. bears n m) \<or> final m" by (rule spoken_member [OF sequencedD(2) [OF l] net_get(2)])
  then have law: "ok s' \<and> sends_next live used bears final (peer l i) out s' \<and>
      awaits s' = (if acc then awaits (peer l i) + 1 else awaits (peer l i))"
    using gets_law [OF sequencedD(1) [OF l] net_get(3)] by blast
  have "prefix (taken l i @ (if acc then [m] else [])) (wire l (other i))" if "length (wire l (other i)) < 2 ^ 32"
  proof (cases acc)
    case True
    have acc: "gets (peer l i) m True out s'" using net_get(3) True by simp
    show ?thesis
      using accepts_next [OF sequencedD(2) [OF l, of "other i"] net_get(2) that _ _ sequencedD(1) [OF l] acc]
        sequencedD(3) [OF l that] True by simp
  qed (use sequencedD(3) [OF l that] in simp)
  then show ?thesis unfolding net_get(1) by (intro sequenced_stepped [OF l]) (use law in auto)
qed

lemma sequenced_net_steps:
  "(net_step acts gets)\<^sup>*\<^sup>* l l' \<Longrightarrow> sequenced base l \<Longrightarrow> sequenced base l'"
  by (induction rule: rtranclp_induct) (auto intro: sequenced_net_step)

lemma sequenced_receivable:
  assumes "sequenced base l" and "m \<in> set (wire l (other i))"
  shows "\<exists>acc out s'. gets (peer l i) m acc out s'"
  using gets_total sequencedD(1) [OF assms(1)] spoken_member [OF sequencedD(2) [OF assms(1)] assms(2)] by blast

lemma sequenced_start:
  assumes "\<And>i. ok (peer l i)" and "\<And>i. wire l i = []" and "\<And>i. taken l i = []"
    and "\<And>i. awaits (peer l i) = used (peer l (other i)) + 1"
  shows "sequenced (\<lambda>i. used (peer l i) + 1) l"
  using assms by (auto simp: sequenced_def spoken_def)

end


section \<open>The state machine as a sequenced node\<close>

definition bears_number :: "u32 \<Rightarrow> u8 list \<Rightarrow> bool" where
  "bears_number n b \<longleftrightarrow> (\<exists>t content sm. t \<in> {HEARTBEAT, DATA, RETRANSMISSION_REQUEST} \<and>
     telegram_of t content sm b \<and> snt sm = n)"

definition disconnects :: "u8 list \<Rightarrow> bool" where
  "disconnects b \<longleftrightarrow> (\<exists>content sm. telegram_of DISCONNECTION_REQUEST content sm b)"

definition talking :: "frame \<Rightarrow> bool" where
  "talking c \<longleftrightarrow> (\<exists>f. able f c) \<and> sm_state (self c) \<in> {STATE_UP, STATE_RETR_REQ, STATE_CLOSED}"

definition connected :: "frame \<Rightarrow> bool" where
  "connected c \<longleftrightarrow> sm_state (self c) \<noteq> STATE_CLOSED"

definition last_number :: "frame \<Rightarrow> u32" where
  "last_number c = snt (self c)"

definition expected_number :: "frame \<Rightarrow> u32" where
  "expected_number c = snr (self c)"

abbreviation speaks :: "frame \<Rightarrow> u8 list list \<Rightarrow> frame \<Rightarrow> bool" where
  "speaks \<equiv> sends_next connected last_number bears_number disconnects"

text \<open>
  On its own account a side beats, sends data, closes at the user's request, or finds that its
  timer has elapsed. A received telegram counts as accepted when the connection is up after it.
\<close>

inductive does :: "frame \<Rightarrow> u8 list list \<Rightarrow> frame \<Rightarrow> bool" where
  does_beat: "beat c = Inr c' \<Longrightarrow> does c (emitted c c') c'"
| does_send: "send_data content c = Inr c' \<Longrightarrow> does c (emitted c c') c'"
| does_event: "event \<in> {EVENT_CLOSE_CONN, EVENT_TI_ELAPSED} \<Longrightarrow>
    Sm_HandleEvent event (c\<lparr>pdu_of := zero_pdu\<rparr>) = Inr c' \<Longrightarrow> does c (emitted c c') c'"

inductive hears :: "frame \<Rightarrow> u8 list \<Rightarrow> bool \<Rightarrow> u8 list list \<Rightarrow> frame \<Rightarrow> bool" where
  hears_spdu: "receive_spdu b c = Inr c' \<Longrightarrow> hears c b (sm_state (self c') = STATE_UP) (emitted c c') c'"

inductive_cases hearsE: "hears c b acc out c'"

text \<open>What the actions that can happen say and leave, seen from the frame before the event's PDU.\<close>

lemma speaks_silent:
  assumes "follows a f c0 c'" and "says a = None" and "a \<noteq> Forward" and "sent (mem c0) = sent (mem c)"
    and "connected c' \<Longrightarrow> connected c \<and> snt (self c') = snt (self c)"
  shows "speaks c (emitted c c') c'"
  using followsD(6) [OF assms(1-3)] assms(4,5) by (simp add: sends_next_def emitted_def last_number_def)

lemma speaks_numbered:
  assumes "follows a f c0 c'" and "says a = Some (t, [])" and "t \<in> {HEARTBEAT, RETRANSMISSION_REQUEST}"
    and "sent (mem c0) = sent (mem c)" and "connected c" and "connected c'" and "snt (self c') = snt (self c) + 1"
  shows "speaks c (emitted c c') c'"
proof -
  obtain b where "emitted c c' = [b]" "telegram_of t [] (self c') b"
    by (rule transmits_emits [OF followsD(7) [OF assms(1,2)]]) (simp_all add: assms(4))
  with assms(3,5-7) show ?thesis
    unfolding sends_next_def bears_number_def last_number_def by blast
qed

lemma speaks_refusal:
  assumes "follows (Refuse reason) f c0 c'" and "sent (mem c0) = sent (mem c)"
  shows "speaks c (emitted c c') c'"
proof -
  have says: "says (Refuse reason) = Some (DISCONNECTION_REQUEST, disc_payload reason 0)" by simp
  obtain b where "emitted c c' = [b]" "telegram_of DISCONNECTION_REQUEST (disc_payload reason 0) (self c') b"
    by (rule transmits_emits [OF followsD(7) [OF assms(1) says]]) (simp_all add: assms(2) disc_payload_def be16_def)
  moreover have "\<not> connected c'" using follows_state [OF assms(1)] by (simp add: connected_def)
  ultimately show ?thesis by (auto simp: sends_next_def disconnects_def)
qed

lemma step_talks:
  assumes step: "follows a f c0 c'" and same: "self c0 = self c" "sent (mem c0) = sent (mem c)" and "talking c"
    and a: "a \<in> {Ignore, Close} \<or> (\<exists>reason. a = Refuse reason) \<or> connected c \<and> a \<in> {Beat, Ask_again, Accept STATE_UP}"
  shows "talking c' \<and> speaks c (emitted c c') c' \<and>
    snr (self c') = (if a = Accept STATE_UP then sequence_number (pdu_of c0) + 1 else snr (self c))"
proof -
  have talks: "talking c'" if "target a (sm_state (self c)) \<in> {STATE_UP, STATE_RETR_REQ, STATE_CLOSED}"
    using able_after [OF step] follows_state [OF step] that same(1) by (auto simp: talking_def)
  have live: "connected c' \<longleftrightarrow> target a (sm_state (self c)) \<noteq> STATE_CLOSED"
    using follows_state [OF step] same(1) by (simp add: connected_def)
  have snr: "snr (self c') = (if a = Accept STATE_UP then sequence_number (pdu_of c0) + 1 else snr (self c))"
    and snt: "snt (self c') = (if a \<in> {Beat, Ask_again} \<or> (\<exists>reason. a = Refuse reason) then snt (self c) + 1 else snt (self c))"
    using a followsD(4) [OF step] same(1) by (auto simp: after_simps)
  have "speaks c (emitted c c') c'"
    using a
  proof (elim disjE conjE exE)
    fix reason assume "a = Refuse reason"
    with step same(2) show ?thesis using speaks_refusal by metis
  next
    assume "a \<in> {Ignore, Close}"
    then have "says a = None" "a \<noteq> Forward" by auto
    from this same(2) show ?thesis
      by (rule speaks_silent [OF step]) (use \<open>a \<in> {Ignore, Close}\<close> live snt in \<open>auto simp: connected_def\<close>)
  next
    assume c: "connected c" and "a \<in> {Beat, Ask_again, Accept STATE_UP}"
    then consider (beat) "a = Beat" | (ask) "a = Ask_again" | (accept) "a = Accept STATE_UP" by blast
    then show ?thesis
    proof cases
      case beat
      then show ?thesis
        using c live snt by (intro speaks_numbered [OF step _ _ same(2), of HEARTBEAT]) (auto simp: connected_def)
    next
      case ask
      then show ?thesis
        using c live snt by (intro speaks_numbered [OF step _ _ same(2), of RETRANSMISSION_REQUEST]) (auto simp: connected_def)
    next
      case accept
      then show ?thesis using c snt by (intro speaks_silent [OF step _ _ same(2)]) auto
    qed
  qed
  moreover have "talking c'"
    using a talks assms(4) by (auto simp: talking_def connected_def)
  ultimately show ?thesis using snr by blast
qed

lemma event_talks:
  assumes "talking c" and ev: "event \<in> {EVENT_TH_ELAPSED, EVENT_CLOSE_CONN, EVENT_TI_ELAPSED}"
    and handled: "Sm_HandleEvent event (c\<lparr>pdu_of := zero_pdu\<rparr>) = Inr c'"
  shows "talking c' \<and> speaks c (emitted c c') c' \<and> snr (self c') = snr (self c)"
proof -
  let ?c = "c\<lparr>pdu_of := zero_pdu\<rparr>"
  obtain f where able: "able f c" using assms(1) by (auto simp: talking_def)
  have adm: "admissible event ?c" using ev by (auto simp: admissible_def)
  have op: "operational f ?c" "consistent (self ?c)" using able by (simp_all add: able_def)
  have step: "follows (planned ?c event) f ?c c'" by (rule event_result [OF op adm handled])
  have "planned ?c event \<in> {Ignore, Close} \<or> (\<exists>reason. planned ?c event = Refuse reason) \<or>
      connected c \<and> planned ?c event \<in> {Beat}"
    using ev assms(1) by (auto simp: plan_event_def connected_def talking_def)
  with step_talks [OF step, of c] assms(1) show ?thesis by (auto split: if_splits)
qed

lemma send_talks:
  assumes "talking c" and sent: "send_data content c = Inr c'"
  shows "talking c' \<and> speaks c (emitted c c') c' \<and> snr (self c') = snr (self c)"
proof -
  obtain f where able: "able f c" using assms(1) by (auto simp: talking_def)
  obtain c1 payload where d: "self c1 = counted True (self c)" "sent (mem c1) = sent (mem c)"
      "follows (planned c1 EVENT_SEND_DATA) f c1 c'" "telegram_of DATA payload (self c1) (telegram (mem c1) (pdu_of c1))"
    by (rule send_frame [OF able sent])
  have state: "sm_state (self c1) = sm_state (self c)" "snr (self c1) = snr (self c)" "snt (self c1) = snt (self c) + 1"
    using d(1) by (simp_all add: counted_def)
  have plan: "planned c1 EVENT_SEND_DATA = (if connected c then Forward else Ignore)"
    using assms(1) state(1) by (auto simp: plan_event_def connected_def talking_def)
  have kept: "sm_state (self c') = sm_state (self c)" "snr (self c') = snr (self c)" "snt (self c') = snt (self c) + 1"
    using followsD(4) [OF d(3)] plan state by simp_all
  have "speaks c (emitted c c') c'"
  proof (cases "connected c")
    case True
    have "emitted c c' = [telegram (mem c1) (pdu_of c1)]"
      using followsD(8) [OF d(3)] plan True d(2) by (simp add: emitted_def)
    moreover have "bears_number (snt (self c) + 1) (telegram (mem c1) (pdu_of c1))"
      unfolding bears_number_def using d(4) state(3) by blast
    ultimately show ?thesis using True kept by (simp add: sends_next_def connected_def last_number_def)
  next
    case False
    then show ?thesis
      using followsD(6) [OF d(3)] plan d(2) kept(1) by (simp add: sends_next_def emitted_def connected_def)
  qed
  with able_after [OF d(3)] kept assms(1) show ?thesis by (auto simp: talking_def)
qed

lemma does_talks:
  "does c out c' \<Longrightarrow> talking c \<Longrightarrow> talking c' \<and> speaks c out c' \<and> snr (self c') = snr (self c)"
  by (cases rule: does.cases) (auto simp: beat_def dest: event_talks send_talks)

text \<open>A telegram of the peer, whichever it is.\<close>

lemma receive_talks:
  assumes "talking c" and tel: "telegram_of t content sm b"
    and t: "t \<in> {HEARTBEAT, DATA, RETRANSMISSION_REQUEST, DISCONNECTION_REQUEST}"
  shows "\<exists>c'. receive_spdu b c = Inr c' \<and> talking c' \<and> speaks c (emitted c c') c' \<and>
    snr (self c') = (if sm_state (self c') = STATE_UP then snr (self c) + 1 else snr (self c)) \<and>
    (sm_state (self c') = STATE_UP \<longrightarrow> t \<in> {HEARTBEAT, DATA} \<and> snt sm = snr (self c))"
proof -
  obtain f where able: "able f c" using assms(1) by (auto simp: talking_def)
  obtain c0 c' where r: "receive_spdu b c = Inr c'" "follows (planned c0 (event_for t)) f c0 c'"
      "self c0 = self c" "sent (mem c0) = sent (mem c)" "sequence_number (pdu_of c0) = snt sm"
    by (rule receive_telegram [OF tel able]) (use t in auto)
  let ?a = "planned c0 (event_for t)"
  have plan: "?a \<in> {Ignore, Close} \<or> (\<exists>reason. ?a = Refuse reason) \<or> connected c \<and> ?a \<in> {Beat, Ask_again, Accept STATE_UP}"
    using assms(1) t by (auto simp: r(3) plan_event_def judged_def connected_def talking_def split: if_splits)
  have accept: "t \<in> {HEARTBEAT, DATA} \<and> snt sm = snr (self c)" if "?a = Accept STATE_UP"
    using that assms(1) t by (auto simp: r(3,5) plan_event_def judged_def talking_def split: if_splits)
  have "sm_state (self c') = STATE_UP \<longleftrightarrow> ?a = Accept STATE_UP"
    using follows_state [OF r(2)] assms(1) t
    by (auto simp: r(3) plan_event_def judged_def talking_def split: if_splits)
  with r(1) step_talks [OF r(2-4) assms(1) plan] accept r(5) show ?thesis by auto
qed

lemma hears_talks:
  assumes "talking c" and "hears c b acc out c'"
    and "telegram_of t content sm b" and "t \<in> {HEARTBEAT, DATA, RETRANSMISSION_REQUEST, DISCONNECTION_REQUEST}"
  shows "talking c'" and "speaks c out c'" and "snr (self c') = (if acc then snr (self c) + 1 else snr (self c))"
    and "acc \<Longrightarrow> t \<in> {HEARTBEAT, DATA} \<and> snt sm = snr (self c)"
proof -
  have h: "receive_spdu b c = Inr c'" "out = emitted c c'" "acc \<longleftrightarrow> sm_state (self c') = STATE_UP"
    using assms(2) by (auto elim!: hearsE)
  from receive_talks [OF assms(1,3,4)] h
  show "talking c'" "speaks c out c'" "snr (self c') = (if acc then snr (self c) + 1 else snr (self c))"
    "acc \<Longrightarrow> t \<in> {HEARTBEAT, DATA} \<and> snt sm = snr (self c)" by simp_all
qed

lemma sent_telegram:
  assumes "bears_number n b \<or> disconnects b"
  obtains t content sm where "telegram_of t content sm b"
    and "t \<in> {HEARTBEAT, DATA, RETRANSMISSION_REQUEST, DISCONNECTION_REQUEST}"
  using assms by (auto simp: bears_number_def disconnects_def)

interpretation connection: sequenced_node talking connected last_number expected_number bears_number disconnects does hears
proof unfold_locales
  fix c out c'
  assume "talking c" and "does c out c'"
  then show "talking c' \<and> expected_number c' = expected_number c \<and> speaks c out c'"
    using does_talks by (simp add: expected_number_def)
next
  fix c b acc out c' n
  assume h: "talking c" "hears c b acc out c'" and "bears_number n b \<or> disconnects b"
  from this(3) obtain t content sm where "telegram_of t content sm b"
      "t \<in> {HEARTBEAT, DATA, RETRANSMISSION_REQUEST, DISCONNECTION_REQUEST}" by (rule sent_telegram)
  from hears_talks [OF h this]
  show "talking c' \<and> speaks c out c' \<and> expected_number c' = (if acc then expected_number c + 1 else expected_number c)"
    by (simp add: expected_number_def)
next
  fix c b out c' n
  assume h: "talking c" "hears c b True out c'"
  have "n = snr (self c)" if "bears_number n b"
    using that hears_talks(4) [OF h] unfolding bears_number_def by blast
  moreover have "\<not> disconnects b"
  proof
    assume "disconnects b"
    then obtain content sm where "telegram_of DISCONNECTION_REQUEST content sm b" by (auto simp: disconnects_def)
    from hears_talks(4) [OF h this] show False by simp
  qed
  ultimately show "(bears_number n b \<longrightarrow> n = expected_number c) \<and> \<not> disconnects b"
    by (simp add: expected_number_def)
next
  fix c b n
  assume c: "talking c" and "bears_number n b \<or> disconnects b"
  from this(2) obtain t content sm where "telegram_of t content sm b"
      "t \<in> {HEARTBEAT, DATA, RETRANSMISSION_REQUEST, DISCONNECTION_REQUEST}" by (rule sent_telegram)
  from receive_talks [OF c this] obtain c' where "receive_spdu b c = Inr c'" by blast
  then show "\<exists>acc out c'. hears c b acc out c'" using hears_spdu by blast
qed

section \<open>Properties\<close>

text \<open>The network of two connections before anything is sent.\<close>

definition calm :: "link \<Rightarrow> (frame, u8 list) net" where
  "calm l = \<lparr>peer = endp l, wire = \<lambda>_. [], taken = \<lambda>_. []\<rparr>"

lemma calm_sequenced:
  assumes "in_step f ts l" and "\<And>i. inbox l i = []"
  shows "connection.sequenced (\<lambda>i. snt (self (endp l i)) + 1) (calm l)"
proof -
  note L = in_stepD [OF assms(1)]
  have "talking (endp l i)" for i using L(1,2) [of i] by (auto simp: talking_def)
  moreover have "snr (self (endp l i)) = snt (self (endp l (other i))) + 1" for i
    using L(5) [of i] assms(2) [of i] by simp
  ultimately show ?thesis
    using connection.sequenced_start [of "calm l"]
    by (simp add: calm_def last_number_def expected_number_def)
qed

text \<open>
  C2. Safety on an unreliable network: from two connections in step, whatever each side does on
  its own account, and whatever the network loses, repeats, delays or reorders, what a side has
  accepted so far is an initial part of what the other has sent, in order and without gaps or
  repetitions, as long as that is less than \<open>2 ^ 32\<close> telegrams. The expected number counts the
  accepted telegrams, and each telegram under way can be received without a fault.
\<close>

theorem unreliable_network_safe:
  assumes "in_step f ts l" and "\<And>i. inbox l i = []" and "(net_step does hears)\<^sup>*\<^sup>* (calm l) n"
    and "length (wire n (other i)) < 2 ^ 32"
  shows "prefix (taken n i) (wire n (other i)) \<and>
    snr (self (peer n i)) = snr (self (endp l i)) + word_of_nat (length (taken n i)) \<and>
    (\<forall>b \<in> set (wire n (other i)). \<exists>c'. receive_spdu b (peer n i) = Inr c')"
proof -
  have n: "connection.sequenced (\<lambda>i. snt (self (endp l i)) + 1) n"
    using connection.sequenced_net_steps [OF assms(3) calm_sequenced [OF assms(1,2)]] .
  have "\<exists>c'. receive_spdu b (peer n i) = Inr c'" if "b \<in> set (wire n (other i))" for b
    using connection.sequenced_receivable [OF n that] by (auto elim!: hearsE)
  moreover have "snr (self (endp l i)) = snt (self (endp l (other i))) + 1"
    using in_stepD(5) [OF assms(1), of i] assms(2) [of i] by simp
  ultimately show ?thesis
    using connection.sequencedD(3) [OF n assms(4)] by (simp add: expected_number_def)
qed

theorem unreliable_network_safe_witness:
  "\<exists>(l :: link) n b c'. (net_step does hears)\<^sup>*\<^sup>* (calm l) n \<and> taken n Server = [b] \<and> prefix [b] (wire n Client) \<and>
    receive_spdu b (peer n Server) = Inr c'"
proof -
  obtain c s ts where l: "in_step (\<lambda>_. App_SendSpdu 0) ts (quiet c s)" by (rule sample_in_step)
  let ?l = "quiet c s" and ?n0 = "calm (quiet c s)"
  obtain c1 b where c1: "beat c = Inr c1" "stays_up (App_SendSpdu 0) 1 0 c c1" "emitted c c1 = [b]"
      "telegram_of HEARTBEAT [] (self c1) b"
    using beat_up [OF in_stepD(1,2) [OF l, of Client]] by (metis quiet_simps(1))
  define n1 where "n1 = stepped Client c1 [b] [] ?n0"
  have s: "able (App_SendSpdu 0) s" "sm_state (self s) = STATE_UP" "snt (self c1) = snr (self s)"
      "ctsr (self c1) = ctsr (self s)" "0 < Tmax (timeouts (sm_time (self s)))"
    using l c1(2) by (simp_all add: in_step_quiet stays_up_def)
  obtain s1 where s1: "receive_spdu b s = Inr s1" "stays_up (App_SendSpdu 0) 0 1 s s1" "emitted s s1 = []"
    by (rule receive_up [OF s(1,2) c1(4) _ s(3-5)]) simp_all
  define n2 where "n2 = stepped Server s1 [] [b] n1"
  have at: "peer ?n0 Client = c" "peer n1 Server = s" "wire n1 (other Server) = [b]" "wire n1 Client = [b]"
    by (simp_all add: n1_def calm_def)
  have "net_step does hears ?n0 n1"
    using net_act [of does ?n0 Client "[b]" c1 hears] does_beat [OF c1(1)] by (simp add: at(1) c1(3) n1_def)
  moreover have "hears s b True [] s1"
    using hears_spdu [OF s1(1)] s1(2,3) by (simp add: stays_up_def)
  then have "net_step does hears n1 n2"
    using net_get [of b n1 Server hears True "[]" s1 does] by (simp add: at n2_def)
  ultimately have run: "(net_step does hears)\<^sup>*\<^sup>* ?n0 n2" by simp
  have n2: "taken n2 Server = [b]" "wire n2 Client = [b]" by (simp_all add: n2_def n1_def calm_def)
  have "inbox ?l i = []" for i by simp
  from unreliable_network_safe [OF l this run, of Server] n2 run show ?thesis by fastforce
qed

end
