(* ===== verification/Test_Suites.thy ===== *)
theory Test_Suites
  imports Interface
begin

text \<open>
  The test programs in \<open>test/\<close>. A test works on the process of the library, in which the static
  array \<open>sms\<close> of one connection is array 0 and the local \<open>buffer\<close> of a receive test is the
  application's array 0. Its result is whether all \<open>assert_true\<close> hold. Of cmocka only that the
  tests of a group are run in order is used; what is printed is not modelled.
\<close>

section \<open>Tests of one connection through the interface\<close>

type_synonym test = "lib \<Rightarrow> (bool \<times> lib) outcome"

definition TEST_CONNECTIONS :: nat where
  "TEST_CONNECTIONS = 1"

definition test_state :: "nat \<Rightarrow> lib \<Rightarrow> State" where
  "test_state i lib = sm_state (sm_arrays lib 0 ! i)"

definition check :: "bool \<Rightarrow> test" where
  "check b lib = Inr (b, lib)"

text \<open>A loop that ends with the first failing assertion.\<close>

primrec for_each :: "nat list \<Rightarrow> (nat \<Rightarrow> test) \<Rightarrow> test" where
  "for_each [] visit lib = Inr (True, lib)"
| "for_each (i # is) visit lib =
     bindE (visit i lib) (\<lambda>(passed, lib). if passed then for_each is visit lib else Inr (False, lib))"

text \<open>The setup functions. A PDU comes from \<open>malloc\<close>; what it held before is a parameter.\<close>

definition test_config :: "u8 list \<Rightarrow> SmRole \<Rightarrow> SafeComType" where
  "test_config name role = \<lparr>type_vtable = \<lparr>SendSpdu = Some (App_SendSpdu 0), ReceiveMsg = Some (App_ReceiveMsg 0)\<rparr>,
     type_config = \<lparr>instname = name @ replicate 4 0, config_role = role,
       max_connections = word_of_nat TEST_CONNECTIONS, config_sms = Some 0\<rparr>\<rparr>"

definition setup_rass_server_init :: SafeComType where
  "setup_rass_server_init = test_config server_name ROLE_SERVER"

definition setup_rass_client_init :: SafeComType where
  "setup_rass_client_init = test_config client_name ROLE_CLIENT"

definition setup_pdu :: "(frame \<Rightarrow> frame outcome) \<Rightarrow> PDU_S \<Rightarrow> lib \<Rightarrow> (PDU_S \<times> lib) outcome" where
  "setup_pdu build junk lib =
     bindE (array_get (sm_arrays lib 0) 0) (\<lambda>sm.
     bindE (build \<lparr>self = sm, pdu_of = junk, mem = wmem lib\<rparr>) (\<lambda>c.
     Inr (pdu_of c, lib\<lparr>wmem := mem c, sm_arrays := (sm_arrays lib)(0 := (sm_arrays lib 0)[0 := self c])\<rparr>)))"

definition setup_conn_req :: "PDU_S \<Rightarrow> lib \<Rightarrow> (PDU_S \<times> lib) outcome" where
  "setup_conn_req = setup_pdu ConnReq"

definition setup_hb :: "PDU_S \<Rightarrow> lib \<Rightarrow> (PDU_S \<times> lib) outcome" where
  "setup_hb = setup_pdu HB"

definition setup_conn_resp :: "PDU_S \<Rightarrow> lib \<Rightarrow> (PDU_S \<times> lib) outcome" where
  "setup_conn_resp = setup_pdu ConnResp"

text \<open>The tests. The loop variable of the closing test and of the sending test is not initialised.\<close>

definition test_rass_init :: "SafeComType \<Rightarrow> test" where
  "test_rass_init pConfig lib =
     bindE (Rass_Init_VTable (Some pConfig) lib) (\<lambda>(ret, lib).
     if ret \<noteq> OK then Inr (False, lib)
     else for_each [0..<TEST_CONNECTIONS] (\<lambda>i lib. check (test_state i lib = STATE_CLOSED) lib) lib)"

definition test_rass_open_connection :: "State \<Rightarrow> test" where
  "test_rass_open_connection expected =
     for_each [0..<TEST_CONNECTIONS] (\<lambda>i lib.
       bindE (Rass_OpenConnection (word_of_nat i) lib) (\<lambda>(ret, lib).
       check (ret = OK \<and> test_state i lib = expected) lib))"

definition test_rass_receive_spdu :: "(u32 \<Rightarrow> u32 \<Rightarrow> ptr \<Rightarrow> call) \<Rightarrow> (u32 \<Rightarrow> State option) \<Rightarrow> PDU_S \<Rightarrow> test" where
  "test_rass_receive_spdu My_ReceiveSpdu expected pPdu lib =
     bindE (serialize_pdu pPdu (local_array (wmem lib) 50) (unat (message_length pPdu)) (wmem lib)) (\<lambda>(buffer, w).
     bindE (Rass_ReceiveSpdu (receiver (\<lambda>_. My_ReceiveSpdu)) 0 (ucast (message_length pPdu)) (Ptr (Ext 0) 0)
       (lib\<lparr>wmem := w\<lparr>ext := (ext w)(0 := buffer)\<rparr>\<rparr>)) (\<lambda>(ret, lib).
     check (ret = OK \<and> (case expected (message_type pPdu) of None \<Rightarrow> True | Some s \<Rightarrow> test_state 0 lib = s)) lib))"

definition server_expects :: "u32 \<Rightarrow> State option" where
  "server_expects t = (if t = message_code CONNECTION_REQUEST then Some STATE_START
     else if t = message_code HEARTBEAT then Some STATE_UP else None)"

definition client_expects :: "u32 \<Rightarrow> State option" where
  "client_expects t = (if t = message_code CONNECTION_RESPONSE then Some STATE_UP else None)"

definition test_rass_close_connection :: "u8 \<Rightarrow> test" where
  "test_rass_close_connection i0 =
     for_each [unat i0..<TEST_CONNECTIONS] (\<lambda>i lib.
       bindE (Rass_CloseConnection (word_of_nat i) lib) (\<lambda>(ret, lib).
       check (ret = OK \<and> test_state i lib = STATE_CLOSED) lib))"

definition hello_world :: "u8 list" where
  "hello_world = [0x48, 0x65, 0x6C, 0x6C, 0x6F, 0x20, 0x77, 0x6F, 0x72, 0x6C, 0x64, 0]"

definition test_rass_send_msg :: "u8 \<Rightarrow> test" where
  "test_rass_send_msg i0 lib =
     for_each [unat i0..<TEST_CONNECTIONS] (\<lambda>i lib.
       bindE (Rass_SendData (word_of_nat i) 12 (Ptr (Ext 1) 0) lib) (\<lambda>(ret, lib).
       check (ret = OK \<and> test_state i lib = STATE_UP) lib))
     (holding 1 hello_world lib)"

text \<open>A group of tests, each with its setup, in order.\<close>

definition with_setup :: "(lib \<Rightarrow> (PDU_S \<times> lib) outcome) \<Rightarrow> (PDU_S \<Rightarrow> test) \<Rightarrow> test" where
  "with_setup prepare use lib = bindE (prepare lib) (\<lambda>(pdu, lib). use pdu lib)"

primrec run_tests :: "('s \<Rightarrow> (bool \<times> 's) outcome) list \<Rightarrow> 's \<Rightarrow> (bool list \<times> 's) outcome" where
  "run_tests [] s = Inr ([], s)"
| "run_tests (t # ts) s =
     bindE (t s) (\<lambda>(passed, s). bindE (run_tests ts s) (\<lambda>(rest, s). Inr (passed # rest, s)))"

definition test_rass_server :: "PDU_S \<Rightarrow> PDU_S \<Rightarrow> u8 \<Rightarrow> test list" where
  "test_rass_server junk junk' i0 =
     [test_rass_init setup_rass_server_init, test_rass_open_connection STATE_DOWN,
      with_setup (setup_conn_req junk) (test_rass_receive_spdu server_ReceiveSpdu server_expects),
      with_setup (setup_hb junk') (test_rass_receive_spdu server_ReceiveSpdu server_expects),
      test_rass_close_connection i0]"

definition test_rass_client :: "PDU_S \<Rightarrow> u8 \<Rightarrow> test list" where
  "test_rass_client junk i0 =
     [test_rass_init setup_rass_client_init, test_rass_open_connection STATE_START,
      with_setup (setup_conn_resp junk) (test_rass_receive_spdu client_ReceiveSpdu client_expects),
      test_rass_close_connection i0]"

definition test_rass_send_data :: "PDU_S \<Rightarrow> PDU_S \<Rightarrow> u8 \<Rightarrow> test list" where
  "test_rass_send_data junk junk' i0 =
     [test_rass_init setup_rass_server_init, test_rass_open_connection STATE_DOWN,
      with_setup (setup_conn_req junk) (test_rass_receive_spdu server_ReceiveSpdu server_expects),
      with_setup (setup_hb junk') (test_rass_receive_spdu server_ReceiveSpdu server_expects),
      test_rass_send_msg i0]"

text \<open>The process when the test program starts.\<close>

definition test_process :: "world \<Rightarrow> lib" where
  "test_process w = initial_lib w (\<lambda>_. replicate TEST_CONNECTIONS zero_sm)"

section \<open>The connection between two tests\<close>

text \<open>The one connection of the test process is \<open>sm\<close> and can take the next event.\<close>

definition at_rest :: "lib \<Rightarrow> SmType \<Rightarrow> bool" where
  "at_rest lib sm \<longleftrightarrow> sms lib = Some 0 \<and> sm_arrays lib 0 = [sm] \<and>
     ReceiveMsg (vtables (wmem lib) RassInstance) = Some (App_ReceiveMsg 0) \<and>
     operational (App_SendSpdu 0) \<lparr>self = sm, pdu_of = zero_pdu, mem = wmem lib\<rparr> \<and> consistent sm"

lemma at_rest_state: "at_rest lib sm \<Longrightarrow> test_state 0 lib = sm_state sm"
  by (simp add: at_rest_def test_state_def)

lemma at_rest_holding: "at_rest lib sm \<Longrightarrow> at_rest (holding k bytes lib) sm"
  by (auto simp: at_rest_def holding_def operational_def ready_def attached_def wf_world_def)

lemma at_rest_operational:
  assumes "at_rest lib sm" and "code_live (wmem lib) pdu"
  shows "operational (App_SendSpdu 0) \<lparr>self = sm, pdu_of = pdu, mem = wmem lib\<rparr>"
proof -
  have "operational (App_SendSpdu 0) \<lparr>self = sm, pdu_of = zero_pdu, mem = wmem lib\<rparr>"
    using assms(1) by (simp add: at_rest_def)
  from operational_pdu [OF this, of pdu] assms(2) show ?thesis by simp
qed

text \<open>Another connection and memory in its place.\<close>

definition put :: "SmType \<Rightarrow> world \<Rightarrow> lib \<Rightarrow> lib" where
  "put sm w lib = lib\<lparr>wmem := w, sm_arrays := (sm_arrays lib)(0 := [sm])\<rparr>"

lemma at_rest_put:
  assumes "at_rest lib sm" and "operational (App_SendSpdu 0) c" and "consistent (self c)"
    and "vtables (mem c) = vtables (wmem lib)"
  shows "at_rest (put (self c) (mem c) lib) (self c)"
proof -
  have "operational (App_SendSpdu 0) \<lparr>self = self c, pdu_of = zero_pdu, mem = mem c\<rparr>"
    using operational_pdu [OF assms(2), of zero_pdu] by (cases c) simp
  with assms(1,3,4) show ?thesis by (simp add: at_rest_def put_def)
qed

lemma event_at_rest:
  assumes lib: "at_rest lib sm" and live: "code_live (wmem lib) pdu"
    and adm: "admissible event \<lparr>self = sm, pdu_of = pdu, mem = wmem lib\<rparr>"
  obtains lib' sm' c c' where "handle_event_at 0 event pdu lib = Inr lib'" and "at_rest lib' sm'"
    and "c = \<lparr>self = sm, pdu_of = pdu, mem = wmem lib\<rparr>"
    and "follows (planned c event) (App_SendSpdu 0) c c'" and "self c' = sm'" and "wmem lib' = mem c'"
proof -
  let ?c = "\<lparr>self = sm, pdu_of = pdu, mem = wmem lib\<rparr>"
  have cons: "consistent (self ?c)" using lib by (simp add: at_rest_def)
  obtain c' where c': "Sm_HandleEvent event ?c = Inr c'" "follows (planned ?c event) (App_SendSpdu 0) ?c c'"
    by (rule event_step [OF at_rest_operational [OF lib live] cons adm])
  have sms: "sms lib = Some 0" "sm_arrays lib 0 = [sm]" using lib by (simp_all add: at_rest_def)
  have put: "handle_event_at 0 event pdu lib = Inr (put (self c') (mem c') lib)"
    using handle_event_index [OF sms(1), of 0] sms c'(1) by (simp add: store_connection_def put_def)
  have env: "vtables (mem c') = vtables (wmem lib)" using followsD(3) [OF c'(2)] by (simp add: same_environment_def)
  have rest: "at_rest (put (self c') (mem c') lib) (self c')"
    by (rule at_rest_put [OF lib followsD(1,2) [OF c'(2)] env])
  have mem: "wmem (put (self c') (mem c') lib) = mem c'" by (simp add: put_def)
  show thesis by (rule that [OF put rest refl c'(2) refl mem])
qed

text \<open>The receive callback answers telegrams of the type with the event.\<close>

definition answers :: "(u32 \<Rightarrow> u32 \<Rightarrow> ptr \<Rightarrow> call) \<Rightarrow> MessageType \<Rightarrow> Event \<Rightarrow> bool" where
  "answers My_ReceiveSpdu t event \<longleftrightarrow>
     (\<forall>p n lib pdu w. deserialize_pdu p (unat n) zero_pdu (wmem lib) = Inr (pdu, w) \<and> message_type pdu = message_code t \<longrightarrow>
        My_ReceiveSpdu 0 n p lib = bindE (handle_event_at 0 event pdu (lib\<lparr>wmem := w\<rparr>)) (\<lambda>lib. Inr (OK, lib)))"

lemma callbacks_answer:
  "answers server_ReceiveSpdu CONNECTION_REQUEST EVENT_RECV_CONN_REQ"
  "answers server_ReceiveSpdu HEARTBEAT EVENT_RECV_HB"
  "answers client_ReceiveSpdu CONNECTION_RESPONSE EVENT_RECV_CONN_RESP"
  by (simp_all add: answers_def server_ReceiveSpdu_def client_ReceiveSpdu_def Let_def)

lemma at_rest_moved:
  assumes lib: "at_rest lib sm" and "same_environment (wmem lib) w" and "wf_world w"
  shows "at_rest (put (counted b sm) w lib) (counted b sm)" and "at_rest (put (counted b sm) (w\<lparr>ext := e\<rparr>) lib) (counted b sm)"
proof -
  have sm: "consistent (counted b sm)" "Tlocal (sm_time sm) \<noteq> None" "attached (App_SendSpdu 0) \<lparr>self = sm, pdu_of = zero_pdu, mem = wmem lib\<rparr>"
    using lib by (simp_all add: at_rest_def consistent_def counted_def operational_def ready_def)
  have op: "operational (App_SendSpdu 0) \<lparr>self = counted b sm, pdu_of = zero_pdu, mem = v\<rparr>"
    if "vtables v = vtables (wmem lib)" "wf_world v" for v
    using sm that by (auto simp: operational_def ready_def attached_def)
  have w: "vtables w = vtables (wmem lib)" "vtables (w\<lparr>ext := e\<rparr>) = vtables (wmem lib)" "wf_world (w\<lparr>ext := e\<rparr>)"
    using assms(2,3) by (simp_all add: same_environment_def wf_world_def)
  show "at_rest (put (counted b sm) w lib) (counted b sm)"
    using at_rest_put [OF lib op [OF w(1) assms(3)]] sm(1) w(1) by simp
  show "at_rest (put (counted b sm) (w\<lparr>ext := e\<rparr>) lib) (counted b sm)"
    using at_rest_put [OF lib op [OF w(2,3)]] sm(1) w(2) by simp
qed

section \<open>A PDU built from the connection and received by it\<close>

text \<open>
  Array 0 is the buffer of 50 bytes of the receiving test. Which pointers can be read depends on
  the lengths of the application's arrays alone.
\<close>

definition with_buffer :: "world \<Rightarrow> world" where
  "with_buffer w = w\<lparr>ext := (ext w)(0 := local_array w 50)\<rparr>"

definition alike :: "world \<Rightarrow> world \<Rightarrow> bool" where
  "alike v w \<longleftrightarrow> (\<forall>k. length (ext v k) = length (ext w k))"

lemma alike_refl [simp]: "alike w w" and alike_trans: "alike u v \<Longrightarrow> alike v w \<Longrightarrow> alike u w"
  by (simp_all add: alike_def)

lemma alike_with_buffer: "alike v w \<Longrightarrow> alike (with_buffer v) (with_buffer w)"
  by (simp add: alike_def with_buffer_def)

lemma wf_with_buffer: "wf_world w \<Longrightarrow> wf_world (with_buffer w)"
  by (simp add: wf_world_def with_buffer_def)

lemma alike_environment: "same_environment w v \<Longrightarrow> alike v w"
  by (simp add: same_environment_def alike_def)

lemma code_live_alike: "alike v w \<Longrightarrow> wf_world v \<Longrightarrow> wf_world w \<Longrightarrow> code_live v pdu = code_live w pdu"
  by (auto simp: alike_def code_live_def readable_def array_of_def wf_world_def split: ptr.splits blk.splits)

lemma at_rest_wf: "at_rest lib sm \<Longrightarrow> wf_world (wmem lib)"
  by (simp add: at_rest_def operational_def ready_def)

context pdu_constructor
begin

lemma own_telegram:
  assumes op: "operational f c"
  obtains pdu w1 w2 buf now code where "build c = Inr (c\<lparr>self := counted counts (self c), pdu_of := pdu, mem := w1\<rparr>)"
    and "serialize_pdu pdu (local_array w1 50) (unat (message_length pdu)) w1 = Inr (buf, w2)"
    and "unat (message_length pdu) = 36 + length content" and "message_type pdu = message_code kind"
    and "take (36 + length content) buf = covered kind content (counted counts (self c)) now @ code"
    and "length code = 8" and "same_environment (mem c) w1" and "same_environment (mem c) w2"
    and "wf_world w1" and "wf_world w2" and "length buf = 50"
proof -
  let ?sm = "counted counts (self c)" and ?now = "reading (mem c) (clock_calls (mem c))"
  define pdu where "pdu = outgoing kind place (length content) ?sm ?now"
  have "ready c" using op by (simp add: operational_def)
  then obtain w1 where b: "build c = Inr (c\<lparr>self := ?sm, pdu_of := pdu, mem := w1\<rparr>)" "built content pdu (mem c) w1"
    using build_law by (fastforce simp: Let_def pdu_def)
  note tel = built_telegram [OF b(2) pdu_def content_fits]
  have mem: "same_environment (mem c) w1" "wf_world w1" using b(2) by (simp_all add: built_def)
  define buf where "buf = overwrite (local_array w1 50) 0 (telegram w1 pdu)"
  have room: "length (telegram w1 pdu) \<le> 50" using content_fits by (simp add: tel(4))
  have "serialize_pdu pdu (local_array w1 50) (unat (message_length pdu)) w1 = Inr (buf, after_telegram pdu w1)"
    using tel(1,2) room by (simp add: serialize_pdu_spec buf_def)
  moreover have "take (36 + length content) buf = telegram w1 pdu"
    using room tel(4) by (simp add: buf_def overwrite_zero)
  moreover have "same_environment (mem c) (after_telegram pdu w1)" "wf_world (after_telegram pdu w1)"
    using mem by (simp_all add: same_environment_def wf_world_def after_telegram_def)
  moreover have "length buf = 50" using room by (simp add: buf_def)
  ultimately show thesis
    by (intro that [OF b(1) _ tel(1) _ _ length_code_seen mem(1) _ mem(2)]) (simp_all add: tel(3), simp add: pdu_def outgoing_def)
qed

lemma own_telegram_handled:
  assumes lib: "at_rest lib sm" and junk: "code_live (wmem lib) junk"
    and app: "answers My_ReceiveSpdu kind event" and "event \<noteq> EVENT_SEND_DATA"
    and shakes: "event \<in> {EVENT_RECV_CONN_REQ, EVENT_RECV_CONN_RESP} \<Longrightarrow> 4 \<le> length content"
  shows "\<exists>pdu lib1 lib2 c c'. setup_pdu build junk lib = Inr (pdu, lib1) \<and>
    test_rass_receive_spdu My_ReceiveSpdu expected pdu lib1 =
      Inr (case expected (message_code kind) of None \<Rightarrow> True | Some s \<Rightarrow> sm_state (self c') = s, lib2) \<and>
    at_rest lib2 (self c') \<and> follows (planned c event) (App_SendSpdu 0) c c' \<and> self c = counted counts sm \<and>
    sequence_number (pdu_of c) = snt (counted counts sm) \<and>
    (kind \<noteq> CONNECTION_REQUEST \<longrightarrow> confirmed_timestamp (pdu_of c) = ctsr sm) \<and>
    (4 \<le> length content \<longrightarrow> version_known (judge c) = (take 4 content = [0x30, 0x33, 0x30, 0x31])) \<and>
    clock_value (wmem lib2) = clock_value (wmem lib) \<and> alike (wmem lib2) (with_buffer (wmem lib))"
proof -
  let ?c = "\<lparr>self = sm, pdu_of = junk, mem = wmem lib\<rparr>" and ?sm = "counted counts sm"
  obtain pdu w1 w2 buf now code where own: "build ?c = Inr (?c\<lparr>self := ?sm, pdu_of := pdu, mem := w1\<rparr>)"
      "serialize_pdu pdu (local_array w1 50) (unat (message_length pdu)) w1 = Inr (buf, w2)"
      "unat (message_length pdu) = 36 + length content" "message_type pdu = message_code kind"
      "take (36 + length content) buf = covered kind content ?sm now @ code" "length code = 8"
      "same_environment (wmem lib) w1" "same_environment (wmem lib) w2" "wf_world w1" "wf_world w2"
      "length buf = 50"
    by (rule own_telegram [OF at_rest_operational [OF lib junk]]) (rule that; simp)
  let ?w = "w2\<lparr>ext := (ext w2)(0 := buf)\<rparr>"
  let ?lib1 = "put ?sm w1 lib" and ?lib2 = "put ?sm ?w lib"
  have built: "setup_pdu build junk lib = Inr (pdu, ?lib1)"
    using lib own(1) by (simp add: setup_pdu_def at_rest_def array_get_ok put_def)
  have rest2: "at_rest ?lib2 ?sm" by (rule at_rest_moved(2) [OF lib own(8,10)])
  have got: "take (36 + length content) (ext ?w 0) = covered kind content ?sm now @ code" using own(5) by simp
  have fits: "length content \<le> 22" using content_fits by simp
  obtain q where des: "deserialize_pdu (Ptr (Ext 0) 0) (36 + length content) zero_pdu ?w = Inr (q, ?w)"
    and q: "message_type q = message_code kind" "sequence_number q = snt ?sm"
      "confirmed_timestamp q = (if kind = CONNECTION_REQUEST then 0 else ctsr ?sm)"
      "code_live ?w q" "4 \<le> length content \<Longrightarrow> payload_live ?w q"
      "4 \<le> length content \<Longrightarrow> seen_bytes ?w (payload q) 4 = take 4 content"
    by (rule telegram_received [OF fits own(6) got]) (rule that; simp)
  have adm: "admissible event \<lparr>self = ?sm, pdu_of = q, mem = wmem ?lib2\<rparr>"
    using assms(4) shakes q(5) by (auto simp: admissible_def put_def)
  have live: "code_live (wmem ?lib2) q" using q(4) by (simp add: put_def)
  obtain lib3 sm' c c' where step: "handle_event_at 0 event q ?lib2 = Inr lib3" "at_rest lib3 sm'"
      "c = \<lparr>self = ?sm, pdu_of = q, mem = wmem ?lib2\<rparr>" "follows (planned c event) (App_SendSpdu 0) c c'" "self c' = sm'" "wmem lib3 = mem c'"
    by (rule event_at_rest [OF rest2 live adm])
  have word: "unat (ucast (message_length pdu) :: u32) = 36 + length content"
    by (simp add: own(3) unat_ucast_up)
  have same: "?lib2\<lparr>wmem := ?w\<rparr> = ?lib2" "?lib1\<lparr>wmem := ?w\<rparr> = ?lib2" "wmem ?lib1 = w1" "wmem ?lib2 = ?w" by (simp_all add: put_def)
  have "My_ReceiveSpdu 0 (ucast (message_length pdu)) (Ptr (Ext 0) 0) ?lib2 = Inr (OK, lib3)"
    using app des q(1) step(1) unfolding answers_def by (simp add: word same)
  then have "Rass_ReceiveSpdu (receiver (\<lambda>_. My_ReceiveSpdu)) 0 (ucast (message_length pdu)) (Ptr (Ext 0) 0) ?lib2 = Inr (OK, lib3)"
    using rest2 by (simp add: Rass_ReceiveSpdu_def SafeCom_defs at_rest_def)
  then have "test_rass_receive_spdu My_ReceiveSpdu expected pdu ?lib1 =
      Inr (case expected (message_code kind) of None \<Rightarrow> True | Some s \<Rightarrow> sm_state sm' = s, lib3)"
    using own(2) at_rest_state [OF step(2)] by (simp add: test_rass_receive_spdu_def same own(4) check_def cong: option.case_cong)
  moreover have "4 \<le> length content \<longrightarrow> version_known (judge c) = (take 4 content = [0x30, 0x33, 0x30, 0x31])"
    using q(6) by (simp add: step(3) judge_def same(4))
  moreover have "clock_value (wmem lib3) = clock_value (wmem lib)"
    using followsD(3) [OF step(4)] own(8) by (simp add: same_environment_def step(3,6) same(4))
  moreover have "alike (wmem lib3) (with_buffer (wmem lib))"
    using followsD(3) [OF step(4)] own(8,11)
    by (simp add: same_environment_def step(3,6) same(4) alike_def with_buffer_def)
  moreover have "self c = ?sm" "sequence_number (pdu_of c) = snt ?sm"
      "kind \<noteq> CONNECTION_REQUEST \<longrightarrow> confirmed_timestamp (pdu_of c) = ctsr sm"
    using q(2,3) by (simp_all add: step(3) counted_def)
  ultimately show ?thesis using built step(2,4) unfolding step(5) [symmetric] by blast
qed

end

section \<open>What each test leaves\<close>

text \<open>The connection that the next test finds.\<close>

definition stands :: "world \<Rightarrow> lib \<Rightarrow> SmRole \<Rightarrow> State \<Rightarrow> SmType \<Rightarrow> bool" where
  "stands w lib role s sm \<longleftrightarrow> at_rest lib sm \<and> sm_role sm = role \<and> sm_state sm = s \<and> Th (timeouts (sm_time sm)) = 10 \<and>
     Tmax (timeouts (sm_time sm)) = 30 \<and> clock_value (wmem lib) = clock_value w"

lemma stands_state: "stands w lib role s sm \<Longrightarrow> at_rest lib sm \<and> test_state 0 lib = s"
  by (auto simp: stands_def dest: at_rest_state)

lemma one_connection [simp]: "for_each [0..<TEST_CONNECTIONS] visit lib = visit 0 lib"
  by (cases "visit 0 lib") (auto simp: TEST_CONNECTIONS_def)

lemma from_start_value:
  "for_each [unat i0..<TEST_CONNECTIONS] visit lib = (if i0 = 0 then visit 0 lib else Inr (True, lib))" for i0 :: u8
proof (cases "i0 = 0")
  case False
  then have "0 < unat i0" by (simp add: unat_gt_0)
  then have "[unat i0..<TEST_CONNECTIONS] = []" by (simp add: TEST_CONNECTIONS_def)
  then show ?thesis using False by (simp only: for_each.simps if_False)
qed (use one_connection in simp)

lemma init_stands:
  assumes "wf_world w"
  obtains lib sm where "Rass_Init_VTable (Some (test_config name role)) (test_process w) = Inr (OK, lib)"
    and "stands w lib role STATE_CLOSED sm" and "alike (wmem lib) w"
proof -
  define cfg where "cfg = test_config name role"
  define lib where "lib = (test_process w)\<lparr>initialized := (initialized (test_process w))(RassInstance := True)\<rparr>"
  have cfg: "SendSpdu (type_vtable cfg) = Some (App_SendSpdu 0)" "0 < unat (max_connections (type_config cfg))"
      "ReceiveMsg (type_vtable cfg) = Some (App_ReceiveMsg 0)" "config_role (type_config cfg) = role"
      "config_sms (type_config cfg) = Some 0" "unat (max_connections (type_config cfg)) = 1"
    by (simp_all add: cfg_def test_config_def TEST_CONNECTIONS_def)
  have start: "wmem lib = w" "sm_arrays lib 0 = [zero_sm]"
    by (simp_all add: lib_def test_process_def initial_lib_def TEST_CONNECTIONS_def)
  then have proper: "proper_config lib cfg 0" and wf: "wf_world (wmem lib)"
    using assms by (simp_all add: proper_config_def cfg)
  obtain lib1 where init: "SafeCom_Init RassInstance cfg lib = Inr (OK, lib1)"
    and len: "length (sm_arrays lib1 0) = 1" and sm: "sm_arrays lib1 0 ! 0 = set_up role 0 (zero_sm\<lparr>vtable := Some RassInstance,
      sm_time := (sm_time zero_sm)\<lparr>Tlocal := Some GetCurrentTimestamp_fn\<rparr>\<rparr>)"
    and w1: "wmem lib1 = w\<lparr>vtables := (vtables w)(RassInstance := type_vtable cfg)\<rparr>"
    by (rule SafeCom_Init_ok [OF proper, of RassInstance]) (rule that; simp add: start cfg Let_def)
  have v: "vtables (wmem lib1) RassInstance = type_vtable cfg" by (simp add: w1)
  note first = first_connection [OF proper init wf cfg(1,2)]
  have arr: "sm_arrays lib1 0 = [sm_arrays lib1 0 ! 0]" using len by (cases "sm_arrays lib1 0") auto
  have "Rass_Init_VTable (Some cfg) (test_process w) = Inr (OK, lib1)"
    using init cfg(1,3) by (simp add: Rass_Init_VTable_def lib_def) (simp add: test_process_def initial_lib_def)
  moreover have "stands w lib1 role STATE_CLOSED (sm_arrays lib1 0 ! 0)"
    unfolding stands_def at_rest_def using first(1-5) arr v cfg(3,4) sm by (simp add: w1)
  moreover have "alike (wmem lib1) w" by (simp add: w1 alike_def)
  ultimately show thesis unfolding cfg_def by (rule that)
qed

lemma init_passes:
  assumes "wf_world w"
  obtains lib sm where "test_rass_init (test_config name role) (test_process w) = Inr (True, lib)"
    and "stands w lib role STATE_CLOSED sm" and "alike (wmem lib) w"
proof -
  obtain lib sm where "Rass_Init_VTable (Some (test_config name role)) (test_process w) = Inr (OK, lib)"
    and lib: "stands w lib role STATE_CLOSED sm" "alike (wmem lib) w"
    by (rule init_stands [OF assms])
  then have "test_rass_init (test_config name role) (test_process w) = Inr (True, lib)"
    using stands_state [OF lib(1)] by (simp add: test_rass_init_def check_def)
  then show thesis using lib by (rule that)
qed

lemma follows_kept:
  "follows a f c c' \<Longrightarrow> sm_role (self c') = sm_role (self c) \<and> timeouts (sm_time (self c')) = timeouts (sm_time (self c))"
  by (simp add: followsD(4) after_kept)

text \<open>A test that raises one event by a call of the interface.\<close>

lemma call_passes:
  assumes lib: "stands w lib role s sm" and adm: "event \<in> {EVENT_OPEN_CONN, EVENT_CLOSE_CONN}"
    and plan: "\<And>v. plan_event role v s event = a"
  obtains lib' sm' where "handle_event_at 0 event zero_pdu lib = Inr lib'" and "stands w lib' role (target a s) sm'"
    and "alike (wmem lib') (wmem lib)"
proof -
  let ?c = "\<lparr>self = sm, pdu_of = zero_pdu, mem = wmem lib\<rparr>"
  have rest: "at_rest lib sm" and sm: "sm_role sm = role" "sm_state sm = s" "Th (timeouts (sm_time sm)) = 10"
      "Tmax (timeouts (sm_time sm)) = 30" "clock_value (wmem lib) = clock_value w"
    using lib by (simp_all add: stands_def)
  have "admissible event ?c" using adm by (auto simp: admissible_def)
  then obtain lib' sm' c c' where step: "handle_event_at 0 event zero_pdu lib = Inr lib'" "at_rest lib' sm'"
      "c = ?c" "follows (planned c event) (App_SendSpdu 0) c c'" "self c' = sm'" "wmem lib' = mem c'"
    by (rule event_at_rest [OF rest zero_pdu_live])
  have a: "planned c event = a" using plan sm by (simp add: step(3))
  have "stands w lib' role (target a s) sm'"
    using step(2) follows_state [OF step(4)] follows_kept [OF step(4)] followsD(3) [OF step(4)] sm
    by (simp add: stands_def a step(5) [symmetric] step(6) same_environment_def) (simp add: step(3))
  moreover have "alike (wmem lib') (wmem lib)"
    using alike_environment [OF followsD(3) [OF step(4)]] by (simp add: step(6)) (simp add: step(3))
  ultimately show thesis using step(1) that by blast
qed

lemma open_passes:
  assumes "stands w lib role STATE_CLOSED sm"
  obtains lib' sm' where "test_rass_open_connection (case role of ROLE_SERVER \<Rightarrow> STATE_DOWN | ROLE_CLIENT \<Rightarrow> STATE_START) lib = Inr (True, lib')"
    and "stands w lib' role (case role of ROLE_SERVER \<Rightarrow> STATE_DOWN | ROLE_CLIENT \<Rightarrow> STATE_START) sm'"
    and "alike (wmem lib') (wmem lib)"
proof -
  let ?a = "case role of ROLE_SERVER \<Rightarrow> Listen | ROLE_CLIENT \<Rightarrow> Connect"
  have plan: "plan_event role v STATE_CLOSED EVENT_OPEN_CONN = ?a" for v by (simp add: plan_event_def)
  obtain lib' sm' where l: "handle_event_at 0 EVENT_OPEN_CONN zero_pdu lib = Inr lib'" "stands w lib' role (target ?a STATE_CLOSED) sm'"
      "alike (wmem lib') (wmem lib)"
    by (rule call_passes [OF assms _ plan]) simp
  have t: "target ?a STATE_CLOSED = (case role of ROLE_SERVER \<Rightarrow> STATE_DOWN | ROLE_CLIENT \<Rightarrow> STATE_START)"
    by (cases role) simp_all
  show thesis
    using that l stands_state [OF l(2)]
    by (simp add: t test_rass_open_connection_def Rass_OpenConnection_def SafeCom_defs check_def)
qed

lemma close_passes:
  assumes "stands w lib role STATE_UP sm"
  obtains lib' sm' where "test_rass_close_connection i0 lib = Inr (True, lib')"
    and "stands w lib' role (if i0 = 0 then STATE_CLOSED else STATE_UP) sm'"
proof -
  have plan: "plan_event role v STATE_UP EVENT_CLOSE_CONN = Refuse USER_REQUEST" for v by (simp add: plan_event_def)
  obtain lib' sm' where l: "handle_event_at 0 EVENT_CLOSE_CONN zero_pdu lib = Inr lib'"
      "stands w lib' role (target (Refuse USER_REQUEST) STATE_UP) sm'"
    by (rule call_passes [OF assms _ plan]) simp
  show thesis
    using that [of lib' sm'] that [of lib sm] l stands_state [OF l(2)] assms
    by (cases "i0 = 0") (simp_all add: test_rass_close_connection_def from_start_value Rass_CloseConnection_def SafeCom_defs check_def)
qed

text \<open>The tests that receive a telegram built from the connection itself.\<close>

lemma fresh_own: "ctsr sm = confirmed_timestamp pdu \<Longrightarrow> 0 < Tmax (timeouts (sm_time sm)) \<Longrightarrow> check_seq_confirmed_timestamp sm pdu"
  by (simp add: check_seq_confirmed_timestamp_def)

lemma conn_req_passes:
  assumes lib: "stands w lib ROLE_SERVER STATE_DOWN sm" and junk: "code_live (wmem lib) junk"
    and expected: "expected (message_code CONNECTION_REQUEST) = Some STATE_START"
  obtains lib' sm' where "with_setup (setup_conn_req junk) (test_rass_receive_spdu server_ReceiveSpdu expected) lib = Inr (True, lib')"
    and "stands w lib' ROLE_SERVER STATE_START sm'" and "snr sm' = snt sm' + 1"
    and "alike (wmem lib') (with_buffer (wmem lib))"
proof -
  have rest: "at_rest lib sm" and sm: "sm_role sm = ROLE_SERVER" "sm_state sm = STATE_DOWN" "Th (timeouts (sm_time sm)) = 10"
      "Tmax (timeouts (sm_time sm)) = 30" "clock_value (wmem lib) = clock_value w"
    using lib by (simp_all add: stands_def)
  obtain pdu lib1 lib2 c c' where own: "setup_pdu ConnReq junk lib = Inr (pdu, lib1)"
      "test_rass_receive_spdu server_ReceiveSpdu expected pdu lib1 = Inr (sm_state (self c') = STATE_START, lib2)"
      "at_rest lib2 (self c')" "follows (planned c EVENT_RECV_CONN_REQ) (App_SendSpdu 0) c c'"
      "self c = sm" "sequence_number (pdu_of c) = snt sm" "version_known (judge c)" "clock_value (wmem lib2) = clock_value (wmem lib)"
      "alike (wmem lib2) (with_buffer (wmem lib))"
    using conn_req.own_telegram_handled [OF rest junk callbacks_answer(1), of expected] expected
    by (simp add: handshake_payload_def) blast
  have plan: "planned c EVENT_RECV_CONN_REQ = Accept_request" using own(5,7) sm by (simp add: plan_event_def)
  note f = follows_state [OF own(4), unfolded plan] follows_kept [OF own(4)] followsD(4) [OF own(4), unfolded plan]
  have "stands w lib2 ROLE_SERVER STATE_START (self c')" using own(3,5,8) f(1,2) sm by (simp add: stands_def)
  moreover have "snr (self c') = snt (self c') + 1" using f(3) own(5,6) by (simp add: after_simps)
  moreover have "sm_state (self c') = STATE_START" using f(1) by simp
  ultimately show thesis using that own(1,2,9) by (simp add: with_setup_def setup_conn_req_def)
qed

lemma hb_passes:
  assumes lib: "stands w lib ROLE_SERVER STATE_START sm" and "snr sm = snt sm + 1" and junk: "code_live (wmem lib) junk"
  obtains lib' sm' where "with_setup (setup_hb junk) (test_rass_receive_spdu server_ReceiveSpdu server_expects) lib = Inr (True, lib')"
    and "stands w lib' ROLE_SERVER STATE_UP sm'"
proof -
  have rest: "at_rest lib sm" and sm: "sm_role sm = ROLE_SERVER" "sm_state sm = STATE_START" "Th (timeouts (sm_time sm)) = 10"
      "Tmax (timeouts (sm_time sm)) = 30" "clock_value (wmem lib) = clock_value w"
    using lib by (simp_all add: stands_def)
  obtain pdu lib1 lib2 c c' where own: "setup_pdu HB junk lib = Inr (pdu, lib1)"
      "test_rass_receive_spdu server_ReceiveSpdu server_expects pdu lib1 =
        Inr (case server_expects (message_code HEARTBEAT) of None \<Rightarrow> True | Some s \<Rightarrow> sm_state (self c') = s, lib2)"
      "at_rest lib2 (self c')" "follows (planned c EVENT_RECV_HB) (App_SendSpdu 0) c c'"
      "self c = counted True sm" "sequence_number (pdu_of c) = snt (counted True sm)" "confirmed_timestamp (pdu_of c) = ctsr sm"
      "clock_value (wmem lib2) = clock_value (wmem lib)"
    using heartbeat.own_telegram_handled [OF rest junk callbacks_answer(2), of server_expects] by blast
  have plan: "planned c EVENT_RECV_HB = Accept STATE_UP"
    using own(5-7) sm assms(2) by (simp add: plan_event_def judged_def judge_def fresh_own)
  note f = follows_state [OF own(4), unfolded plan] follows_kept [OF own(4)]
  have "stands w lib2 ROLE_SERVER STATE_UP (self c')" using own(3,5,8) f sm by (simp add: stands_def)
  moreover have "sm_state (self c') = STATE_UP" using f(1) by simp
  ultimately show thesis using that own(1,2) by (simp add: with_setup_def setup_hb_def server_expects_def)
qed

lemma conn_resp_passes:
  assumes lib: "stands w lib ROLE_CLIENT STATE_START sm" and junk: "code_live (wmem lib) junk"
  obtains lib' sm' where "with_setup (setup_conn_resp junk) (test_rass_receive_spdu client_ReceiveSpdu client_expects) lib = Inr (True, lib')"
    and "stands w lib' ROLE_CLIENT STATE_UP sm'"
proof -
  have rest: "at_rest lib sm" and sm: "sm_role sm = ROLE_CLIENT" "sm_state sm = STATE_START" "Th (timeouts (sm_time sm)) = 10"
      "Tmax (timeouts (sm_time sm)) = 30" "clock_value (wmem lib) = clock_value w"
    using lib by (simp_all add: stands_def)
  obtain pdu lib1 lib2 c c' where own: "setup_pdu ConnResp junk lib = Inr (pdu, lib1)"
      "test_rass_receive_spdu client_ReceiveSpdu client_expects pdu lib1 = Inr (sm_state (self c') = STATE_UP, lib2)"
      "at_rest lib2 (self c')" "follows (planned c EVENT_RECV_CONN_RESP) (App_SendSpdu 0) c c'"
      "self c = sm" "version_known (judge c)" "clock_value (wmem lib2) = clock_value (wmem lib)"
    using conn_resp.own_telegram_handled [OF rest junk callbacks_answer(3), of client_expects]
    by (simp add: client_expects_def handshake_payload_def) blast
  have plan: "planned c EVENT_RECV_CONN_RESP = Accept_response" using own(5,6) sm by (simp add: plan_event_def)
  note f = follows_state [OF own(4), unfolded plan] follows_kept [OF own(4)]
  have "stands w lib2 ROLE_CLIENT STATE_UP (self c')" using own(3,5,7) f sm by (simp add: stands_def)
  moreover have "sm_state (self c') = STATE_UP" using f(1) by simp
  ultimately show thesis using that own(1,2) by (simp add: with_setup_def setup_conn_resp_def)
qed

lemma send_passes:
  assumes lib: "stands w lib role STATE_UP sm"
  obtains lib' sm' where "test_rass_send_msg i0 lib = Inr (True, lib')" and "stands w lib' role STATE_UP sm'"
    and "length (sent (wmem lib')) = length (sent (wmem lib)) + (if i0 = 0 then 1 else 0)"
proof (cases "i0 = 0")
  case False
  have "at_rest (holding 1 hello_world lib) sm" using at_rest_holding lib by (simp add: stands_def)
  then have "stands w (holding 1 hello_world lib) role STATE_UP sm" using lib by (simp add: stands_def holding_def)
  then show thesis
    using that [of "holding 1 hello_world lib" sm] False by (simp add: test_rass_send_msg_def from_start_value) (simp add: holding_def)
next
  case True
  let ?lib = "holding 1 hello_world lib" and ?n = "12 :: u8"
  have rest: "at_rest ?lib sm" and sm: "sm_role sm = role" "sm_state sm = STATE_UP" "Th (timeouts (sm_time sm)) = 10"
      "Tmax (timeouts (sm_time sm)) = 30" "clock_value (wmem lib) = clock_value w"
    using at_rest_holding lib by (simp_all add: stands_def)
  let ?c = "\<lparr>self = sm, pdu_of = zero_pdu, mem = wmem ?lib\<rparr>"
  have op: "operational (App_SendSpdu 0) ?c" using rest by (simp add: at_rest_def)
  have held: "ext (wmem ?lib) 1 = hello_world" by (simp add: holding_def)
  obtain c1 where c1: "Data ?n (Ptr (Ext 1) 0) ?c = Inr c1" "operational (App_SendSpdu 0) c1" "sendable (mem c1) (pdu_of c1)"
      "self c1 = counted True sm" "sent (mem c1) = sent (wmem ?lib)" "same_environment (wmem ?lib) (mem c1)"
    by (rule Data_frame [OF op, of ?n 0 1]) (use held in \<open>auto simp: hello_world_def\<close>)
  let ?lib1 = "put (self c1) (mem c1) ?lib"
  have cons: "consistent (self c1)" using rest c1(4) by (simp add: at_rest_def consistent_def)
  have rest1: "at_rest ?lib1 (self c1)"
    by (rule at_rest_put [OF rest c1(2) cons]) (use c1(6) in \<open>simp add: same_environment_def\<close>)
  have live: "code_live (wmem ?lib1) (pdu_of c1)" using c1(2) by (simp add: put_def operational_def ready_def)
  have adm: "admissible EVENT_SEND_DATA \<lparr>self = self c1, pdu_of = pdu_of c1, mem = wmem ?lib1\<rparr>"
    using c1(3) by (simp add: admissible_def put_def)
  obtain lib2 sm' c c' where step: "handle_event_at 0 EVENT_SEND_DATA (pdu_of c1) ?lib1 = Inr lib2" "at_rest lib2 sm'"
      "c = \<lparr>self = self c1, pdu_of = pdu_of c1, mem = wmem ?lib1\<rparr>"
      "follows (planned c EVENT_SEND_DATA) (App_SendSpdu 0) c c'" "self c' = sm'" "wmem lib2 = mem c'"
    by (rule event_at_rest [OF rest1 live adm])
  have plan: "planned c EVENT_SEND_DATA = Forward" using c1(4) sm by (simp add: step(3) plan_event_def)
  have kept: "stands w lib2 role STATE_UP sm'"
    using step(2) follows_state [OF step(4)] follows_kept [OF step(4)] followsD(3) [OF step(4)] sm c1(4,6)
    by (simp add: stands_def plan step(5) [symmetric] step(6) same_environment_def) (simp add: step(3) put_def holding_def)
  have sms: "sms ?lib = Some 0" "sm_arrays ?lib 0 = [sm]" using rest by (simp_all add: at_rest_def)
  have "Rass_SendData 0 12 (Ptr (Ext 1) 0) ?lib = Inr (OK, lib2)"
    using sms c1(1) step(1) by (simp add: Rass_SendData_def SafeCom_defs connection_def array_get_ok store_connection_def put_def)
  moreover have "length (sent (wmem lib2)) = length (sent (wmem lib)) + 1"
    using followsD(8) [OF step(4) plan] c1(5) by (simp add: step(6)) (simp add: step(3) put_def holding_def)
  ultimately show thesis
    using that [of lib2 sm'] kept stands_state [OF kept] True
    by (simp add: test_rass_send_msg_def from_start_value check_def)
qed

text \<open>A setup that must serialise a PDU whose safety-code pointer cannot be read overruns.\<close>

lemma setup_faults:
  assumes lib: "at_rest lib sm" and junk: "\<not> code_live (wmem lib) junk"
  shows "with_setup (setup_conn_req junk) test lib = Inl Out_Of_Bounds" and "with_setup (setup_hb junk) test lib = Inl Out_Of_Bounds"
    and "with_setup (setup_conn_resp junk) test lib = Inl Out_Of_Bounds"
proof -
  let ?c = "\<lparr>self = sm, pdu_of = junk, mem = wmem lib\<rparr>"
  have c: "Tlocal (sm_time (self ?c)) \<noteq> None" "wf_world (mem ?c)" "\<not> code_live (mem ?c) (pdu_of ?c)"
    using lib junk by (simp_all add: at_rest_def operational_def ready_def)
  note faults = ConnReq_unreadable [OF c] HB_unreadable [OF c] ConnResp_unreadable [OF c]
  have "array_get (sm_arrays lib 0) 0 = Inr sm" using lib by (simp add: at_rest_def array_get_ok)
  then show "with_setup (setup_conn_req junk) test lib = Inl Out_Of_Bounds" "with_setup (setup_hb junk) test lib = Inl Out_Of_Bounds"
    "with_setup (setup_conn_resp junk) test lib = Inl Out_Of_Bounds"
    using faults by (simp_all add: with_setup_def setup_conn_req_def setup_hb_def setup_conn_resp_def setup_pdu_def)
qed

text \<open>The server up to the established connection, and the client.\<close>

lemma server_waits:
  assumes "wf_world w"
  obtains a b sb where "test_rass_init setup_rass_server_init (test_process w) = Inr (True, a)"
    and "test_rass_open_connection STATE_DOWN a = Inr (True, b)" and "stands w b ROLE_SERVER STATE_DOWN sb"
    and "\<forall>pdu. code_live (wmem b) pdu = code_live w pdu" and "alike (wmem b) w"
proof -
  obtain a sa where a: "test_rass_init setup_rass_server_init (test_process w) = Inr (True, a)" "stands w a ROLE_SERVER STATE_CLOSED sa"
      "alike (wmem a) w"
    unfolding setup_rass_server_init_def by (rule init_passes [OF assms])
  obtain b sb where b: "test_rass_open_connection STATE_DOWN a = Inr (True, b)" "stands w b ROLE_SERVER STATE_DOWN sb"
      "alike (wmem b) (wmem a)"
    using open_passes [OF a(2)] by auto
  have same: "alike (wmem b) w" by (rule alike_trans [OF b(3) a(3)])
  have "wf_world (wmem b)" using b(2) at_rest_wf by (auto simp: stands_def)
  then have "\<forall>pdu. code_live (wmem b) pdu = code_live w pdu" using code_live_alike [OF same _ assms] by blast
  from that [OF a(1) b(1,2) this same] show thesis .
qed

lemma server_answers:
  assumes "wf_world w" and "code_live w junk"
  obtains a b c sc where "test_rass_init setup_rass_server_init (test_process w) = Inr (True, a)"
    and "test_rass_open_connection STATE_DOWN a = Inr (True, b)"
    and "with_setup (setup_conn_req junk) (test_rass_receive_spdu server_ReceiveSpdu server_expects) b = Inr (True, c)"
    and "stands w c ROLE_SERVER STATE_START sc" and "snr sc = snt sc + 1"
    and "\<forall>pdu. code_live (wmem c) pdu = code_live (with_buffer w) pdu"
proof -
  obtain a b sb where b: "test_rass_init setup_rass_server_init (test_process w) = Inr (True, a)"
      "test_rass_open_connection STATE_DOWN a = Inr (True, b)" "stands w b ROLE_SERVER STATE_DOWN sb"
      "\<forall>pdu. code_live (wmem b) pdu = code_live w pdu" "alike (wmem b) w"
    by (rule server_waits [OF assms(1)])
  have junk: "code_live (wmem b) junk" by (simp only: b(4) assms(2))
  obtain c sc where c: "with_setup (setup_conn_req junk) (test_rass_receive_spdu server_ReceiveSpdu server_expects) b = Inr (True, c)"
      "stands w c ROLE_SERVER STATE_START sc" "snr sc = snt sc + 1" "alike (wmem c) (with_buffer (wmem b))"
    by (rule conn_req_passes [OF b(3) junk, of server_expects]) (simp_all add: server_expects_def)
  have same: "alike (wmem c) (with_buffer w)" by (rule alike_trans [OF c(4) alike_with_buffer [OF b(5)]])
  have "wf_world (wmem c)" using c(2) at_rest_wf by (auto simp: stands_def)
  then have "\<forall>pdu. code_live (wmem c) pdu = code_live (with_buffer w) pdu"
    using code_live_alike [OF same _ wf_with_buffer [OF assms(1)]] by blast
  from that [OF b(1,2) c(1-3) this] show thesis .
qed

lemma client_waits:
  assumes "wf_world w"
  obtains k l sl where "test_rass_init setup_rass_client_init (test_process w) = Inr (True, k)"
    and "test_rass_open_connection STATE_START k = Inr (True, l)" and "stands w l ROLE_CLIENT STATE_START sl"
    and "\<forall>pdu. code_live (wmem l) pdu = code_live w pdu"
proof -
  obtain k sk where k: "test_rass_init setup_rass_client_init (test_process w) = Inr (True, k)" "stands w k ROLE_CLIENT STATE_CLOSED sk"
      "alike (wmem k) w"
    unfolding setup_rass_client_init_def by (rule init_passes [OF assms])
  obtain l sl where l: "test_rass_open_connection STATE_START k = Inr (True, l)" "stands w l ROLE_CLIENT STATE_START sl"
      "alike (wmem l) (wmem k)"
    using open_passes [OF k(2)] by auto
  have "wf_world (wmem l)" using l(2) at_rest_wf by (auto simp: stands_def)
  then have "\<forall>pdu. code_live (wmem l) pdu = code_live w pdu"
    using code_live_alike [OF alike_trans [OF l(3) k(3)] _ assms] by blast
  from that [OF k(1) l(1,2) this] show thesis .
qed

text \<open>The programs.\<close>

lemmas programs = test_rass_server_def test_rass_send_data_def test_rass_client_def run_tests.simps bindE_simps prod.case

lemma all_passed: "replicate 5 True = [True, True, True, True, True]" "replicate 4 True = [True, True, True, True]"
  by code_simp+

lemma client_program:
  assumes "wf_world w" and "code_live w junk"
  shows "\<exists>lib. run_tests (test_rass_client junk i0) (test_process w) = Inr (replicate 4 True, lib) \<and>
    test_state 0 lib = (if i0 = 0 then STATE_CLOSED else STATE_UP)"
proof -
  obtain k l sl where l: "test_rass_init setup_rass_client_init (test_process w) = Inr (True, k)"
      "test_rass_open_connection STATE_START k = Inr (True, l)" "stands w l ROLE_CLIENT STATE_START sl"
      "\<forall>pdu. code_live (wmem l) pdu = code_live w pdu"
    by (rule client_waits [OF assms(1)])
  have junk: "code_live (wmem l) junk" by (simp only: l(4) assms(2))
  obtain m sm where m: "with_setup (setup_conn_resp junk) (test_rass_receive_spdu client_ReceiveSpdu client_expects) l = Inr (True, m)"
      "stands w m ROLE_CLIENT STATE_UP sm"
    by (rule conn_resp_passes [OF l(3) junk])
  obtain n sn where n: "test_rass_close_connection i0 m = Inr (True, n)" "stands w n ROLE_CLIENT (if i0 = 0 then STATE_CLOSED else STATE_UP) sn"
    by (rule close_passes [OF m(2)])
  have "run_tests (test_rass_client junk i0) (test_process w) = Inr ([True, True, True, True], n)"
    by (simp only: programs l(1,2) m(1) n(1))
  then show ?thesis using stands_state [OF n(2)] by (auto simp only: all_passed)
qed

lemma server_programs:
  assumes "wf_world w" and "code_live w junk \<and> code_live (with_buffer w) junk'"
  shows "(\<exists>lib. run_tests (test_rass_server junk junk' i0) (test_process w) = Inr (replicate 5 True, lib) \<and>
      test_state 0 lib = (if i0 = 0 then STATE_CLOSED else STATE_UP)) \<and>
    (\<exists>lib. run_tests (test_rass_send_data junk junk' i0) (test_process w) = Inr (replicate 5 True, lib) \<and>
      test_state 0 lib = STATE_UP)"
proof -
  obtain a b c sc where c: "test_rass_init setup_rass_server_init (test_process w) = Inr (True, a)"
      "test_rass_open_connection STATE_DOWN a = Inr (True, b)"
      "with_setup (setup_conn_req junk) (test_rass_receive_spdu server_ReceiveSpdu server_expects) b = Inr (True, c)"
      "stands w c ROLE_SERVER STATE_START sc" "snr sc = snt sc + 1"
      "\<forall>pdu. code_live (wmem c) pdu = code_live (with_buffer w) pdu"
    by (rule server_answers [OF assms(1) conjunct1 [OF assms(2)]])
  have junk: "code_live (wmem c) junk'" by (simp only: c(6) assms(2))
  obtain d sd where d: "with_setup (setup_hb junk') (test_rass_receive_spdu server_ReceiveSpdu server_expects) c = Inr (True, d)"
      "stands w d ROLE_SERVER STATE_UP sd"
    by (rule hb_passes [OF c(4,5) junk])
  obtain e se where e: "test_rass_close_connection i0 d = Inr (True, e)" "stands w e ROLE_SERVER (if i0 = 0 then STATE_CLOSED else STATE_UP) se"
    by (rule close_passes [OF d(2)])
  obtain g sg where g: "test_rass_send_msg i0 d = Inr (True, g)" "stands w g ROLE_SERVER STATE_UP sg"
    by (rule send_passes [OF d(2), of i0]) (rule that)
  have "run_tests (test_rass_server junk junk' i0) (test_process w) = Inr ([True, True, True, True, True], e)"
    "run_tests (test_rass_send_data junk junk' i0) (test_process w) = Inr ([True, True, True, True, True], g)"
    by (simp_all only: programs c(1-3) d(1) e(1) g(1))
  then show ?thesis using stands_state [OF e(2)] stands_state [OF g(2)] by (simp only: all_passed) auto
qed

lemma client_program_faults:
  assumes "wf_world w" and "\<not> code_live w junk"
  shows "run_tests (test_rass_client junk i0) (test_process w) = Inl Out_Of_Bounds"
proof -
  obtain k l sl where l: "test_rass_init setup_rass_client_init (test_process w) = Inr (True, k)"
      "test_rass_open_connection STATE_START k = Inr (True, l)" "stands w l ROLE_CLIENT STATE_START sl"
      "\<forall>pdu. code_live (wmem l) pdu = code_live w pdu"
    by (rule client_waits [OF assms(1)])
  have "at_rest l sl" "\<not> code_live (wmem l) junk" using l(3,4) assms(2) by (simp_all add: stands_def)
  note fault = setup_faults(3) [OF this]
  show ?thesis by (simp only: programs l(1,2) fault)
qed

lemma server_programs_fault:
  assumes "wf_world w" and "\<not> (code_live w junk \<and> code_live (with_buffer w) junk')"
  shows "run_tests (test_rass_server junk junk' i0) (test_process w) = Inl Out_Of_Bounds"
    and "run_tests (test_rass_send_data junk junk' i0) (test_process w) = Inl Out_Of_Bounds"
proof -
  have "run_tests (test_rass_server junk junk' i0) (test_process w) = Inl Out_Of_Bounds \<and>
    run_tests (test_rass_send_data junk junk' i0) (test_process w) = Inl Out_Of_Bounds"
  proof (cases "code_live w junk")
    case True
    obtain a b c sc where c: "test_rass_init setup_rass_server_init (test_process w) = Inr (True, a)"
        "test_rass_open_connection STATE_DOWN a = Inr (True, b)"
        "with_setup (setup_conn_req junk) (test_rass_receive_spdu server_ReceiveSpdu server_expects) b = Inr (True, c)"
        "stands w c ROLE_SERVER STATE_START sc" "snr sc = snt sc + 1"
        "\<forall>pdu. code_live (wmem c) pdu = code_live (with_buffer w) pdu"
      by (rule server_answers [OF assms(1) True])
    have "at_rest c sc" "\<not> code_live (wmem c) junk'" using c(4,6) assms(2) True by (simp_all add: stands_def)
    note fault = setup_faults(2) [OF this]
    show ?thesis by (simp only: programs c(1-3) fault)
  next
    case False
    obtain a b sb where b: "test_rass_init setup_rass_server_init (test_process w) = Inr (True, a)"
        "test_rass_open_connection STATE_DOWN a = Inr (True, b)" "stands w b ROLE_SERVER STATE_DOWN sb"
        "\<forall>pdu. code_live (wmem b) pdu = code_live w pdu" "alike (wmem b) w"
      by (rule server_waits [OF assms(1)])
    have "at_rest b sb" "\<not> code_live (wmem b) junk" using b(3,4) False by (simp_all add: stands_def)
    note fault = setup_faults(1) [OF this]
    show ?thesis by (simp only: programs b(1,2) fault)
  qed
  then show "run_tests (test_rass_server junk junk' i0) (test_process w) = Inl Out_Of_Bounds"
    "run_tests (test_rass_send_data junk junk' i0) (test_process w) = Inl Out_Of_Bounds" by simp_all
qed

section \<open>Properties\<close>

text \<open>
  C19. When the test programs of the interface pass: the setup functions get their PDUs from
  \<open>malloc\<close> and do not clear them, so that the safety-code pointer of each is whatever the memory
  holds. If it is null or eight bytes can be read through it, for each PDU that the program sets up, then
  the programs of the server, of the client and for sending, run in their order on a fresh process,
  return with all assertions satisfied, for any clock and any value of the uninitialised loop
  variable; the closing test closes the connection only if this variable happens to be 0. If the
  pointer of one of its PDUs cannot be read, the program does not come to its end but reads outside an array.
\<close>

theorem test_programs_pass:
  assumes "wf_world w"
  shows "(code_live w junk \<longrightarrow> (\<exists>lib. run_tests (test_rass_client junk i0) (test_process w) = Inr (replicate 4 True, lib) \<and>
      test_state 0 lib = (if i0 = 0 then STATE_CLOSED else STATE_UP))) \<and>
    (code_live w junk \<and> code_live (with_buffer w) junk' \<longrightarrow>
      (\<exists>lib. run_tests (test_rass_server junk junk' i0) (test_process w) = Inr (replicate 5 True, lib) \<and>
        test_state 0 lib = (if i0 = 0 then STATE_CLOSED else STATE_UP)) \<and>
      (\<exists>lib. run_tests (test_rass_send_data junk junk' i0) (test_process w) = Inr (replicate 5 True, lib) \<and>
        test_state 0 lib = STATE_UP)) \<and>
    (\<not> code_live w junk \<longrightarrow> run_tests (test_rass_client junk i0) (test_process w) = Inl Out_Of_Bounds) \<and>
    (\<not> (code_live w junk \<and> code_live (with_buffer w) junk') \<longrightarrow>
      run_tests (test_rass_server junk junk' i0) (test_process w) = Inl Out_Of_Bounds \<and>
      run_tests (test_rass_send_data junk junk' i0) (test_process w) = Inl Out_Of_Bounds)"
proof (intro conjI impI)
  assume "code_live w junk"
  from client_program [OF assms this] show "\<exists>lib. run_tests (test_rass_client junk i0) (test_process w) = Inr (replicate 4 True, lib) \<and>
      test_state 0 lib = (if i0 = 0 then STATE_CLOSED else STATE_UP)" .
next
  assume "code_live w junk \<and> code_live (with_buffer w) junk'"
  with server_programs [OF assms] show "\<exists>lib. run_tests (test_rass_server junk junk' i0) (test_process w) = Inr (replicate 5 True, lib) \<and>
      test_state 0 lib = (if i0 = 0 then STATE_CLOSED else STATE_UP)"
    "\<exists>lib. run_tests (test_rass_send_data junk junk' i0) (test_process w) = Inr (replicate 5 True, lib) \<and> test_state 0 lib = STATE_UP"
    by blast+
next
  assume "\<not> code_live w junk"
  from client_program_faults [OF assms this] show "run_tests (test_rass_client junk i0) (test_process w) = Inl Out_Of_Bounds" .
next
  assume "\<not> (code_live w junk \<and> code_live (with_buffer w) junk')"
  from server_programs_fault [OF assms this] show "run_tests (test_rass_server junk junk' i0) (test_process w) = Inl Out_Of_Bounds"
    "run_tests (test_rass_send_data junk junk' i0) (test_process w) = Inl Out_Of_Bounds" .
qed

theorem test_programs_pass_witness:
  "(\<exists>lib. run_tests (test_rass_client zero_pdu 0) (test_process sample_world) = Inr (replicate 4 True, lib) \<and>
    test_state 0 lib = STATE_CLOSED) \<and>
   run_tests (test_rass_client (zero_pdu\<lparr>safety_code := Ptr Data_buffer 0\<rparr>) 0) (test_process sample_world) = Inl Out_Of_Bounds"
proof -
  have "wf_world sample_world" by (simp add: sample_world_def)
  moreover have "\<not> code_live sample_world (zero_pdu\<lparr>safety_code := Ptr Data_buffer 0\<rparr>)"
    by (simp add: code_live_def code_bytes_def readable_def array_of_def sample_world_def initial_world_def)
  ultimately show ?thesis
    using test_programs_pass [of sample_world zero_pdu 0]
      test_programs_pass [of sample_world "zero_pdu\<lparr>safety_code := Ptr Data_buffer 0\<rparr>" 0] by auto
qed

end
