(* ===== verification/Processes.thy ===== *)
theory Processes
  imports Network Test_Suites
begin

text \<open>
  Two processes, each with the library and the application of a test program: what one hands to
  \<open>SendSpdu\<close> is received by the other with \<open>Rass_ReceiveSpdu\<close>. The connection of a process is a
  side of the links in \<open>Link\<close> and \<open>Network\<close>, so that what is proved there holds for the processes.
\<close>

section \<open>A process and its connection\<close>

definition frame_of :: "lib \<Rightarrow> frame" where
  "frame_of lib = \<lparr>self = sm_arrays lib 0 ! 0, pdu_of = zero_pdu, mem = wmem lib\<rparr>"

definition started :: "SafeComType \<Rightarrow> lib \<Rightarrow> lib outcome" where
  "started cfg lib = bindE (Rass_Init_VTable (Some cfg) lib) (\<lambda>(_, lib). bindE (Rass_OpenConnection 0 lib) (\<lambda>(_, lib). Inr lib))"

text \<open>The bytes of the last call of \<open>SendSpdu\<close>.\<close>

definition last_sent :: "lib \<Rightarrow> u8 list" where
  "last_sent lib = call_data (last (sent (wmem lib)))"

lemma emitted_last:
  assumes "emitted c c' = [b]"
  shows "call_data (last (sent (mem c'))) = b"
proof -
  let ?new = "drop (length (sent (mem c))) (sent (mem c'))"
  have new: "map call_data ?new = [b]" using assms by (simp add: emitted_def)
  then have "?new \<noteq> []" by auto
  then have "last (sent (mem c')) = last ?new" by (simp add: last_drop)
  moreover have "call_data (last ?new) = b" using new by (cases ?new) auto
  ultimately show ?thesis by simp
qed

lemma stored_put: "sms lib = Some 0 \<Longrightarrow> sm_arrays lib 0 = [x] \<Longrightarrow> store_connection 0 sm w lib = put sm w lib"
  by (simp add: store_connection_def put_def)

lemma put_holding: "put sm w (holding k b lib) = put sm w lib"
  by (simp add: put_def holding_def)

text \<open>The PDU of the last event does not matter for the next step.\<close>

lemma frame_of_put: "frame_of (put (self c) (mem c) lib) = c\<lparr>pdu_of := zero_pdu\<rparr>"
  by (cases c) (simp add: frame_of_def put_def)

lemma receive_spdu_pdu: "receive_spdu b (c\<lparr>pdu_of := p\<rparr>) = receive_spdu b c"
  by (simp add: receive_spdu_def)

lemma able_pdu: "able f (c\<lparr>pdu_of := p\<rparr>) = able f c"
  by (simp add: able_def)

lemma test_state_put [simp]: "test_state 0 (put sm w lib) = sm_state sm"
  by (simp add: test_state_def put_def)

lemma last_sent_put: "emitted c c' = [b] \<Longrightarrow> last_sent (put (self c') (mem c') lib) = b"
  by (simp add: last_sent_def put_def emitted_last)

lemma at_rest_frame:
  assumes "at_rest lib sm"
  shows "able (App_SendSpdu 0) (frame_of lib)" and "self (frame_of lib) = sm" and "mem (frame_of lib) = wmem lib"
    and "(frame_of lib)\<lparr>pdu_of := zero_pdu\<rparr> = frame_of lib"
  using assms by (simp_all add: at_rest_def able_def frame_of_def)

text \<open>Opening, and delivering a telegram to a callback that answers its type.\<close>

lemma open_at_rest:
  assumes lib: "at_rest lib sm" and opened: "Sm_HandleEvent EVENT_OPEN_CONN ((frame_of lib)\<lparr>pdu_of := zero_pdu\<rparr>) = Inr c'"
  shows "Rass_OpenConnection 0 lib = Inr (OK, put (self c') (mem c') lib)" and "at_rest (put (self c') (mem c') lib) (self c')"
proof -
  have sms: "sms lib = Some 0" "sm_arrays lib 0 = [sm]" using lib by (simp_all add: at_rest_def)
  have event: "handle_event_at 0 EVENT_OPEN_CONN zero_pdu lib = Inr (put (self c') (mem c') lib)"
    using opened handle_event_index [OF sms(1), of 0] sms(2) by (simp add: frame_of_def stored_put [OF sms])
  then show "Rass_OpenConnection 0 lib = Inr (OK, put (self c') (mem c') lib)"
    by (simp add: Rass_OpenConnection_def SafeCom_defs)
  have "admissible EVENT_OPEN_CONN \<lparr>self = sm, pdu_of = zero_pdu, mem = wmem lib\<rparr>" by (simp add: admissible_def)
  then obtain lib' sm' c d where "handle_event_at 0 EVENT_OPEN_CONN zero_pdu lib = Inr lib'" "at_rest lib' sm'"
      "c = \<lparr>self = sm, pdu_of = zero_pdu, mem = wmem lib\<rparr>" "follows (planned c EVENT_OPEN_CONN) (App_SendSpdu 0) c d"
      "self d = sm'" "wmem lib' = mem d"
    by (rule event_at_rest [OF lib zero_pdu_live])
  then show "at_rest (put (self c') (mem c') lib) (self c')" using event by (auto simp: at_rest_def put_def)
qed

lemma telegram_length:
  assumes "telegram_of t content sm b"
  shows "unat (word_of_nat (length b) :: u32) = length b"
proof -
  have "length b < 2 ^ 32" using assms by (auto simp: telegram_of_def)
  then show ?thesis by (simp add: unat_of_nat)
qed

lemma telegram_held:
  assumes "telegram_of t content sm b"
  obtains pdu where "deserialize_pdu (Ptr (Ext 0) 0) (length b) zero_pdu (wmem (holding 0 b lib)) = Inr (pdu, wmem (holding 0 b lib))"
    and "message_type pdu = message_code t" and "code_live (wmem (holding 0 b lib)) pdu"
    and "4 \<le> length content \<longrightarrow> payload_live (wmem (holding 0 b lib)) pdu"
proof -
  let ?lib = "holding 0 b lib"
  obtain now code where fits: "length content \<le> 22" "length code = 8" and b: "b = covered t content sm now @ code"
    using assms by (auto simp: telegram_of_def)
  have len: "length b = 36 + length content" by (simp add: b fits(2))
  have "take (36 + length content) (ext (wmem ?lib) 0) = covered t content sm now @ code"
    using len by (simp add: holding_def b)
  then obtain pdu where "deserialize_pdu (Ptr (Ext 0) 0) (length b) zero_pdu (wmem ?lib) = Inr (pdu, wmem ?lib)"
      "message_type pdu = message_code t" "code_live (wmem ?lib) pdu"
      "4 \<le> length content \<longrightarrow> payload_live (wmem ?lib) pdu"
    using telegram_received [OF fits, of "wmem ?lib" 0 t sm now] unfolding len by metis
  then show thesis using that by blast
qed

lemma deliver_at_rest:
  assumes lib: "at_rest lib sm" and tel: "telegram_of t content sm' b" and "answers My_ReceiveSpdu t (event_for t)"
    and payload: "t \<in> {CONNECTION_REQUEST, CONNECTION_RESPONSE} \<Longrightarrow> 4 \<le> length content"
    and handled: "receive_spdu b (frame_of lib) = Inr c'"
  shows "perform (receiver (\<lambda>_. My_ReceiveSpdu)) (Receive_request 0 b) lib = Inr (OK, put (self c') (mem c') lib)"
    and "at_rest (put (self c') (mem c') lib) (self c')"
proof -
  let ?lib = "holding 0 b lib"
  have w: "wmem ?lib = arrived b (wmem lib)" by (simp add: holding_def arrived_def)
  have n: "unat (word_of_nat (length b) :: u32) = length b" by (rule telegram_length [OF tel])
  obtain pdu where des: "deserialize_pdu (Ptr (Ext 0) 0) (length b) zero_pdu (wmem ?lib) = Inr (pdu, wmem ?lib)"
      and type: "message_type pdu = message_code t" and live: "code_live (wmem ?lib) pdu"
      and bytes: "4 \<le> length content \<longrightarrow> payload_live (wmem ?lib) pdu"
    by (rule telegram_held [OF tel])
  have rest: "at_rest ?lib sm" by (rule at_rest_holding [OF lib])
  then have sms: "sms ?lib = Some 0" "sm_arrays ?lib 0 = [sm]" "ReceiveMsg (vtables (wmem ?lib) RassInstance) = Some (App_ReceiveMsg 0)"
    by (simp_all add: at_rest_def)
  have "Sm_HandleEvent (event_for t) \<lparr>self = sm, pdu_of = pdu, mem = wmem ?lib\<rparr> = Inr c'"
    using handled des lib type by (simp add: receive_spdu_def w frame_of_def at_rest_def)
  then have event: "handle_event_at 0 (event_for t) pdu ?lib = Inr (put (self c') (mem c') lib)"
    using handle_event_index [OF sms(1), of 0] sms(2) by (simp add: stored_put [OF sms(1,2)] put_holding)
  have "?lib\<lparr>wmem := wmem ?lib\<rparr> = ?lib" by simp
  then have "My_ReceiveSpdu 0 (word_of_nat (length b)) (Ptr (Ext 0) 0) ?lib = Inr (OK, put (self c') (mem c') lib)"
    using assms(3) des type event unfolding answers_def by (simp add: n)
  then show "perform (receiver (\<lambda>_. My_ReceiveSpdu)) (Receive_request 0 b) lib = Inr (OK, put (self c') (mem c') lib)"
    using sms(3) by (simp add: Rass_ReceiveSpdu_def SafeCom_defs)
  have "admissible (event_for t) \<lparr>self = sm, pdu_of = pdu, mem = wmem ?lib\<rparr>"
    using payload bytes by (cases t) (auto simp: admissible_def)
  then obtain lib' sm2 c d where "handle_event_at 0 (event_for t) pdu ?lib = Inr lib'" "at_rest lib' sm2"
      "c = \<lparr>self = sm, pdu_of = pdu, mem = wmem ?lib\<rparr>" "follows (planned c (event_for t)) (App_SendSpdu 0) c d"
      "self d = sm2" "wmem lib' = mem d"
    by (rule event_at_rest [OF rest live])
  then show "at_rest (put (self c') (mem c') lib) (self c')" using event by (auto simp: at_rest_def put_def)
qed

section \<open>Connecting\<close>

text \<open>The three telegrams of the handshake, for any callbacks that answer them.\<close>

lemma connect_steps:
  assumes "wf_world wc" and "wf_world ws" and "answers capp CONNECTION_RESPONSE (event_for CONNECTION_RESPONSE)"
    and "answers sapp CONNECTION_REQUEST (event_for CONNECTION_REQUEST)" and "answers sapp HEARTBEAT (event_for HEARTBEAT)"
  shows "\<exists>c1 s1 s2 c2 s3 ts sm_c sm_s. started setup_rass_client_init (test_process wc) = Inr c1 \<and>
    started setup_rass_server_init (test_process ws) = Inr s1 \<and>
    perform (receiver (\<lambda>_. sapp)) (Receive_request 0 (last_sent c1)) s1 = Inr (OK, s2) \<and>
    perform (receiver (\<lambda>_. capp)) (Receive_request 0 (last_sent s2)) c1 = Inr (OK, c2) \<and>
    perform (receiver (\<lambda>_. sapp)) (Receive_request 0 (last_sent c2)) s2 = Inr (OK, s3) \<and>
    at_rest c2 sm_c \<and> at_rest s3 sm_s \<and> test_state 0 c2 = STATE_UP \<and> test_state 0 s3 = STATE_UP \<and>
    in_step (\<lambda>_. App_SendSpdu 0) ts (quiet (frame_of c2) (frame_of s3))"
proof -
  obtain c0 cm where c0: "Rass_Init_VTable (Some setup_rass_client_init) (test_process wc) = Inr (OK, c0)"
      "stands wc c0 ROLE_CLIENT STATE_CLOSED cm"
    unfolding setup_rass_client_init_def by (rule init_stands [OF assms(1)])
  obtain s0 sm where s0: "Rass_Init_VTable (Some setup_rass_server_init) (test_process ws) = Inr (OK, s0)"
      "stands ws s0 ROLE_SERVER STATE_CLOSED sm"
    unfolding setup_rass_server_init_def by (rule init_stands [OF assms(2)])
  have plan: "plan_event ROLE_SERVER v STATE_CLOSED EVENT_OPEN_CONN = Listen" for v by (simp add: plan_event_def)
  obtain s1 sm1 where s1: "handle_event_at 0 EVENT_OPEN_CONN zero_pdu s0 = Inr s1" "stands ws s1 ROLE_SERVER (target Listen STATE_CLOSED) sm1"
    by (rule call_passes [OF s0(2) _ plan]) simp
  have crest: "at_rest c0 cm" and srest: "at_rest s1 sm1" using c0(2) s1(2) by (simp_all add: stands_def)
  let ?f = "\<lambda>_ :: side. App_SendSpdu 0" and ?c = "frame_of c0" and ?s = "frame_of s1"
  note fc = at_rest_frame [OF crest] and fs = at_rest_frame [OF srest]
  have hyps: "able (?f Client) ?c" "able (?f Server) ?s" "sm_role (self ?c) = ROLE_CLIENT" "sm_state (self ?c) = STATE_CLOSED"
      "sm_role (self ?s) = ROLE_SERVER" "sm_state (self ?s) = STATE_DOWN"
      "0 < Tmax (timeouts (sm_time (self ?c)))" "0 < Tmax (timeouts (sm_time (self ?s)))"
    using fc(1,2) fs(1,2) c0(2) s1(2) by (simp_all add: stands_def)
  obtain d1 b1 e1 b2 d2 b3 e2 where h: "Sm_HandleEvent EVENT_OPEN_CONN (?c\<lparr>pdu_of := zero_pdu\<rparr>) = Inr d1"
      "emitted ?c d1 = [b1]" "receive_spdu b1 ?s = Inr e1" "emitted ?s e1 = [b2]" "receive_spdu b2 d1 = Inr d2"
      "emitted d1 d2 = [b3]" "receive_spdu b3 e1 = Inr e2" "emitted e1 e2 = []"
      "in_step ?f (reading (mem ?s) (clock_calls (mem ?s))) (quiet d2 e2)" "snt (self d2) = fst (snt_rand_value (mem ?c)) + 1"
      "telegram_of CONNECTION_REQUEST handshake_payload (self d1) b1"
      "telegram_of CONNECTION_RESPONSE handshake_payload (self e1) b2" "telegram_of HEARTBEAT [] (self d2) b3"
    by (rule handshake [OF hyps])
  define c1 s2 c2 s3 where defs: "c1 = put (self d1) (mem d1) c0" "s2 = put (self e1) (mem e1) s1"
    "c2 = put (self d2) (mem d2) c1" "s3 = put (self e2) (mem e2) s2"
  note o = open_at_rest [OF crest h(1), folded defs]
  have p4: "4 \<le> length handshake_payload" and no4: "HEARTBEAT \<in> {CONNECTION_REQUEST, CONNECTION_RESPONSE} \<Longrightarrow> 4 \<le> length ([] :: u8 list)"
    by simp_all
  note r1 = deliver_at_rest [OF srest h(11) assms(4) p4 h(3), folded defs]
  have "receive_spdu b2 (frame_of c1) = Inr d2" using h(5) by (simp add: defs frame_of_put receive_spdu_pdu)
  note r2 = deliver_at_rest [OF o(2) h(12) assms(3) p4 this, folded defs]
  have "receive_spdu b3 (frame_of s2) = Inr e2" using h(7) by (simp add: defs frame_of_put receive_spdu_pdu)
  note r3 = deliver_at_rest [OF r1(2) h(13) assms(5) no4 this, folded defs]
  have lasts: "last_sent c1 = b1" "last_sent s2 = b2" "last_sent c2 = b3"
    unfolding defs by (rule last_sent_put [OF h(2)], rule last_sent_put [OF h(4)], rule last_sent_put [OF h(6)])
  have started: "started setup_rass_client_init (test_process wc) = Inr c1" "started setup_rass_server_init (test_process ws) = Inr s1"
    using c0(1) o(1) s0(1) s1(1) by (simp_all add: started_def Rass_OpenConnection_def SafeCom_defs)
  have step: "in_step ?f (reading (mem ?s) (clock_calls (mem ?s))) (quiet (frame_of c2) (frame_of s3))"
    using h(9) by (simp add: in_step_quiet defs frame_of_put able_pdu)
  have up: "test_state 0 c2 = STATE_UP" "test_state 0 s3 = STATE_UP"
    using h(9) by (simp_all add: in_step_quiet defs)
  from started r1(1) r2(1) r3(1) r2(2) r3(2) up step show ?thesis unfolding lasts [symmetric] by blast
qed

section \<open>Properties\<close>

text \<open>
  Two processes connect through the interface: a client and a server that are initialised and
  opened with \<open>Rass_Init_VTable\<close> and \<open>Rass_OpenConnection\<close> are both in the state UP after three
  telegrams were carried over, each the last one its sender gave to \<open>SendSpdu\<close>, and their connections
  are two sides in step - the start of every run that the properties of links and networks are about.
\<close>

theorem processes_connect:
  assumes "wf_world wc" and "wf_world ws"
  shows "\<exists>c1 s1 s2 c2 s3 ts. started setup_rass_client_init (test_process wc) = Inr c1 \<and>
    started setup_rass_server_init (test_process ws) = Inr s1 \<and>
    perform (receiver (\<lambda>_. server_ReceiveSpdu)) (Receive_request 0 (last_sent c1)) s1 = Inr (OK, s2) \<and>
    perform (receiver (\<lambda>_. client_ReceiveSpdu)) (Receive_request 0 (last_sent s2)) c1 = Inr (OK, c2) \<and>
    perform (receiver (\<lambda>_. server_ReceiveSpdu)) (Receive_request 0 (last_sent c2)) s2 = Inr (OK, s3) \<and>
    test_state 0 c2 = STATE_UP \<and> test_state 0 s3 = STATE_UP \<and>
    in_step (\<lambda>_. App_SendSpdu 0) ts (quiet (frame_of c2) (frame_of s3))"
  using connect_steps [OF assms, of client_ReceiveSpdu server_ReceiveSpdu] callbacks_answer
  by (simp only: event_for.simps) blast

theorem processes_connect_witness:
  "\<exists>c1 s1 s2. started setup_rass_client_init (test_process sample_world) = Inr c1 \<and>
    started setup_rass_server_init (test_process sample_world) = Inr s1 \<and>
    perform (receiver (\<lambda>_. server_ReceiveSpdu)) (Receive_request 0 (last_sent c1)) s1 = Inr (OK, s2)"
proof -
  have "wf_world sample_world" by (simp add: sample_world_def)
  from processes_connect [OF this this] show ?thesis by blast
qed

end
