(* ===== verification/Delivery.thy ===== *)
theory Delivery
  imports Processes
begin

text \<open>
  Whole processes on the unreliable network: the calls of the interface on one side, the bytes
  handed to \<open>SendSpdu\<close> and given to \<open>Rass_ReceiveSpdu\<close> between them. A process is one more node in
  the sense of \<open>Network\<close>, with its connection's numbers, so that what it accepts is an initial part
  of what the other one sent. The messages given to \<open>Rass_SendData\<close> are followed from end to end.
\<close>

section \<open>The message in a telegram\<close>

definition message_in :: "u8 list \<Rightarrow> u8 list option" where
  "message_in b = (if message_type (parsed b) = message_code DATA then Some (take (length_field b - 36) (drop 28 b)) else None)"

fun messages :: "u8 list list \<Rightarrow> u8 list list" where
  "messages [] = []"
| "messages (b # bs) = (case message_in b of None \<Rightarrow> messages bs | Some m \<Rightarrow> m # messages bs)"

lemma messages_append [simp]: "messages (xs @ ys) = messages xs @ messages ys"
  by (induction xs) (auto split: option.splits)

lemma messages_prefix: "prefix xs ys \<Longrightarrow> prefix (messages xs) (messages ys)"
  by (auto simp: prefix_def)

lemma header_fields:
  assumes "header h = header h'"
  shows "message_length h = message_length h'" and "ucast (message_type h) = (ucast (message_type h') :: u16)"
  using assms be16_inject [of "message_length h" "message_length h'"]
    be16_inject [of "ucast (message_type h)" "ucast (message_type h')"]
  by (simp_all add: header_def be16_def)

lemma message_in_telegram:
  assumes "telegram_of t content sm b"
  shows "message_in b = (if t = DATA then Some content else None)"
proof -
  obtain now code where fits: "length content \<le> 22" and b: "b = header (outgoing t NULL (length content) sm now) @ content @ code"
    using assms by (auto simp: telegram_of_def covered_def)
  let ?h = "outgoing t NULL (length content) sm now"
  have len: "length (header ?h) = 28" by simp
  then have "header (parsed b) = header ?h" by (subst header_parsed) (simp_all add: b)
  note f = header_fields [OF this]
  have "length_field b = 36 + length content" using f(1) fits by (simp add: outgoing_sizes)
  then have "take (length_field b - 36) (drop 28 b) = content" using len by (simp add: b)
  moreover have "message_type (parsed b) = message_code t"
  proof -
    have "message_type (parsed b) = ucast (ucast (message_code t) :: u16)"
      using f(2) parsed_type_16 [of b] by (simp add: outgoing_def)
    then show ?thesis by (cases t) simp_all
  qed
  moreover have "message_code t = message_code DATA \<longleftrightarrow> t = DATA" by (cases t) simp_all
  ultimately show ?thesis by (simp add: message_in_def)
qed

text \<open>No telegram that the state machine builds by itself carries a message.\<close>

lemma no_message:
  assumes "follows a f c0 c'" and "a \<noteq> Forward" and "sent (mem c0) = sent (mem c)"
  shows "messages (emitted c c') = []"
proof (cases "says a")
  case None
  then show ?thesis using followsD(6) [OF assms(1) None assms(2)] assms(3) by (simp add: emitted_def)
next
  case (Some say)
  obtain t content where say: "says a = Some (t, content)" using Some by (cases say) simp
  have t: "t \<noteq> DATA" "length content \<le> 22"
    using say by (auto elim!: says.elims simp: handshake_payload_def disc_payload_def be16_def)
  obtain b where "emitted c c' = [b]" "telegram_of t content (self c') b"
    by (rule transmits_emits [OF followsD(7) [OF assms(1) say] t(2) assms(3)])
  then show ?thesis using message_in_telegram t(1) by simp
qed

section \<open>The interface on the connection of a process\<close>

text \<open>A message that fits is built, counted and given to the state machine.\<close>

lemma send_returns:
  assumes able: "able f c" and fits: "length m \<le> 22"
  obtains c1 c' where "send_data m c = Inr c'" and "self c1 = counted True (self c)" and "sent (mem c1) = sent (mem c)"
    and "vtables (mem c1) = vtables (mem c)" and "follows (planned c1 EVENT_SEND_DATA) f c1 c'"
    and "telegram_of DATA m (self c1) (telegram (mem c1) (pdu_of c1))"
proof -
  let ?n = "word_of_nat (length m) :: u8"
  let ?c = "c\<lparr>pdu_of := zero_pdu, mem := (mem c)\<lparr>ext := (ext (mem c))(1 := m)\<rparr>\<rparr>"
  have c: "operational f ?c" by (rule able_holding [OF able])
  have n: "unat ?n = length m" using fits by (simp add: unat_of_nat)
  obtain c1 j now where d: "Data ?n (Ptr (Ext 1) 0) ?c = Inr c1" "operational f c1" "sendable (mem c1) (pdu_of c1)"
      "self c1 = counted True (self c)" "sent (mem c1) = sent (mem c)" "same_environment (mem ?c) (mem c1)"
      "telegram (mem c1) (pdu_of c1) = covered DATA m (self c1) now @ code_seen (mem ?c) j (covered DATA m (self c1) now)"
    by (rule Data_frame [OF c, of ?n 0 1]) (use n fits in auto)
  have adm: "admissible EVENT_SEND_DATA c1" using d(3) by (simp add: admissible_def)
  have cons: "consistent (self c1)" using able d(4) by (simp add: able_def consistent_def)
  obtain c' where c': "Sm_HandleEvent EVENT_SEND_DATA c1 = Inr c'" "follows (planned c1 EVENT_SEND_DATA) f c1 c'"
    by (rule event_step [OF d(2) cons adm])
  have "send_data m c = Inr c'" using d(1) c'(1) by (simp add: send_data_def)
  moreover have "telegram_of DATA m (self c1) (telegram (mem c1) (pdu_of c1))" using fits d(7) by (auto simp: telegram_of_def)
  moreover have "vtables (mem c1) = vtables (mem c)" using d(6) by (simp add: same_environment_def)
  ultimately show thesis using that d(4,5) c'(2) by blast
qed

lemma event_at_connection:
  assumes "at_rest lib sm"
  shows "handle_event_at 0 event zero_pdu lib =
    bindE (Sm_HandleEvent event (frame_of lib)) (\<lambda>c'. Inr (put (self c') (mem c') lib))"
  using assms handle_event_index [of lib 0 0] stored_put [of lib sm]
  by (simp add: at_rest_def frame_of_def)

lemma send_at_connection:
  assumes "at_rest lib sm" and fits: "length m \<le> 22"
  shows "perform app (Send_request 0 m) lib = bindE (send_data m (frame_of lib)) (\<lambda>c'. Inr (OK, put (self c') (mem c') lib))"
proof -
  let ?lib = "holding 1 m lib" and ?p = "Ptr (Ext 1) 0"
  let ?c = "\<lparr>self = sm, pdu_of = zero_pdu, mem = wmem ?lib\<rparr>"
  have sms: "sms ?lib = Some 0" "sm_arrays ?lib 0 = [sm]" "sms lib = Some 0" "sm_arrays lib 0 = [sm]"
    using assms(1) by (simp_all add: at_rest_def holding_def)
  have n: "ucast (word_of_nat (length m) :: u32) = (word_of_nat (length m) :: u8)"
    using fits by (intro word_unat_eq_iff [THEN iffD2]) (simp add: unat_ucast_down unat_of_nat)
  have frame: "(frame_of lib)\<lparr>pdu_of := zero_pdu, mem := (mem (frame_of lib))\<lparr>ext := (ext (mem (frame_of lib)))(1 := m)\<rparr>\<rparr> = ?c"
    using sms(4) by (simp add: frame_of_def holding_def)
  have again: "store_connection 0 sm1 w1 (put sm2 w2 lib) = put sm1 w1 lib" for sm1 w1 sm2 w2
    using sms(3) by (simp add: store_connection_def put_def)
  have "handle_event_at 0 EVENT_SEND_DATA (pdu_of c1) (put (self c1) (mem c1) lib) =
      bindE (Sm_HandleEvent EVENT_SEND_DATA c1) (\<lambda>c'. Inr (put (self c') (mem c') lib))" for c1
    using handle_event_index [of "put (self c1) (mem c1) lib" 0 0] sms(3)
    by (cases c1) (simp add: again, simp add: put_def)
  then have "handle_event_at 0 EVENT_SEND_DATA (pdu_of c1) (store_connection 0 (self c1) (mem c1) ?lib) =
      bindE (Sm_HandleEvent EVENT_SEND_DATA c1) (\<lambda>c'. Inr (put (self c') (mem c') lib))" for c1
    by (simp only: stored_put [OF sms(1,2)] put_holding)
  then show ?thesis
    using sms by (simp add: Rass_SendData_def SafeCom_defs connection_def array_get_def n send_data_def frame bindE_assoc del: One_nat_def)
qed

text \<open>A receive callback that attends to a telegram type raises its event; otherwise it drops the telegram.\<close>

definition ignores :: "(u32 \<Rightarrow> u32 \<Rightarrow> ptr \<Rightarrow> call) \<Rightarrow> MessageType \<Rightarrow> bool" where
  "ignores My_ReceiveSpdu t \<longleftrightarrow>
     (\<forall>p n lib pdu w. deserialize_pdu p (unat n) zero_pdu (wmem lib) = Inr (pdu, w) \<and> message_type pdu = message_code t \<longrightarrow>
        My_ReceiveSpdu 0 n p lib = Inr (OK, lib\<lparr>wmem := w\<rparr>))"

definition attends :: "(u32 \<Rightarrow> u32 \<Rightarrow> ptr \<Rightarrow> call) \<Rightarrow> bool" where
  "attends My_ReceiveSpdu \<longleftrightarrow> (\<forall>t. answers My_ReceiveSpdu t (event_for t) \<or> ignores My_ReceiveSpdu t)"

lemma callbacks_attend: "attends server_ReceiveSpdu" "attends client_ReceiveSpdu"
proof -
  have "answers server_ReceiveSpdu t (event_for t) \<or> ignores server_ReceiveSpdu t" for t
    using callbacks_answer by (cases t) (simp_all add: ignores_def server_ReceiveSpdu_def Let_def)
  then show "attends server_ReceiveSpdu" by (simp add: attends_def)
  have "answers client_ReceiveSpdu t (event_for t) \<or> ignores client_ReceiveSpdu t" for t
    using callbacks_answer by (cases t) (simp_all add: ignores_def client_ReceiveSpdu_def Let_def)
  then show "attends client_ReceiveSpdu" by (simp add: attends_def)
qed

lemma drop_at_rest:
  assumes lib: "at_rest lib sm" and tel: "telegram_of t content sm' b" and "ignores My_ReceiveSpdu t"
  shows "perform (receiver (\<lambda>_. My_ReceiveSpdu)) (Receive_request 0 b) lib = Inr (OK, holding 0 b lib)"
proof -
  let ?lib = "holding 0 b lib"
  obtain pdu where des: "deserialize_pdu (Ptr (Ext 0) 0) (length b) zero_pdu (wmem ?lib) = Inr (pdu, wmem ?lib)"
      and type: "message_type pdu = message_code t"
    by (rule telegram_held [OF tel])
  have "My_ReceiveSpdu 0 (word_of_nat (length b)) (Ptr (Ext 0) 0) ?lib = Inr (OK, ?lib\<lparr>wmem := wmem ?lib\<rparr>)"
    using assms(3) des type unfolding ignores_def by (simp add: telegram_length [OF tel])
  moreover have "ReceiveMsg (vtables (wmem ?lib) RassInstance) = Some (App_ReceiveMsg 0)"
    using at_rest_holding [OF lib, of 0 b] by (simp add: at_rest_def)
  ultimately show ?thesis by (simp add: Rass_ReceiveSpdu_def SafeCom_defs)
qed

section \<open>A process as a node of the network\<close>

text \<open>The application's receive callback, the library's state, and the messages handed to \<open>Rass_SendData\<close>.\<close>

record process =
  reply :: "u32 \<Rightarrow> u32 \<Rightarrow> ptr \<Rightarrow> call"
  plib :: lib
  asked :: "u8 list list"

abbreviation "calls p x \<equiv> perform (receiver (\<lambda>_. reply p)) x (plib p)"

definition handed :: "lib \<Rightarrow> lib \<Rightarrow> u8 list list" where
  "handed lib lib' = emitted (frame_of lib) (frame_of lib')"

text \<open>
  On its own account the application sends messages, closes, asks for the state, or finds that one
  of the two timers has elapsed and tells the state machine, as the tests do.
\<close>

inductive process_does :: "process \<Rightarrow> u8 list list \<Rightarrow> process \<Rightarrow> bool" where
  process_sends: "length m \<le> 22 \<Longrightarrow> calls p (Send_request 0 m) = Inr (r, lib') \<Longrightarrow>
    process_does p (handed (plib p) lib') (p\<lparr>plib := lib', asked := asked p @ [m]\<rparr>)"
| process_calls: "x \<in> {Close_request 0, State_request 0, Main_request} \<Longrightarrow> calls p x = Inr (r, lib') \<Longrightarrow>
    process_does p (handed (plib p) lib') (p\<lparr>plib := lib'\<rparr>)"
| process_timer: "event \<in> {EVENT_TH_ELAPSED, EVENT_TI_ELAPSED} \<Longrightarrow>
    handle_event_at 0 event zero_pdu (plib p) = Inr lib' \<Longrightarrow>
    process_does p (handed (plib p) lib') (p\<lparr>plib := lib'\<rparr>)"

text \<open>A telegram counts as accepted when the expected number moves on.\<close>

definition awaited :: "lib \<Rightarrow> u32" where
  "awaited lib = snr (self (frame_of lib))"

inductive process_hears :: "process \<Rightarrow> u8 list \<Rightarrow> bool \<Rightarrow> u8 list list \<Rightarrow> process \<Rightarrow> bool" where
  process_gets: "calls p (Receive_request 0 b) = Inr (r, lib') \<Longrightarrow>
    process_hears p b (awaited lib' \<noteq> awaited (plib p)) (handed (plib p) lib') (p\<lparr>plib := lib'\<rparr>)"

text \<open>A process whose connection has been established, and the numbers of its connection.\<close>

definition at_work :: "process \<Rightarrow> bool" where
  "at_work p \<longleftrightarrow> (\<exists>sm. at_rest (plib p) sm) \<and> talking (frame_of (plib p)) \<and> attends (reply p)"

definition process_connected :: "process \<Rightarrow> bool" where
  "process_connected p = connected (frame_of (plib p))"

definition process_last :: "process \<Rightarrow> u32" where
  "process_last p = last_number (frame_of (plib p))"

definition process_expects :: "process \<Rightarrow> u32" where
  "process_expects p = awaited (plib p)"

abbreviation process_speaks :: "process \<Rightarrow> u8 list list \<Rightarrow> process \<Rightarrow> bool" where
  "process_speaks \<equiv> sends_next process_connected process_last bears_number disconnects"

lemma frame_views [simp]:
  "talking (c\<lparr>pdu_of := q\<rparr>) = talking c" "connected (c\<lparr>pdu_of := q\<rparr>) = connected c"
  "last_number (c\<lparr>pdu_of := q\<rparr>) = last_number c" "emitted c (c'\<lparr>pdu_of := q\<rparr>) = emitted c c'"
  by (simp_all add: talking_def able_pdu connected_def last_number_def emitted_def)

lemma process_speaks_iff:
  "plib p' = put (self c') (mem c') lib \<Longrightarrow>
   process_speaks p out p' \<longleftrightarrow> speaks (frame_of (plib p)) out c'"
  by (simp add: sends_next_def process_connected_def process_last_def frame_of_put)

text \<open>A step of the connection, seen from the process.\<close>

lemma at_work_stepped:
  assumes rest: "at_rest (plib p) sm" and "attends (reply p)" and step: "follows a (App_SendSpdu 0) c0 c'"
    and "vtables (mem c0) = vtables (wmem (plib p))" and "talking c'"
  shows "at_work (p\<lparr>plib := put (self c') (mem c') (plib p), asked := ms\<rparr>)"
proof -
  have "vtables (mem c') = vtables (wmem (plib p))"
    using followsD(3) [OF step] assms(4) by (simp add: same_environment_def)
  from at_rest_put [OF rest followsD(1,2) [OF step] this] assms(2,5) show ?thesis
    by (auto simp: at_work_def frame_of_put)
qed

lemma handed_put [simp]: "handed lib (put (self c') (mem c') lib) = emitted (frame_of lib) c'"
  by (simp add: handed_def frame_of_put)

lemma awaited_put [simp]: "awaited (put (self c') (mem c') lib) = snr (self c')" for c' :: frame
  by (simp add: awaited_def frame_of_put)

text \<open>What a step of a process keeps, says and leaves of the numbers; \<open>m\<close> is what it was asked to send.\<close>

definition lawful :: "process \<Rightarrow> u8 list list \<Rightarrow> u8 list list \<Rightarrow> process \<Rightarrow> bool" where
  "lawful p out ms p' \<longleftrightarrow> at_work p' \<and> process_speaks p out p' \<and> reply p' = reply p \<and> asked p' = asked p @ ms \<and>
     messages out = (if process_connected p then ms else [])"

lemma event_lawful:
  assumes p: "at_work p" and ev: "event \<in> {EVENT_TH_ELAPSED, EVENT_CLOSE_CONN, EVENT_TI_ELAPSED}"
    and handled: "handle_event_at 0 event zero_pdu (plib p) = Inr lib'"
  shows "lawful p (handed (plib p) lib') [] (p\<lparr>plib := lib'\<rparr>) \<and> awaited lib' = awaited (plib p)"
proof -
  let ?c = "frame_of (plib p)"
  obtain sm where rest: "at_rest (plib p) sm" and talks: "talking ?c" and app: "attends (reply p)"
    using p by (auto simp: at_work_def)
  note able = at_rest_frame [OF rest]
  obtain c' where c': "Sm_HandleEvent event ?c = Inr c'" "lib' = put (self c') (mem c') (plib p)"
    using handled by (auto simp: event_at_connection [OF rest] elim!: bindE_InrE)
  have t: "talking c'" "speaks ?c (emitted ?c c') c'" "snr (self c') = snr (self ?c)"
    using event_talks [OF talks ev] c'(1) able(4) by simp_all
  have op: "operational (App_SendSpdu 0) ?c" "consistent (self ?c)" using able(1,4) by (simp_all add: able_def)
  have adm: "admissible event ?c" using ev by (auto simp: admissible_def)
  have step: "follows (planned ?c event) (App_SendSpdu 0) ?c c'" by (rule event_result [OF op adm c'(1)])
  have "messages (emitted ?c c') = []"
    by (rule no_message [OF step]) (use ev plans_forward in auto)
  moreover have "at_work (p\<lparr>plib := put (self c') (mem c') (plib p), asked := asked p\<rparr>)"
    by (rule at_work_stepped [OF rest app step _ t(1)]) (simp add: frame_of_def)
  ultimately show ?thesis
    using t(2,3) by (simp add: lawful_def process_speaks_iff c'(2) awaited_def [of "plib p"])
qed

lemma send_lawful:
  assumes p: "at_work p" and fits: "length m \<le> 22" and sent: "calls p (Send_request 0 m) = Inr (r, lib')"
  shows "lawful p (handed (plib p) lib') [m] (p\<lparr>plib := lib', asked := asked p @ [m]\<rparr>) \<and> awaited lib' = awaited (plib p)"
proof -
  let ?c = "frame_of (plib p)"
  obtain sm where rest: "at_rest (plib p) sm" and talks: "talking ?c" and app: "attends (reply p)"
    using p by (auto simp: at_work_def)
  obtain c1 c' where s: "send_data m ?c = Inr c'" "self c1 = counted True (self ?c)" "sent (mem c1) = sent (mem ?c)"
      "vtables (mem c1) = vtables (mem ?c)" "follows (planned c1 EVENT_SEND_DATA) (App_SendSpdu 0) c1 c'"
      "telegram_of DATA m (self c1) (telegram (mem c1) (pdu_of c1))"
    by (rule send_returns [OF at_rest_frame(1) [OF rest] fits])
  have lib': "lib' = put (self c') (mem c') (plib p)"
    using sent unfolding send_at_connection [OF rest fits] s(1) by simp
  have t: "talking c'" "speaks ?c (emitted ?c c') c'" "snr (self c') = snr (self ?c)"
    using send_talks [OF talks s(1)] by simp_all
  have state: "sm_state (self c1) = sm_state (self ?c)" using s(2) by (simp add: counted_def)
  have "messages (emitted ?c c') = (if connected ?c then [m] else [])"
  proof (cases "connected ?c")
    case True
    then have "planned c1 EVENT_SEND_DATA = Forward"
      using talks state by (auto simp: plan_event_def connected_def talking_def)
    then have "emitted ?c c' = [telegram (mem c1) (pdu_of c1)]"
      using followsD(8) [OF s(5)] s(3) by (simp add: emitted_def)
    then show ?thesis using True message_in_telegram [OF s(6)] by simp
  next
    case False
    then have "planned c1 EVENT_SEND_DATA = Ignore" using state by (simp add: plan_event_def connected_def)
    then show ?thesis using False no_message [OF s(5) _ s(3)] by simp
  qed
  moreover have "at_work (p\<lparr>plib := put (self c') (mem c') (plib p), asked := asked p @ [m]\<rparr>)"
    by (rule at_work_stepped [OF rest app s(5) _ t(1)]) (simp add: s(4) frame_of_def)
  ultimately show ?thesis
    using t(2,3) by (simp add: lawful_def process_speaks_iff lib' process_connected_def awaited_def [of "plib p"])
qed

lemma receive_lawful:
  assumes p: "at_work p" and tel: "telegram_of t content sm' b"
    and t: "t \<in> {HEARTBEAT, DATA, RETRANSMISSION_REQUEST, DISCONNECTION_REQUEST}"
  obtains lib' where "calls p (Receive_request 0 b) = Inr (OK, lib')"
    and "lawful p (handed (plib p) lib') [] (p\<lparr>plib := lib'\<rparr>)"
    and "awaited lib' \<noteq> awaited (plib p) \<longrightarrow>
      awaited lib' = awaited (plib p) + 1 \<and> t \<in> {HEARTBEAT, DATA} \<and> snt sm' = awaited (plib p)"
proof -
  let ?c = "frame_of (plib p)"
  obtain sm where rest: "at_rest (plib p) sm" and talks: "talking ?c" and app: "attends (reply p)"
    using p by (auto simp: at_work_def)
  have "answers (reply p) t (event_for t) \<or> ignores (reply p) t" using app by (simp add: attends_def)
  then show thesis
  proof
    assume answers: "answers (reply p) t (event_for t)"
    have no: "t \<in> {CONNECTION_REQUEST, CONNECTION_RESPONSE} \<Longrightarrow> 4 \<le> length content" using t by auto
    obtain c0 c' where r: "receive_spdu b ?c = Inr c'" "follows (planned c0 (event_for t)) (App_SendSpdu 0) c0 c'"
        "self c0 = self ?c" "sent (mem c0) = sent (mem ?c)"
      by (rule receive_telegram [OF tel at_rest_frame(1) [OF rest] no])
    note got = deliver_at_rest [OF rest tel answers no r(1)]
    have t': "talking c'" "speaks ?c (emitted ?c c') c'"
        "snr (self c') = (if sm_state (self c') = STATE_UP then snr (self ?c) + 1 else snr (self ?c))"
        "sm_state (self c') = STATE_UP \<longrightarrow> t \<in> {HEARTBEAT, DATA} \<and> snt sm' = snr (self ?c)"
      using receive_talks [OF talks tel t] r(1) by auto
    have "messages (emitted ?c c') = []"
      by (rule no_message [OF r(2) _ r(4)]) (use t in \<open>auto dest: plans_forward\<close>)
    moreover have "at_work (p\<lparr>plib := put (self c') (mem c') (plib p), asked := asked p\<rparr>)"
      using got(2) app t'(1) by (auto simp: at_work_def frame_of_put)
    ultimately have "lawful p (handed (plib p) (put (self c') (mem c') (plib p))) [] (p\<lparr>plib := put (self c') (mem c') (plib p)\<rparr>)"
      using t'(2) by (simp add: lawful_def process_speaks_iff)
    then show thesis
      using that [OF got(1)] t'(3,4) by (simp add: awaited_def [of "plib p"] split: if_splits)
  next
    assume "ignores (reply p) t"
    note got = drop_at_rest [OF rest tel this]
    let ?lib = "holding 0 b (plib p)"
    have same: "frame_of ?lib = ?c\<lparr>mem := arrived b (mem ?c)\<rparr>" by (simp add: frame_of_def holding_def arrived_def)
    then have "emitted ?c (frame_of ?lib) = []" "awaited ?lib = awaited (plib p)"
      by (simp_all add: emitted_def awaited_def)
    moreover have "at_work (p\<lparr>plib := ?lib\<rparr>)"
      using at_rest_holding [OF rest, of 0 b] at_rest_frame(1) [OF at_rest_holding [OF rest, of 0 b]] talks app
      by (auto simp: at_work_def talking_def same)
    ultimately have "lawful p (handed (plib p) ?lib) [] (p\<lparr>plib := ?lib\<rparr>)" "awaited ?lib = awaited (plib p)"
      by (simp_all add: lawful_def handed_def sends_next_def process_connected_def process_last_def
          connected_def last_number_def same)
    then show thesis using that [OF got] by simp
  qed
qed

section \<open>The laws of a node\<close>

lemma process_does_lawful:
  assumes "process_does p out p'" and p: "at_work p"
  shows "\<exists>ms. lawful p out ms p' \<and> process_expects p' = process_expects p"
  using assms(1)
proof cases
  case (process_sends m r lib')
  then show ?thesis using send_lawful [OF p process_sends(3,4)] by (auto simp: process_expects_def)
next
  case (process_calls x r lib')
  show ?thesis
  proof (cases "x = Close_request 0")
    case True
    then have "handle_event_at 0 EVENT_CLOSE_CONN zero_pdu (plib p) = Inr lib'"
      using process_calls(4) by (auto simp: Rass_CloseConnection_def SafeCom_defs elim!: bindE_InrE)
    from event_lawful [OF p _ this] process_calls(1,2) show ?thesis by (auto simp: process_expects_def)
  next
    case False
    then have "lib' = plib p"
      using process_calls(3,4)
      by (auto simp: Rass_Main_def SafeCom_Main_def SafeCom_Main_Impl_def Rass_ConnectionStateRequest_def
          SafeCom_ConnectionStateRequest_def SafeCom_ConnectionStateRequest_Impl_def)
    then show ?thesis
      using p process_calls(1,2)
      by (intro exI [of _ "[]"])
        (simp add: lawful_def process_expects_def handed_def emitted_def sends_next_def)
  qed
next
  case (process_timer event lib')
  then show ?thesis using event_lawful [OF p _ process_timer(4)] by (auto simp: process_expects_def)
qed

lemma process_hears_lawful:
  assumes "process_hears p b acc out p'" and p: "at_work p"
    and tel: "telegram_of t content sm b" "t \<in> {HEARTBEAT, DATA, RETRANSMISSION_REQUEST, DISCONNECTION_REQUEST}"
  shows "lawful p out [] p'" and "process_expects p' = (if acc then process_expects p + 1 else process_expects p)"
    and "acc \<longrightarrow> t \<in> {HEARTBEAT, DATA} \<and> snt sm = process_expects p"
proof -
  obtain r lib' where h: "calls p (Receive_request 0 b) = Inr (r, lib')" "acc = (awaited lib' \<noteq> awaited (plib p))"
      "out = handed (plib p) lib'" "p' = p\<lparr>plib := lib'\<rparr>"
    using assms(1) by cases (rule that)
  obtain lib1 where "calls p (Receive_request 0 b) = Inr (OK, lib1)" "lawful p (handed (plib p) lib1) [] (p\<lparr>plib := lib1\<rparr>)"
      "awaited lib1 \<noteq> awaited (plib p) \<longrightarrow>
        awaited lib1 = awaited (plib p) + 1 \<and> t \<in> {HEARTBEAT, DATA} \<and> snt sm = awaited (plib p)"
    by (rule receive_lawful [OF p tel])
  with h show "lawful p out [] p'" "process_expects p' = (if acc then process_expects p + 1 else process_expects p)"
    "acc \<longrightarrow> t \<in> {HEARTBEAT, DATA} \<and> snt sm = process_expects p"
    by (auto simp: process_expects_def)
qed

interpretation running: sequenced_node at_work process_connected process_last process_expects bears_number disconnects
  process_does process_hears
proof unfold_locales
  fix p out p'
  assume "at_work p" and "process_does p out p'"
  from process_does_lawful [OF this(2,1)]
  show "at_work p' \<and> process_expects p' = process_expects p \<and> process_speaks p out p'" by (auto simp: lawful_def)
next
  fix p b acc out p' n
  assume h: "at_work p" "process_hears p b acc out p'" and "bears_number n b \<or> disconnects b"
  from this(3) obtain t content sm where "telegram_of t content sm b"
      "t \<in> {HEARTBEAT, DATA, RETRANSMISSION_REQUEST, DISCONNECTION_REQUEST}" by (rule sent_telegram)
  from process_hears_lawful(1,2) [OF h(2,1) this]
  show "at_work p' \<and> process_speaks p out p' \<and>
      process_expects p' = (if acc then process_expects p + 1 else process_expects p)" by (simp add: lawful_def)
next
  fix p b out p' n
  assume h: "at_work p" "process_hears p b True out p'"
  have "n = process_expects p" if "bears_number n b"
    using that process_hears_lawful(3) [OF h(2,1)] unfolding bears_number_def by blast
  moreover have "\<not> disconnects b"
  proof
    assume "disconnects b"
    then obtain content sm where "telegram_of DISCONNECTION_REQUEST content sm b" by (auto simp: disconnects_def)
    from process_hears_lawful(3) [OF h(2,1) this] show False by simp
  qed
  ultimately show "(bears_number n b \<longrightarrow> n = process_expects p) \<and> \<not> disconnects b" by simp
next
  fix p b n
  assume p: "at_work p" and "bears_number n b \<or> disconnects b"
  from this(2) obtain t content sm where "telegram_of t content sm b"
      "t \<in> {HEARTBEAT, DATA, RETRANSMISSION_REQUEST, DISCONNECTION_REQUEST}" by (rule sent_telegram)
  then obtain lib' where "calls p (Receive_request 0 b) = Inr (OK, lib')" by (rule receive_lawful [OF p])
  then show "\<exists>acc out p'. process_hears p b acc out p'" using process_gets by blast
qed

section \<open>Messages from end to end\<close>

text \<open>The messages on the wire are those the process was asked to send, up to the closing of its connection.\<close>

definition conveys :: "process \<Rightarrow> u8 list list \<Rightarrow> bool" where
  "conveys p bs \<longleftrightarrow> prefix (messages bs) (asked p) \<and> (process_connected p \<longrightarrow> messages bs = asked p)"

lemma conveys_step:
  assumes "conveys p bs" and step: "lawful p out ms p'"
  shows "conveys p' (bs @ out)"
proof (cases "process_connected p")
  case True
  then show ?thesis using assms by (simp add: conveys_def lawful_def)
next
  case False
  then have "\<not> process_connected p'" using step by (auto simp: lawful_def sends_next_def)
  then show ?thesis using assms False by (auto simp: conveys_def lawful_def)
qed

text \<open>Along a run the numbers stay in order, each side carries its messages and keeps its callback.\<close>

definition delivering :: "(side \<Rightarrow> u32) \<Rightarrow> (side \<Rightarrow> u32 \<Rightarrow> u32 \<Rightarrow> ptr \<Rightarrow> call) \<Rightarrow> (process, u8 list) net \<Rightarrow> bool" where
  "delivering base app n \<longleftrightarrow> running.sequenced base n \<and> (\<forall>i. conveys (peer n i) (wire n i) \<and> reply (peer n i) = app i)"

lemma delivering_stepped:
  assumes "delivering base app n" and "running.sequenced base (stepped i p' out got n)" and "lawful (peer n i) out ms p'"
  shows "delivering base app (stepped i p' out got n)"
  using assms conveys_step [OF _ assms(3)] by (auto simp: delivering_def lawful_def)

lemma delivering_step:
  assumes step: "net_step process_does process_hears n n'" and n: "delivering base app n"
  shows "delivering base app n'"
proof -
  have seq: "running.sequenced base n" using n by (simp add: delivering_def)
  note seq' = running.sequenced_net_step [OF step seq]
  from step show ?thesis
  proof cases
    case (net_act i out p')
    obtain ms where "lawful (peer n i) out ms p'"
      using process_does_lawful [OF net_act(2) running.sequencedD(1) [OF seq]] by blast
    from delivering_stepped [OF n seq' [unfolded net_act(1)] this] show ?thesis by (simp add: net_act(1))
  next
    case (net_get b i acc out p')
    have "(\<exists>k. bears_number k b) \<or> disconnects b"
      by (rule running.spoken_member [OF running.sequencedD(2) [OF seq] net_get(2)])
    then obtain k where "bears_number k b \<or> disconnects b" by blast
    then obtain t content sm where tel: "telegram_of t content sm b"
        "t \<in> {HEARTBEAT, DATA, RETRANSMISSION_REQUEST, DISCONNECTION_REQUEST}" by (rule sent_telegram)
    have "lawful (peer n i) out [] p'"
      by (rule process_hears_lawful(1) [OF net_get(3) running.sequencedD(1) [OF seq] tel])
    from delivering_stepped [OF n seq' [unfolded net_get(1)] this] show ?thesis by (simp add: net_get(1))
  qed
qed

lemma delivering_steps:
  "(net_step process_does process_hears)\<^sup>*\<^sup>* n n' \<Longrightarrow> delivering base app n \<Longrightarrow> delivering base app n'"
  by (induction rule: rtranclp_induct) (auto intro: delivering_step)

lemma delivering_result:
  assumes n: "delivering base app n"
  shows "length (wire n (other i)) < 2 ^ 32 \<Longrightarrow> prefix (messages (taken n i)) (asked (peer n (other i)))"
    and "b \<in> set (wire n (other i)) \<Longrightarrow> \<exists>lib'. calls (peer n i) (Receive_request 0 b) = Inr (OK, lib')"
proof -
  assume few: "length (wire n (other i)) < 2 ^ 32"
  have seq: "running.sequenced base n" using n by (simp add: delivering_def)
  have "prefix (messages (taken n i)) (messages (wire n (other i)))"
    using messages_prefix running.sequencedD(3) [OF seq few] by blast
  moreover have "prefix (messages (wire n (other i))) (asked (peer n (other i)))"
    using n by (simp add: delivering_def conveys_def)
  ultimately show "prefix (messages (taken n i)) (asked (peer n (other i)))" by (rule prefix_order.trans)
next
  assume b: "b \<in> set (wire n (other i))"
  have seq: "running.sequenced base n" using n by (simp add: delivering_def)
  have "(\<exists>k. bears_number k b) \<or> disconnects b"
    by (rule running.spoken_member [OF running.sequencedD(2) [OF seq] b])
  then obtain k where "bears_number k b \<or> disconnects b" by blast
  then obtain t content sm where "telegram_of t content sm b"
      "t \<in> {HEARTBEAT, DATA, RETRANSMISSION_REQUEST, DISCONNECTION_REQUEST}" by (rule sent_telegram)
  then obtain lib' where "calls (peer n i) (Receive_request 0 b) = Inr (OK, lib')"
    by (rule receive_lawful [OF running.sequencedD(1) [OF seq]])
  then show "\<exists>lib'. calls (peer n i) (Receive_request 0 b) = Inr (OK, lib')" by blast
qed

section \<open>One message that arrives\<close>

text \<open>An application that attends to every type.\<close>

definition attentive_ReceiveSpdu :: "u32 \<Rightarrow> u32 \<Rightarrow> ptr \<Rightarrow> call" where
  "attentive_ReceiveSpdu msgId msgLen p lib =
     bindE (deserialize_pdu p (unat msgLen) zero_pdu (wmem lib)) (\<lambda>(pdu, w).
     bindE (case event_of (message_type pdu) of None \<Rightarrow> Inr (lib\<lparr>wmem := w\<rparr>)
       | Some event \<Rightarrow> handle_event_at msgId event pdu (lib\<lparr>wmem := w\<rparr>)) (\<lambda>lib. Inr (OK, lib)))"

lemma attentive_answers: "answers attentive_ReceiveSpdu t (event_for t)"
  by (simp add: answers_def attentive_ReceiveSpdu_def)

lemma one_message:
  assumes rest: "at_rest x sm_x" "at_rest y sm_y" and up: "sm_state (self (frame_of x)) = STATE_UP" "sm_state (self (frame_of y)) = STATE_UP"
    and next_up: "awaited y = snt (self (frame_of x)) + 1" "ctsr (self (frame_of y)) = ctsr (self (frame_of x))"
      "0 < Tmax (timeouts (sm_time (self (frame_of y))))"
    and fits: "length m \<le> 22" and app: "answers sapp DATA EVENT_RECV_DATA"
  shows "\<exists>d e b sm_x' sm_y' payload. send_data m (frame_of x) = Inr d \<and> receive_spdu b (frame_of y) = Inr e \<and>
    perform (receiver (\<lambda>_. capp)) (Send_request 0 m) x = Inr (OK, put (self d) (mem d) x) \<and>
    perform (receiver (\<lambda>_. sapp)) (Receive_request 0 b) y = Inr (OK, put (self e) (mem e) y) \<and>
    handed x (put (self d) (mem d) x) = [b] \<and> last_sent (put (self d) (mem d) x) = b \<and> messages [b] = [m] \<and>
    handed y (put (self e) (mem e) y) = [] \<and> telegram_of DATA payload (self d) b \<and>
    stays_up (App_SendSpdu 0) 1 0 (frame_of x) d \<and> stays_up (App_SendSpdu 0) 0 1 (frame_of y) e \<and>
    at_rest (put (self d) (mem d) x) sm_x' \<and> at_rest (put (self e) (mem e) y) sm_y'"
proof -
  note able = at_rest_frame(1) [OF rest(1)] at_rest_frame(1) [OF rest(2)]
  obtain c1 d where sent: "send_data m (frame_of x) = Inr d"
    by (rule send_returns [OF able(1) fits])
  obtain b payload where d: "stays_up (App_SendSpdu 0) 1 0 (frame_of x) d" "emitted (frame_of x) d = [b]"
      "telegram_of DATA payload (self d) b"
    by (rule send_up [OF able(1) up(1) sent])
  have call: "perform app (Send_request 0 m) x = Inr (OK, put (self d) (mem d) x)" for app
    unfolding send_at_connection [OF rest(1) fits] sent by simp
  define p where "p = \<lparr>reply = attentive_ReceiveSpdu, plib = x, asked = []\<rparr>"
  have "at_work p"
    using rest(1) able(1) up(1) attentive_answers by (auto simp: p_def at_work_def talking_def attends_def)
  from send_lawful [OF this fits, of OK "put (self d) (mem d) x"] call
  have law: "lawful p (handed x (put (self d) (mem d) x)) [m] (p\<lparr>plib := put (self d) (mem d) x, asked := asked p @ [m]\<rparr>)"
    by (simp add: p_def del: perform.simps)
  have "handed x (put (self d) (mem d) x) = [b]" "last_sent (put (self d) (mem d) x) = b"
    using d(2) by (simp_all add: last_sent_put)
  moreover from this law have "messages [b] = [m]"
    using up(1) by (simp add: lawful_def p_def process_connected_def connected_def)
  moreover obtain sm_x' where "at_rest (put (self d) (mem d) x) sm_x'"
    using law by (auto simp: lawful_def at_work_def)
  moreover have num: "snt (self d) = snr (self (frame_of y))" "ctsr (self d) = ctsr (self (frame_of y))"
    using d(1) next_up(1,2) by (simp_all add: stays_up_def awaited_def)
  obtain e where e: "receive_spdu b (frame_of y) = Inr e" "stays_up (App_SendSpdu 0) 0 1 (frame_of y) e" "emitted (frame_of y) e = []"
    by (rule receive_up [OF able(2) up(2) d(3) _ num next_up(3)]) simp_all
  have app': "answers sapp DATA (event_for DATA)" using app by simp
  note got = deliver_at_rest [OF rest(2) d(3) app' _ e(1)]
  have "perform (receiver (\<lambda>_. sapp)) (Receive_request 0 b) y = Inr (OK, put (self e) (mem e) y)"
      "at_rest (put (self e) (mem e) y) (self e)"
    using got by blast+
  moreover have "handed y (put (self e) (mem e) y) = []" using e(3) by simp
  ultimately show ?thesis using sent call d(1,3) e(1,2) by blast
qed

section \<open>Properties\<close>

text \<open>Two processes whose connection has just been established, before anything more is sent.\<close>

definition joined :: "(u32 \<Rightarrow> u32 \<Rightarrow> ptr \<Rightarrow> call) \<Rightarrow> lib \<Rightarrow> (u32 \<Rightarrow> u32 \<Rightarrow> ptr \<Rightarrow> call) \<Rightarrow> lib \<Rightarrow> (process, u8 list) net" where
  "joined capp c sapp s = \<lparr>peer = (\<lambda>i. case i of Client \<Rightarrow> \<lparr>reply = capp, plib = c, asked = []\<rparr>
     | Server \<Rightarrow> \<lparr>reply = sapp, plib = s, asked = []\<rparr>), wire = (\<lambda>_. []), taken = (\<lambda>_. [])\<rparr>"

lemma joined_delivering:
  assumes "at_rest c sm_c" and "at_rest s sm_s" and step: "in_step f ts (quiet (frame_of c) (frame_of s))"
    and "attends capp" and "attends sapp"
  shows "delivering (\<lambda>i. process_last (peer (joined capp c sapp s) i) + 1) (case_side capp sapp) (joined capp c sapp s)"
proof -
  let ?n = "joined capp c sapp s"
  have frames: "frame_of (plib (peer ?n i)) = endp (quiet (frame_of c) (frame_of s)) i" for i
    by (cases i) (simp_all add: joined_def)
  have "at_work (peer ?n i)" for i
    using in_stepD(1,2) [OF step, of i] assms(1,2,4,5)
    by (cases i) (auto simp: at_work_def talking_def joined_def)
  moreover have "process_expects (peer ?n i) = process_last (peer ?n (other i)) + 1" for i
    using in_stepD(5) [OF step, of i]
    by (simp add: process_expects_def awaited_def process_last_def last_number_def frames)
  moreover have "wire ?n i = []" "taken ?n i = []" for i by (simp_all add: joined_def)
  ultimately have "running.sequenced (\<lambda>i. process_last (peer ?n i) + 1) ?n"
    using running.sequenced_start [of ?n] by blast
  moreover have "conveys (peer ?n i) (wire ?n i)" "reply (peer ?n i) = case_side capp sapp i" for i
    by (cases i; simp add: joined_def conveys_def)+
  ultimately show ?thesis by (simp add: delivering_def)
qed

text \<open>
  C3. Messages from end to end: two processes are initialised, opened and connected through the
  interface; then they send messages with \<open>Rass_SendData\<close>, close, and let their timers elapse, in
  any order, while the network between \<open>SendSpdu\<close> and \<open>Rass_ReceiveSpdu\<close> loses, repeats, delays and
  reorders what it carries. At any time the messages one process has accepted are, in order and
  without gaps or repetitions, an initial part of the messages that the other was asked to send,
  for fewer than \<open>2 ^ 32\<close> telegrams; and each telegram under way can be received without a fault.
  The receive callback of each side may be any that raises the event of a telegram or drops it.
\<close>

theorem messages_arrive_in_order:
  assumes "wf_world wc" and "wf_world ws" and "attends capp" and "attends sapp"
    and "answers capp CONNECTION_RESPONSE EVENT_RECV_CONN_RESP"
    and "answers sapp CONNECTION_REQUEST EVENT_RECV_CONN_REQ" and "answers sapp HEARTBEAT EVENT_RECV_HB"
  shows "\<exists>c1 s1 s2 c2 s3. started setup_rass_client_init (test_process wc) = Inr c1 \<and>
    started setup_rass_server_init (test_process ws) = Inr s1 \<and>
    perform (receiver (\<lambda>_. sapp)) (Receive_request 0 (last_sent c1)) s1 = Inr (OK, s2) \<and>
    perform (receiver (\<lambda>_. capp)) (Receive_request 0 (last_sent s2)) c1 = Inr (OK, c2) \<and>
    perform (receiver (\<lambda>_. sapp)) (Receive_request 0 (last_sent c2)) s2 = Inr (OK, s3) \<and>
    (\<forall>n i. (net_step process_does process_hears)\<^sup>*\<^sup>* (joined capp c2 sapp s3) n \<longrightarrow>
      (length (wire n (other i)) < 2 ^ 32 \<longrightarrow> prefix (messages (taken n i)) (asked (peer n (other i)))) \<and>
      (\<forall>b \<in> set (wire n (other i)). \<exists>lib'. calls (peer n i) (Receive_request 0 b) = Inr (OK, lib')))"
proof -
  obtain c1 s1 s2 c2 s3 ts sm_c sm_s where c: "started setup_rass_client_init (test_process wc) = Inr c1"
      "started setup_rass_server_init (test_process ws) = Inr s1"
      "perform (receiver (\<lambda>_. sapp)) (Receive_request 0 (last_sent c1)) s1 = Inr (OK, s2)"
      "perform (receiver (\<lambda>_. capp)) (Receive_request 0 (last_sent s2)) c1 = Inr (OK, c2)"
      "perform (receiver (\<lambda>_. sapp)) (Receive_request 0 (last_sent c2)) s2 = Inr (OK, s3)"
    and up: "at_rest c2 sm_c" "at_rest s3 sm_s" "in_step (\<lambda>_. App_SendSpdu 0) ts (quiet (frame_of c2) (frame_of s3))"
    using connect_steps [OF assms(1,2), of capp sapp] assms(5-7) by (simp only: event_for.simps) blast
  note start = joined_delivering [OF up assms(3,4)]
  have "(length (wire n (other i)) < 2 ^ 32 \<longrightarrow> prefix (messages (taken n i)) (asked (peer n (other i)))) \<and>
      (\<forall>b \<in> set (wire n (other i)). \<exists>lib'. calls (peer n i) (Receive_request 0 b) = Inr (OK, lib'))"
    if "(net_step process_does process_hears)\<^sup>*\<^sup>* (joined capp c2 sapp s3) n" for n i
    using delivering_result [OF delivering_steps [OF that start]] by blast
  with c show ?thesis by blast
qed

text \<open>A run in which one message arrives.\<close>

lemma message_arrives:
  assumes rest: "at_rest c sm_c" "at_rest s sm_s" and step: "in_step (\<lambda>_. App_SendSpdu 0) ts (quiet (frame_of c) (frame_of s))"
    and fits: "length m \<le> 22"
  shows "\<exists>n. (net_step process_does process_hears)\<^sup>*\<^sup>* (joined attentive_ReceiveSpdu c attentive_ReceiveSpdu s) n \<and>
    messages (taken n Server) = [m] \<and> asked (peer n Client) = [m] \<and> length (wire n Client) = 1"
proof -
  let ?n0 = "joined attentive_ReceiveSpdu c attentive_ReceiveSpdu s"
  let ?p = "peer ?n0 Client" and ?q = "peer ?n0 Server"
  have at: "plib ?p = c" "plib ?q = s" "asked ?p = []" "reply ?p = attentive_ReceiveSpdu" "reply ?q = attentive_ReceiveSpdu"
      "taken ?n0 Server = []" "wire ?n0 Client = []"
    by (simp_all add: joined_def)
  have up: "sm_state (self (frame_of c)) = STATE_UP" "sm_state (self (frame_of s)) = STATE_UP"
      "awaited s = snt (self (frame_of c)) + 1" "ctsr (self (frame_of s)) = ctsr (self (frame_of c))"
      "0 < Tmax (timeouts (sm_time (self (frame_of s))))"
    using step by (simp_all add: in_step_quiet awaited_def)
  have app: "answers attentive_ReceiveSpdu DATA EVENT_RECV_DATA" using attentive_answers [of DATA] by simp
  obtain d e :: frame and b where m: "calls ?p (Send_request 0 m) = Inr (OK, put (self d) (mem d) c)"
      "calls ?q (Receive_request 0 b) = Inr (OK, put (self e) (mem e) s)" "handed c (put (self d) (mem d) c) = [b]"
      "messages [b] = [m]" "stays_up (App_SendSpdu 0) 0 1 (frame_of s) e"
    using one_message [OF rest up fits app, of attentive_ReceiveSpdu] unfolding at by blast
  define n1 where "n1 = stepped Client (?p\<lparr>plib := put (self d) (mem d) c, asked := [m]\<rparr>) [b] [] ?n0"
  have "process_does ?p [b] (?p\<lparr>plib := put (self d) (mem d) c, asked := [m]\<rparr>)"
    using process_sends [OF fits m(1)] by (simp only: at m(3) append_Nil)
  then have step1: "net_step process_does process_hears ?n0 n1" unfolding n1_def by (rule net_act)
  define s' where "s' = put (self e) (mem e) s"
  have "process_hears ?q b (awaited s' \<noteq> awaited s) (handed s s') (?q\<lparr>plib := s'\<rparr>)"
    using process_gets [OF m(2)] by (simp only: at s'_def)
  moreover have "awaited s' \<noteq> awaited s" using m(5) by (simp add: s'_def stays_up_def awaited_def [of s])
  ultimately have hears: "process_hears ?q b True (handed s s') (?q\<lparr>plib := s'\<rparr>)" by simp
  define n2 where "n2 = stepped Server (?q\<lparr>plib := s'\<rparr>) (handed s s') [b] n1"
  have n1: "b \<in> set (wire n1 (other Server))" "peer n1 Server = ?q" "taken n1 Server = []"
    by (simp_all add: n1_def at)
  have "net_step process_does process_hears n1 n2"
    using net_get [OF n1(1), of process_hears True "handed s s'" "?q\<lparr>plib := s'\<rparr>" process_does] hears
    by (simp add: n1(2) n2_def)
  with step1 have "(net_step process_does process_hears)\<^sup>*\<^sup>* ?n0 n2" by simp
  moreover have "messages (taken n2 Server) = [m]" "asked (peer n2 Client) = [m]" "length (wire n2 Client) = 1"
    using m(4) by (simp_all add: n2_def n1(3) n1_def at)
  ultimately show ?thesis by blast
qed

theorem messages_arrive_in_order_witness:
  "\<exists>c2 s3 n. (net_step process_does process_hears)\<^sup>*\<^sup>* (joined attentive_ReceiveSpdu c2 attentive_ReceiveSpdu s3) n \<and>
    messages (taken n Server) = [[1, 2, 3]] \<and> prefix [[1, 2, 3]] (asked (peer n Client))"
proof -
  have wf: "wf_world sample_world" by (simp add: sample_world_def)
  have app: "attends attentive_ReceiveSpdu" using attentive_answers by (simp add: attends_def)
  have ans: "answers attentive_ReceiveSpdu CONNECTION_RESPONSE EVENT_RECV_CONN_RESP"
      "answers attentive_ReceiveSpdu CONNECTION_REQUEST EVENT_RECV_CONN_REQ" "answers attentive_ReceiveSpdu HEARTBEAT EVENT_RECV_HB"
    using attentive_answers [of CONNECTION_RESPONSE] attentive_answers [of CONNECTION_REQUEST] attentive_answers [of HEARTBEAT]
    by simp_all
  obtain c1 s1 s2 c2 s3 where a: "started setup_rass_client_init (test_process sample_world) = Inr c1"
      "started setup_rass_server_init (test_process sample_world) = Inr s1"
      "perform (receiver (\<lambda>_. attentive_ReceiveSpdu)) (Receive_request 0 (last_sent c1)) s1 = Inr (OK, s2)"
      "perform (receiver (\<lambda>_. attentive_ReceiveSpdu)) (Receive_request 0 (last_sent s2)) c1 = Inr (OK, c2)"
      "perform (receiver (\<lambda>_. attentive_ReceiveSpdu)) (Receive_request 0 (last_sent c2)) s2 = Inr (OK, s3)"
    and safe: "\<And>n i. (net_step process_does process_hears)\<^sup>*\<^sup>* (joined attentive_ReceiveSpdu c2 attentive_ReceiveSpdu s3) n \<Longrightarrow>
      length (wire n (other i)) < 2 ^ 32 \<Longrightarrow> prefix (messages (taken n i)) (asked (peer n (other i)))"
    using messages_arrive_in_order [OF wf wf app app ans] by blast
  obtain d1 t1 t2 d2 t3 ts sm_c sm_s where b: "started setup_rass_client_init (test_process sample_world) = Inr d1"
      "started setup_rass_server_init (test_process sample_world) = Inr t1"
      "perform (receiver (\<lambda>_. attentive_ReceiveSpdu)) (Receive_request 0 (last_sent d1)) t1 = Inr (OK, t2)"
      "perform (receiver (\<lambda>_. attentive_ReceiveSpdu)) (Receive_request 0 (last_sent t2)) d1 = Inr (OK, d2)"
      "perform (receiver (\<lambda>_. attentive_ReceiveSpdu)) (Receive_request 0 (last_sent d2)) t2 = Inr (OK, t3)"
    and up: "at_rest d2 sm_c" "at_rest t3 sm_s" "in_step (\<lambda>_. App_SendSpdu 0) ts (quiet (frame_of d2) (frame_of t3))"
    using connect_steps [OF wf wf, of attentive_ReceiveSpdu attentive_ReceiveSpdu] ans by (simp only: event_for.simps) blast
  have "d1 = c1" "t1 = s1" using a(1,2) b(1,2) by simp_all
  then have "t2 = s2" using a(3) b(3) by (simp del: perform.simps)
  then have "d2 = c2" using a(4) b(4) \<open>d1 = c1\<close> by (simp del: perform.simps)
  moreover from this have "t3 = s3" using a(5) b(5) \<open>t2 = s2\<close> by (simp del: perform.simps)
  ultimately have "at_rest c2 sm_c" "at_rest s3 sm_s" "in_step (\<lambda>_. App_SendSpdu 0) ts (quiet (frame_of c2) (frame_of s3))"
    using up by simp_all
  then obtain n where n: "(net_step process_does process_hears)\<^sup>*\<^sup>* (joined attentive_ReceiveSpdu c2 attentive_ReceiveSpdu s3) n"
      "messages (taken n Server) = [[1, 2, 3]]" "asked (peer n Client) = [[1, 2, 3]]" "length (wire n Client) = 1"
    using message_arrives [of c2 sm_c s3 sm_s ts "[1, 2, 3]"] by auto
  have "prefix (messages (taken n Server)) (asked (peer n Client))"
    using safe [OF n(1), of Server] n(4) by simp
  then have "prefix [[1, 2, 3]] (asked (peer n Client))" by (simp only: n(2))
  with n(1,2) show ?thesis by blast
qed

end
