(* ===== verification/Conversation.thy ===== *)
theory Conversation
  imports Delivery
begin

text \<open>
  Two connected processes on a network that loses nothing: messages of both sides, in any order,
  each carried over as soon as it was sent. Every one of them arrives.
\<close>

section \<open>Carrying messages over\<close>

text \<open>One side is asked to send; what it then hands to \<open>SendSpdu\<close> is received by the other side.\<close>

definition pass_on :: "(side \<Rightarrow> u32 \<Rightarrow> u32 \<Rightarrow> ptr \<Rightarrow> call) \<Rightarrow> side \<times> u8 list \<Rightarrow> (side \<Rightarrow> lib) \<Rightarrow> (side \<Rightarrow> lib) outcome" where
  "pass_on app = (\<lambda>(i, m) l.
     bindE (perform (receiver (\<lambda>_. app i)) (Send_request 0 m) (l i)) (\<lambda>(_, x).
     bindE (perform (receiver (\<lambda>_. app (other i))) (Receive_request 0 (last_sent x)) (l (other i))) (\<lambda>(_, y).
     Inr (l(i := x, other i := y)))))"

primrec pass_all :: "(side \<Rightarrow> u32 \<Rightarrow> u32 \<Rightarrow> ptr \<Rightarrow> call) \<Rightarrow> (side \<times> u8 list) list \<Rightarrow> (side \<Rightarrow> lib) \<Rightarrow> (side \<Rightarrow> lib) outcome" where
  "pass_all app [] l = Inr l"
| "pass_all app (x # xs) l = bindE (pass_on app x l) (pass_all app xs)"

definition of_side :: "side \<Rightarrow> (side \<times> u8 list) list \<Rightarrow> u8 list list" where
  "of_side i xs = map snd (filter (\<lambda>x. fst x = i) xs)"

lemma of_side_simps [simp]:
  "of_side i [] = []" "of_side i (x # xs) = (if fst x = i then snd x # of_side i xs else of_side i xs)"
  by (simp_all add: of_side_def)

text \<open>Both processes up, their numbers and time stamps in step.\<close>

definition in_touch :: "u32 \<Rightarrow> (side \<Rightarrow> lib) \<Rightarrow> bool" where
  "in_touch ts l \<longleftrightarrow> (\<forall>i. (\<exists>sm. at_rest (l i) sm) \<and> sm_state (self (frame_of (l i))) = STATE_UP \<and>
     ctsr (self (frame_of (l i))) = ts \<and> 0 < Tmax (timeouts (sm_time (self (frame_of (l i))))) \<and>
     awaited (l i) = snt (self (frame_of (l (other i)))) + 1)"

lemma in_touchD:
  assumes "in_touch ts l"
  shows "\<exists>sm. at_rest (l i) sm" and "sm_state (self (frame_of (l i))) = STATE_UP" and "ctsr (self (frame_of (l i))) = ts"
    and "0 < Tmax (timeouts (sm_time (self (frame_of (l i)))))" and "awaited (l i) = snt (self (frame_of (l (other i)))) + 1"
  using assms by (auto simp: in_touch_def)

lemma emitted_sent:
  assumes "\<exists>log. sent (mem c') = sent (mem c) @ log" and "\<exists>log. sent (mem c'') = sent (mem c') @ log"
  shows "emitted c c'' = emitted c c' @ emitted c' c''"
  using assms by (auto simp: emitted_def)

text \<open>The calls of \<open>SendSpdu\<close> only ever grow; \<open>handed\<close> between two points is what was added.\<close>

definition later :: "lib \<Rightarrow> lib \<Rightarrow> bool" where
  "later x y \<longleftrightarrow> (\<exists>log. sent (wmem y) = sent (wmem x) @ log)"

lemma later_trans: "later x y \<Longrightarrow> later y z \<Longrightarrow> later x z"
  by (auto simp: later_def)

lemma handed_later: "later x y \<Longrightarrow> later y z \<Longrightarrow> handed x z = handed x y @ handed y z"
  unfolding handed_def later_def by (rule emitted_sent) (simp_all add: frame_of_def)

lemma handed_refl [simp]: "handed x x = []" "later x x"
  by (simp_all add: handed_def emitted_def later_def)

lemma put_mem: "wmem (put sm w lib) = w"
  by (simp add: put_def)

lemma send_later:
  assumes "at_rest x sm" and "send_data m (frame_of x) = Inr d"
  shows "later x (put (self d) (mem d) x)"
proof -
  obtain c1 payload where "sent (mem c1) = sent (mem (frame_of x))"
      "follows (planned c1 EVENT_SEND_DATA) (App_SendSpdu 0) c1 d"
    by (rule send_frame [OF at_rest_frame(1) [OF assms(1)] assms(2)])
  with event_sent [OF this(2)] show ?thesis by (metis frame_of_def frame.select_convs(3) later_def put_mem)
qed

lemma receive_later:
  assumes "at_rest y sm" and "telegram_of DATA content sm0 b" and "receive_spdu b (frame_of y) = Inr e"
  shows "later y (put (self e) (mem e) y)"
proof -
  have no: "DATA \<in> {CONNECTION_REQUEST, CONNECTION_RESPONSE} \<Longrightarrow> 4 \<le> length content" by simp
  obtain c0 e' where "receive_spdu b (frame_of y) = Inr e'" "follows (planned c0 (event_for DATA)) (App_SendSpdu 0) c0 e'"
      "sent (mem c0) = sent (mem (frame_of y))"
    by (rule receive_telegram [OF assms(2) at_rest_frame(1) [OF assms(1)] no])
  with assms(3) event_sent [OF this(2)] show ?thesis
    by (metis frame_of_def frame.select_convs(3) later_def put_mem sum.inject(2))
qed

lemma in_touch_step:
  assumes l: "in_touch ts l" and fits: "length m \<le> 22" and app: "answers (app (other i)) DATA EVENT_RECV_DATA"
  shows "\<exists>l'. pass_on app (i, m) l = Inr l' \<and> in_touch ts l' \<and>
    awaited (l' (other i)) = awaited (l (other i)) + 1 \<and> awaited (l' i) = awaited (l i) \<and>
    (\<forall>j. later (l j) (l' j)) \<and> messages (handed (l i) (l' i)) = [m] \<and> messages (handed (l (other i)) (l' (other i))) = []"
proof -
  let ?x = "l i" and ?y = "l (other i)"
  note X = in_touchD [OF l, of i] and Y = in_touchD [OF l, of "other i"]
  obtain sm_x sm_y where rest: "at_rest ?x sm_x" "at_rest ?y sm_y" using X(1) Y(1) by blast
  have numbers: "awaited ?y = snt (self (frame_of ?x)) + 1" "ctsr (self (frame_of ?y)) = ctsr (self (frame_of ?x))"
    using Y(3,5) X(3) by simp_all
  obtain d e :: frame and b sm_x' sm_y' payload where m: "send_data m (frame_of ?x) = Inr d" "receive_spdu b (frame_of ?y) = Inr e"
      "perform (receiver (\<lambda>_. app i)) (Send_request 0 m) ?x = Inr (OK, put (self d) (mem d) ?x)"
      "perform (receiver (\<lambda>_. app (other i))) (Receive_request 0 b) ?y = Inr (OK, put (self e) (mem e) ?y)"
      "handed ?x (put (self d) (mem d) ?x) = [b]" "last_sent (put (self d) (mem d) ?x) = b" "messages [b] = [m]"
      "handed ?y (put (self e) (mem e) ?y) = []"
      "stays_up (App_SendSpdu 0) 1 0 (frame_of ?x) d" "stays_up (App_SendSpdu 0) 0 1 (frame_of ?y) e"
      "at_rest (put (self d) (mem d) ?x) sm_x'" "at_rest (put (self e) (mem e) ?y) sm_y'" "telegram_of DATA payload (self d) b"
    using one_message [OF rest X(2) Y(2) numbers Y(4) fits app, of "app i"] by blast
  let ?x' = "put (self d) (mem d) ?x" and ?y' = "put (self e) (mem e) ?y"
  let ?l = "l(i := ?x', other i := ?y')"
  have "pass_on app (i, m) l = Inr ?l"
    using m(3,4) by (simp add: pass_on_def m(6) del: perform.simps)
  moreover have "in_touch ts ?l"
    unfolding in_touch_def
  proof
    fix j
    consider "j = i" | "j = other i" using side_cases by blast
    then show "(\<exists>sm. at_rest (?l j) sm) \<and> sm_state (self (frame_of (?l j))) = STATE_UP \<and>
        ctsr (self (frame_of (?l j))) = ts \<and> 0 < Tmax (timeouts (sm_time (self (frame_of (?l j))))) \<and>
        awaited (?l j) = snt (self (frame_of (?l (other j)))) + 1"
    proof cases
      case 1
      then show ?thesis using m(9-11) X Y by (auto simp: frame_of_put stays_up_def awaited_def)
    next
      case 2
      then show ?thesis using m(9,10,12) X Y by (auto simp: frame_of_put stays_up_def awaited_def)
    qed
  qed
  moreover have "awaited (?l (other i)) = awaited ?y + 1" "awaited (?l i) = awaited ?x"
    using m(9,10) by (simp_all add: stays_up_def awaited_def frame_of_put)
  moreover have "\<forall>j. later (l j) (?l j)"
    using send_later [OF rest(1) m(1)] receive_later [OF rest(2) m(13,2)] by simp
  moreover have "messages (handed ?x (?l i)) = [m]" "messages (handed ?y (?l (other i))) = []"
    using m(5,7,8) by simp_all
  ultimately show ?thesis by blast
qed

lemma pass_all_in_touch:
  assumes "in_touch ts l" and "list_all (\<lambda>(i, m). length m \<le> 22) xs" and "\<forall>i. answers (app i) DATA EVENT_RECV_DATA"
  shows "\<exists>l'. pass_all app xs l = Inr l' \<and> in_touch ts l' \<and>
    (\<forall>i. later (l i) (l' i) \<and> awaited (l' i) = awaited (l i) + word_of_nat (length (of_side (other i) xs)) \<and>
      messages (handed (l i) (l' i)) = of_side i xs)"
  using assms(1,2)
proof (induction xs arbitrary: l)
  case Nil
  then show ?case by simp
next
  case (Cons x xs)
  obtain i m where x: "x = (i, m)" by (cases x)
  have m: "length m \<le> 22" using Cons.prems(2) by (simp add: x)
  obtain l1 where l1: "pass_on app (i, m) l = Inr l1" "in_touch ts l1" "awaited (l1 (other i)) = awaited (l (other i)) + 1"
      "awaited (l1 i) = awaited (l i)" "\<forall>j. later (l j) (l1 j)" "messages (handed (l i) (l1 i)) = [m]"
      "messages (handed (l (other i)) (l1 (other i))) = []"
    using in_touch_step [OF Cons.prems(1) m, of app i] assms(3) by blast
  obtain l' where l': "pass_all app xs l1 = Inr l'" "in_touch ts l'"
      "\<forall>j. later (l1 j) (l' j) \<and> awaited (l' j) = awaited (l1 j) + word_of_nat (length (of_side (other j) xs)) \<and>
        messages (handed (l1 j) (l' j)) = of_side j xs"
    using Cons.IH [OF l1(2)] Cons.prems(2) by (auto simp: x)
  have "later (l j) (l' j) \<and> awaited (l' j) = awaited (l j) + word_of_nat (length (of_side (other j) (x # xs))) \<and>
      messages (handed (l j) (l' j)) = of_side j (x # xs)" for j
  proof -
    have grows: "later (l j) (l1 j)" "later (l1 j) (l' j)" using l1(5) l'(3) by blast+
    note h = handed_later [OF grows]
    consider "j = i" | "j = other i" using side_cases by blast
    then show ?thesis
    proof cases
      case 1
      then show ?thesis using later_trans [OF grows] h l1(4,6) l'(3) by (simp add: x)
    next
      case 2
      then show ?thesis using later_trans [OF grows] h l1(3,7) l'(3) by (simp add: x)
    qed
  qed
  with l1(1) l'(1,2) show ?case by (auto simp: x)
qed

section \<open>Properties\<close>

text \<open>
  C4. Everything arrives when nothing is lost: two processes are initialised, opened and connected
  through the interface, and then asked to send any number of messages of at most 22 bytes, by
  either side in any order, each carried over from \<open>SendSpdu\<close> to \<open>Rass_ReceiveSpdu\<close> when it was sent.
  No call faults, both connections stay up, each side hands exactly the messages it was asked to
  send to \<open>SendSpdu\<close>, in order, and the other side accepts every one of them.
\<close>

theorem all_messages_arrive:
  assumes "wf_world wc" and "wf_world ws" and "\<forall>i. answers (app i) DATA EVENT_RECV_DATA"
    and "answers (app Client) CONNECTION_RESPONSE EVENT_RECV_CONN_RESP"
    and "answers (app Server) CONNECTION_REQUEST EVENT_RECV_CONN_REQ" and "answers (app Server) HEARTBEAT EVENT_RECV_HB"
    and "list_all (\<lambda>(i, m). length m \<le> 22) xs"
  shows "\<exists>c1 s1 s2 c2 s3 l'. started setup_rass_client_init (test_process wc) = Inr c1 \<and>
    started setup_rass_server_init (test_process ws) = Inr s1 \<and>
    perform (receiver (\<lambda>_. app Server)) (Receive_request 0 (last_sent c1)) s1 = Inr (OK, s2) \<and>
    perform (receiver (\<lambda>_. app Client)) (Receive_request 0 (last_sent s2)) c1 = Inr (OK, c2) \<and>
    perform (receiver (\<lambda>_. app Server)) (Receive_request 0 (last_sent c2)) s2 = Inr (OK, s3) \<and>
    pass_all app xs (case_side c2 s3) = Inr l' \<and>
    (\<forall>i. test_state 0 (l' i) = STATE_UP \<and> messages (handed (case_side c2 s3 i) (l' i)) = of_side i xs \<and>
      awaited (l' i) = awaited (case_side c2 s3 i) + word_of_nat (length (of_side (other i) xs)))"
proof -
  obtain c1 s1 s2 c2 s3 ts sm_c sm_s where c: "started setup_rass_client_init (test_process wc) = Inr c1"
      "started setup_rass_server_init (test_process ws) = Inr s1"
      "perform (receiver (\<lambda>_. app Server)) (Receive_request 0 (last_sent c1)) s1 = Inr (OK, s2)"
      "perform (receiver (\<lambda>_. app Client)) (Receive_request 0 (last_sent s2)) c1 = Inr (OK, c2)"
      "perform (receiver (\<lambda>_. app Server)) (Receive_request 0 (last_sent c2)) s2 = Inr (OK, s3)"
    and up: "at_rest c2 sm_c" "at_rest s3 sm_s" "in_step (\<lambda>_. App_SendSpdu 0) ts (quiet (frame_of c2) (frame_of s3))"
    using connect_steps [OF assms(1,2), of "app Client" "app Server"] assms(4-6) by (simp only: event_for.simps) blast
  have "in_touch ts (case_side c2 s3)"
    unfolding in_touch_def
  proof
    fix i
    show "(\<exists>sm. at_rest (case_side c2 s3 i) sm) \<and> sm_state (self (frame_of (case_side c2 s3 i))) = STATE_UP \<and>
        ctsr (self (frame_of (case_side c2 s3 i))) = ts \<and> 0 < Tmax (timeouts (sm_time (self (frame_of (case_side c2 s3 i))))) \<and>
        awaited (case_side c2 s3 i) = snt (self (frame_of (case_side c2 s3 (other i)))) + 1"
      using up by (cases i) (auto simp: in_step_quiet awaited_def)
  qed
  from pass_all_in_touch [OF this assms(7,3)]
  obtain l' where l': "pass_all app xs (case_side c2 s3) = Inr l'" "in_touch ts l'"
      "\<forall>i. awaited (l' i) = awaited (case_side c2 s3 i) + word_of_nat (length (of_side (other i) xs)) \<and>
        messages (handed (case_side c2 s3 i) (l' i)) = of_side i xs" by blast
  have "test_state 0 (l' i) = STATE_UP" for i
    using in_touchD(1,2) [OF l'(2), of i] at_rest_state at_rest_frame(2) by metis
  with c l'(1,3) show ?thesis by blast
qed

theorem all_messages_arrive_witness:
  "\<exists>l l'. pass_all (\<lambda>_. attentive_ReceiveSpdu) [(Client, [1, 2]), (Server, [3]), (Client, [])] l = Inr l' \<and>
    messages (handed (l Client) (l' Client)) = [[1, 2], []] \<and> awaited (l' Server) = awaited (l Server) + 2"
proof -
  have wf: "wf_world sample_world" by (simp add: sample_world_def)
  have ans: "answers attentive_ReceiveSpdu DATA EVENT_RECV_DATA"
      "answers attentive_ReceiveSpdu CONNECTION_RESPONSE EVENT_RECV_CONN_RESP"
      "answers attentive_ReceiveSpdu CONNECTION_REQUEST EVENT_RECV_CONN_REQ" "answers attentive_ReceiveSpdu HEARTBEAT EVENT_RECV_HB"
    using attentive_answers [of DATA] attentive_answers [of CONNECTION_RESPONSE] attentive_answers [of CONNECTION_REQUEST]
      attentive_answers [of HEARTBEAT]
    by simp_all
  have all: "\<forall>i :: side. answers attentive_ReceiveSpdu DATA EVENT_RECV_DATA" using ans(1) by simp
  have "list_all (\<lambda>(i, m). length m \<le> 22) [(Client, [1, 2]), (Server, [3]), (Client, [] :: u8 list)]" by simp
  from all_messages_arrive [where app = "\<lambda>_. attentive_ReceiveSpdu", OF wf wf all ans(2-4) this]
  obtain c2 s3 l' where "pass_all (\<lambda>_. attentive_ReceiveSpdu) [(Client, [1, 2]), (Server, [3]), (Client, [])] (case_side c2 s3) = Inr l'"
      and h: "\<forall>i. messages (handed (case_side c2 s3 i) (l' i)) = of_side i [(Client, [1, 2]), (Server, [3]), (Client, [])] \<and>
        awaited (l' i) = awaited (case_side c2 s3 i) + word_of_nat (length (of_side (other i) [(Client, [1, 2]), (Server, [3]), (Client, [])]))"
    by blast
  moreover have "messages (handed (case_side c2 s3 Client) (l' Client)) = [[1, 2], []]"
      "awaited (l' Server) = awaited (case_side c2 s3 Server) + 2"
    using h [rule_format, of Client] h [rule_format, of Server] by simp_all
  ultimately show ?thesis by blast
qed

end
