(* ===== verification/Test_Machine.thy ===== *)
theory Test_Machine
  imports Test_Suites
begin

text \<open>
  The test programs that work on the state machine directly: \<open>test_sm_connection.c\<close>, and the loop of
  \<open>test_timeout.c\<close> that plays the timers of an opened connection.
\<close>

section \<open>test\_sm\_connection.c\<close>

text \<open>The two static connections and the memory. Each test has a zeroed PDU of its own.\<close>

record sm_tests =
  sm_server :: SmType
  sm_client :: SmType
  sm_world :: world

definition sm_tests_initial :: "world \<Rightarrow> sm_tests" where
  "sm_tests_initial w = \<lparr>sm_server = zero_sm\<lparr>channel := 0, sm_role := ROLE_SERVER, sm_state := STATE_CLOSED, vtable := None\<rparr>,
     sm_client = zero_sm\<lparr>channel := 0, sm_role := ROLE_CLIENT, sm_state := STATE_CLOSED, vtable := None\<rparr>, sm_world = w\<rparr>"

definition server_step :: "(frame \<Rightarrow> frame outcome) list \<Rightarrow> State \<Rightarrow> sm_tests \<Rightarrow> (bool \<times> sm_tests) outcome" where
  "server_step calls expected st =
     bindE (run calls \<lparr>self = sm_server st, pdu_of = zero_pdu, mem = sm_world st\<rparr>) (\<lambda>c.
     Inr (sm_state (self c) = expected, st\<lparr>sm_server := self c, sm_world := mem c\<rparr>))"

definition client_step :: "(frame \<Rightarrow> frame outcome) list \<Rightarrow> State \<Rightarrow> sm_tests \<Rightarrow> (bool \<times> sm_tests) outcome" where
  "client_step calls expected st =
     bindE (run calls \<lparr>self = sm_client st, pdu_of = zero_pdu, mem = sm_world st\<rparr>) (\<lambda>c.
     Inr (sm_state (self c) = expected, st\<lparr>sm_client := self c, sm_world := mem c\<rparr>))"

definition test_sm_client_init :: "sm_tests \<Rightarrow> (bool \<times> sm_tests) outcome" where
  "test_sm_client_init = client_step [\<lambda>c. Inr (c\<lparr>self := Sm_Init (self c)\<rparr>)] STATE_CLOSED"

definition test_sm_client_init_to_open :: "sm_tests \<Rightarrow> (bool \<times> sm_tests) outcome" where
  "test_sm_client_init_to_open = client_step [Sm_HandleEvent EVENT_OPEN_CONN] STATE_START"

definition test_sm_server_init :: "sm_tests \<Rightarrow> (bool \<times> sm_tests) outcome" where
  "test_sm_server_init = server_step [\<lambda>c. Inr (c\<lparr>self := Sm_Init (self c)\<rparr>)] STATE_CLOSED"

definition test_sm_server_init_to_open :: "sm_tests \<Rightarrow> (bool \<times> sm_tests) outcome" where
  "test_sm_server_init_to_open = server_step [Sm_HandleEvent EVENT_OPEN_CONN] STATE_DOWN"

definition test_sm_server_conn_req :: "sm_tests \<Rightarrow> (bool \<times> sm_tests) outcome" where
  "test_sm_server_conn_req = server_step [ConnReq, Sm_HandleEvent EVENT_RECV_CONN_REQ] STATE_START"

definition test_sm_client_conn_resp :: "sm_tests \<Rightarrow> (bool \<times> sm_tests) outcome" where
  "test_sm_client_conn_resp = client_step [ConnResp, Sm_HandleEvent EVENT_RECV_CONN_RESP] STATE_UP"

definition test_sm_server_heartbeat :: "sm_tests \<Rightarrow> (bool \<times> sm_tests) outcome" where
  "test_sm_server_heartbeat = server_step [HB, Sm_HandleEvent EVENT_RECV_HB] STATE_UP"

definition test_sm_client_close_conn :: "sm_tests \<Rightarrow> (bool \<times> sm_tests) outcome" where
  "test_sm_client_close_conn = client_step [Sm_HandleEvent EVENT_CLOSE_CONN] STATE_CLOSED"

definition test_sm_server_disc_req :: "sm_tests \<Rightarrow> (bool \<times> sm_tests) outcome" where
  "test_sm_server_disc_req = server_step [DiscReq USER_REQUEST 0, Sm_HandleEvent EVENT_RECV_DISC_REQ] STATE_CLOSED"

definition test_sm_connection :: "(sm_tests \<Rightarrow> (bool \<times> sm_tests) outcome) list" where
  "test_sm_connection = [test_sm_client_init, test_sm_server_init, test_sm_server_init_to_open,
     test_sm_client_init_to_open, test_sm_server_conn_req, test_sm_client_conn_resp,
     test_sm_server_heartbeat, test_sm_client_close_conn, test_sm_server_disc_req]"

section \<open>The loop of test\_timeout.c\<close>

text \<open>
  One turn: the timer \<open>Ti\<close> counts down, the clock is read, and the timer events are raised; when the
  clock shows 5, the connection receives a heartbeat of its own. The busy waiting has no effect.
\<close>

definition read_Tlocal :: "frame \<Rightarrow> (u32 \<times> frame) outcome" where
  "read_Tlocal c = bindE (call_Tlocal (self c) (mem c)) (\<lambda>(now, w). Inr (now, c\<lparr>mem := w\<rparr>))"

definition count_Ti :: "frame \<Rightarrow> frame" where
  "count_Ti c = c\<lparr>self := (self c)\<lparr>sm_time := (sm_time (self c))\<lparr>Ti := Ti (sm_time (self c)) - 1\<rparr>\<rparr>\<rparr>"

definition elapsed_turn :: "frame \<Rightarrow> frame outcome" where
  "elapsed_turn c =
     bindE (read_Tlocal (count_Ti c)) (\<lambda>(now, c).
     let th = Th (timeouts (sm_time (self c))) in
     bindE (if th = 0 then Inl Zero_Division
        else if now mod th = 0 then Sm_HandleEvent EVENT_TH_ELAPSED c else Inr c) (\<lambda>c.
     bindE (if Ti (sm_time (self c)) \<le> 0 then Sm_HandleEvent EVENT_TI_ELAPSED c else Inr c) (\<lambda>c.
     bindE (read_Tlocal c) (\<lambda>(now, c).
     if now = 5 then run [HB, Sm_HandleEvent EVENT_RECV_HB] c else Inr c))))"

partial_function (option) elapsed_loop :: "frame \<Rightarrow> frame outcome option" where
  "elapsed_loop c =
     (if sm_state (self c) = STATE_CLOSED then Some (Inr c)
      else case elapsed_turn c of Inl e \<Rightarrow> Some (Inl e) | Inr c' \<Rightarrow> elapsed_loop c')"

definition test_elapsed_time :: "lib \<Rightarrow> (bool \<times> lib) outcome option" where
  "test_elapsed_time lib =
     (case elapsed_loop \<lparr>self = sm_arrays lib 0 ! 0, pdu_of = zero_pdu, mem = wmem lib\<rparr> of None \<Rightarrow> None
      | Some r \<Rightarrow> Some (bindE r (\<lambda>c.
          Inr (sm_state (self c) = STATE_CLOSED,
            lib\<lparr>wmem := mem c, sm_arrays := (sm_arrays lib)(0 := (sm_arrays lib 0)[0 := self c])\<rparr>))))"

definition timeout_expects :: "u32 \<Rightarrow> State option" where
  "timeout_expects t = (if t = message_code CONNECTION_REQUEST then Some STATE_START else None)"

text \<open>The group: the tests that open the connection, then the loop.\<close>

definition test_timeout :: "PDU_S \<Rightarrow> lib \<Rightarrow> (bool list \<times> lib) outcome option" where
  "test_timeout junk lib =
     (case run_tests [test_rass_init setup_rass_server_init, test_rass_open_connection STATE_DOWN,
        with_setup (setup_conn_req junk) (test_rass_receive_spdu server_ReceiveSpdu timeout_expects)] lib of
       Inl e \<Rightarrow> Some (Inl e)
     | Inr (results, lib) \<Rightarrow> (case test_elapsed_time lib of None \<Rightarrow> None
         | Some r \<Rightarrow> Some (bindE r (\<lambda>(passed, lib). Inr (results @ [passed], lib)))))"

section \<open>test.c\<close>

text \<open>
  The exit code: \<open>return_value\<close> starts as -1, and the result of the one group that is not commented
  out, which cmocka counts, is put in with a bitwise or. So it is -1 whatever the group's result is.
\<close>

definition test_main :: "i32 \<Rightarrow> i32" where
  "test_main test_timeout_result = - 1 OR test_timeout_result"

lemma test_main_fails: "test_main r = - 1"
  by (simp add: test_main_def)

section \<open>A turn of the loop\<close>

text \<open>What every step of a turn keeps.\<close>

definition goes_on :: "send_fn \<Rightarrow> frame \<Rightarrow> frame \<Rightarrow> bool" where
  "goes_on f c c' \<longleftrightarrow> operational f c' \<and> consistent (self c') \<and> same_environment (mem c) (mem c') \<and>
     Th (timeouts (sm_time (self c'))) = Th (timeouts (sm_time (self c))) \<and> clock_calls (mem c) \<le> clock_calls (mem c')"

lemma goes_on_refl: "operational f c \<Longrightarrow> consistent (self c) \<Longrightarrow> goes_on f c c"
  by (simp add: goes_on_def)

lemma goes_on_trans: "goes_on f a b \<Longrightarrow> goes_on f b c \<Longrightarrow> goes_on f a c"
  by (auto simp: goes_on_def intro: same_environment_trans)

lemma goes_onD:
  assumes "goes_on f c c'"
  shows "operational f c'" and "consistent (self c')" and "\<And>k. reading (mem c') k = reading (mem c) k"
    and "Th (timeouts (sm_time (self c'))) = Th (timeouts (sm_time (self c)))" and "clock_calls (mem c) \<le> clock_calls (mem c')"
  using assms by (simp_all add: goes_on_def same_environment_def reading_def)

lemma turn_events:
  "EVENT_TH_ELAPSED \<in> {EVENT_TH_ELAPSED, EVENT_TI_ELAPSED, EVENT_RECV_HB}"
  "EVENT_TI_ELAPSED \<in> {EVENT_TH_ELAPSED, EVENT_TI_ELAPSED, EVENT_RECV_HB}"
  "EVENT_RECV_HB \<in> {EVENT_TH_ELAPSED, EVENT_TI_ELAPSED, EVENT_RECV_HB}"
  by simp_all

lemma event_goes_on:
  assumes "operational f c" and "consistent (self c)" and "event \<in> {EVENT_TH_ELAPSED, EVENT_TI_ELAPSED, EVENT_RECV_HB}"
  obtains c' where "Sm_HandleEvent event c = Inr c'" and "goes_on f c c'" and "follows (planned c event) f c c'"
proof -
  have "admissible event c" using assms(3) by (auto simp: admissible_def)
  then obtain c' where c': "Sm_HandleEvent event c = Inr c'" "follows (planned c event) f c c'"
    by (rule event_step [OF assms(1,2)])
  with that [OF c'(1) _ c'(2)] followsD(1-3,5) [OF c'(2)] follows_kept [OF c'(2)] show thesis
    by (simp add: goes_on_def)
qed

lemma HB_goes_on:
  assumes "operational f c" and "consistent (self c)"
  obtains c' where "HB c = Inr c'" and "goes_on f c c'"
proof -
  have "ready c" using assms(1) by (simp add: operational_def)
  from heartbeat.build_law [OF this] obtain pdu w' where hb: "HB c = Inr (c\<lparr>self := counted True (self c), pdu_of := pdu, mem := w'\<rparr>)"
      "safety_code pdu = Ptr Dead_frame 0" "built [] pdu (mem c) w'"
    by (auto simp: Let_def)
  let ?c = "c\<lparr>self := counted True (self c), pdu_of := pdu, mem := w'\<rparr>"
  have w: "same_environment (mem c) w'" "wf_world w'" "clock_calls w' = Suc (clock_calls (mem c))"
    using hb(3) by (simp_all add: built_def)
  have "operational f ?c" by (rule operational_cong [OF assms(1)]) (simp_all add: w hb(2))
  then have "goes_on f c ?c" using assms(2) w by (simp add: goes_on_def consistent_def)
  with hb(1) that show thesis by blast
qed

lemma read_goes_on:
  assumes "operational f c" and "consistent (self c)"
  obtains c' where "read_Tlocal c = Inr (reading (mem c) (clock_calls (mem c)), c')" and "goes_on f c c'"
    and "self c' = self c" and "clock_calls (mem c') = Suc (clock_calls (mem c))"
proof -
  let ?c = "c\<lparr>mem := (mem c)\<lparr>clock_calls := Suc (clock_calls (mem c))\<rparr>\<rparr>"
  have clock: "Tlocal (sm_time (self c)) \<noteq> None" using assms(1) by (simp add: operational_def ready_def)
  have "operational f ?c"
    by (rule operational_cong [OF assms(1)])
       (use assms(1) in \<open>simp_all add: same_environment_def operational_def ready_def wf_world_def\<close>)
  then have "goes_on f c ?c" using assms(2) by (simp add: goes_on_def same_environment_def)
  with that [of ?c] show thesis by (simp add: read_Tlocal_def Tlocal_set [OF clock])
qed

lemma count_goes_on:
  assumes "operational f c" and "consistent (self c)"
  shows "goes_on f c (count_Ti c)"
  using assms by (simp add: goes_on_def count_Ti_def operational_def ready_def attached_def consistent_def)

text \<open>The heartbeat and the inactivity event of a turn.\<close>

lemma TH_goes_on:
  assumes "operational f c" and "consistent (self c)"
  obtains c' where "(if now mod th = 0 then Sm_HandleEvent EVENT_TH_ELAPSED c else Inr c) = Inr c'" and "goes_on f c c'"
    and "Ti (sm_time (self c')) = Ti (sm_time (self c))"
proof (cases "now mod th = 0")
  case True
  obtain c' where c': "Sm_HandleEvent EVENT_TH_ELAPSED c = Inr c'" "goes_on f c c'" "follows (planned c EVENT_TH_ELAPSED) f c c'"
    by (rule event_goes_on [OF assms turn_events(1)])
  have "planned c EVENT_TH_ELAPSED \<in> {Ignore, Beat}" by (simp add: plan_event_def)
  with followsD(4) [OF c'(3)] have "Ti (sm_time (self c')) = Ti (sm_time (self c))" by auto
  with that c'(1,2) True show thesis by simp
qed (use that goes_on_refl [OF assms] in simp)

lemma TI_goes_on:
  assumes "operational f c" and "consistent (self c)"
  obtains c' where "(if Ti (sm_time (self c)) \<le> 0 then Sm_HandleEvent EVENT_TI_ELAPSED c else Inr c) = Inr c'" and "goes_on f c c'"
    and "if Ti (sm_time (self c)) = 0 then sm_state (self c') = STATE_CLOSED else self c' = self c"
proof (cases "Ti (sm_time (self c)) = 0")
  case True
  obtain c' where c': "Sm_HandleEvent EVENT_TI_ELAPSED c = Inr c'" "goes_on f c c'" "follows (planned c EVENT_TI_ELAPSED) f c c'"
    by (rule event_goes_on [OF assms turn_events(2)])
  have "sm_state (self c') = STATE_CLOSED" using follows_state [OF c'(3)] by (simp add: plan_event_def)
  with that c'(1,2) True show thesis by simp
qed (use that goes_on_refl [OF assms] in simp)

lemma five_goes_on:
  assumes "operational f c" and "consistent (self c)"
  obtains c' where "(if now = 5 then run [HB, Sm_HandleEvent EVENT_RECV_HB] c else Inr c) = Inr c'" and "goes_on f c c'"
    and "now \<noteq> 5 \<longrightarrow> self c' = self c"
proof (cases "now = 5")
  case True
  obtain c1 where c1: "HB c = Inr c1" "goes_on f c c1" by (rule HB_goes_on [OF assms])
  obtain c2 where c2: "Sm_HandleEvent EVENT_RECV_HB c1 = Inr c2" "goes_on f c1 c2"
    using event_goes_on [OF goes_onD(1,2) [OF c1(2)] turn_events(3)] by blast
  show thesis using that goes_on_trans [OF c1(2) c2(2)] c1(1) c2(1) True by simp
qed (use that goes_on_refl [OF assms] in simp)

lemma turn_goes_on:
  assumes c: "operational f c" "consistent (self c)" and th: "Th (timeouts (sm_time (self c))) \<noteq> 0"
  obtains c' where "elapsed_turn c = Inr c'" and "goes_on f c c'" and "Suc (clock_calls (mem c)) \<le> clock_calls (mem c')"
    and "(\<forall>k \<ge> clock_calls (mem c). reading (mem c) k \<noteq> 5) \<longrightarrow>
      sm_state (self c') = STATE_CLOSED \<or> Ti (sm_time (self c')) = Ti (sm_time (self c)) - 1 \<and> Ti (sm_time (self c')) \<noteq> 0"
proof -
  have c1: "goes_on f c (count_Ti c)" by (rule count_goes_on [OF c])
  have t1: "Ti (sm_time (self (count_Ti c))) = Ti (sm_time (self c)) - 1" "mem (count_Ti c) = mem c" by (simp_all add: count_Ti_def)
  obtain c2 where c2: "read_Tlocal (count_Ti c) = Inr (reading (mem c) (clock_calls (mem c)), c2)" "goes_on f (count_Ti c) c2"
      "self c2 = self (count_Ti c)" "clock_calls (mem c2) = Suc (clock_calls (mem c))"
    using read_goes_on [OF goes_onD(1,2) [OF c1]] unfolding t1(2) by metis
  note g2 = goes_on_trans [OF c1 c2(2)]
  let ?th = "Th (timeouts (sm_time (self c2)))"
  have th2: "?th \<noteq> 0" using th goes_onD(4) [OF g2] by simp
  obtain c3 where c3: "(if reading (mem c) (clock_calls (mem c)) mod ?th = 0 then Sm_HandleEvent EVENT_TH_ELAPSED c2 else Inr c2) = Inr c3"
      "goes_on f c2 c3" "Ti (sm_time (self c3)) = Ti (sm_time (self c2))"
    by (rule TH_goes_on [OF goes_onD(1,2) [OF g2]])
  note g3 = goes_on_trans [OF g2 c3(2)]
  obtain c4 where c4: "(if Ti (sm_time (self c3)) \<le> 0 then Sm_HandleEvent EVENT_TI_ELAPSED c3 else Inr c3) = Inr c4" "goes_on f c3 c4"
      "if Ti (sm_time (self c3)) = 0 then sm_state (self c4) = STATE_CLOSED else self c4 = self c3"
    by (rule TI_goes_on [OF goes_onD(1,2) [OF g3]])
  note g4 = goes_on_trans [OF g3 c4(2)]
  obtain c5 where c5: "read_Tlocal c4 = Inr (reading (mem c4) (clock_calls (mem c4)), c5)" "goes_on f c4 c5"
      "self c5 = self c4" "clock_calls (mem c5) = Suc (clock_calls (mem c4))"
    by (rule read_goes_on [OF goes_onD(1,2) [OF g4]])
  note g5 = goes_on_trans [OF g4 c5(2)]
  let ?now = "reading (mem c4) (clock_calls (mem c4))"
  obtain c6 where c6: "(if ?now = 5 then run [HB, Sm_HandleEvent EVENT_RECV_HB] c5 else Inr c5) = Inr c6" "goes_on f c5 c6"
      "?now \<noteq> 5 \<longrightarrow> self c6 = self c5"
    by (rule five_goes_on [OF goes_onD(1,2) [OF g5]])
  note g6 = goes_on_trans [OF g5 c6(2)]
  have "elapsed_turn c = Inr c6"
    unfolding elapsed_turn_def Let_def by (simp only: c2(1) c3(1) c4(1) c5(1) c6(1) bindE_simps prod.case if_False th2)
  moreover have "Suc (clock_calls (mem c)) \<le> clock_calls (mem c6)"
    using c2(4) goes_onD(5) [OF c3(2)] goes_onD(5) [OF c4(2)] goes_onD(5) [OF c5(2)] goes_onD(5) [OF c6(2)] by linarith
  moreover have "sm_state (self c6) = STATE_CLOSED \<or> Ti (sm_time (self c6)) = Ti (sm_time (self c)) - 1 \<and> Ti (sm_time (self c6)) \<noteq> 0"
    if never: "\<forall>k \<ge> clock_calls (mem c). reading (mem c) k \<noteq> 5"
  proof -
    have "?now \<noteq> 5" using never goes_onD(5) [OF g4] goes_onD(3) [OF g4] by simp
    then have "self c6 = self c4" using c6(3) c5(3) by simp
    with c4(3) show ?thesis by (simp add: c3(3) c2(3) t1 split: if_splits)
  qed
  ultimately show thesis using that g6 by blast
qed

section \<open>The loop ends\<close>

text \<open>Once the clock no longer shows 5, each turn counts the timer down, and zero closes.\<close>

lemma loop_counts_down:
  assumes "operational f c" and "consistent (self c)" and "Th (timeouts (sm_time (self c))) \<noteq> 0"
    and "\<forall>k \<ge> clock_calls (mem c). reading (mem c) k \<noteq> 5"
  shows "\<exists>c'. elapsed_loop c = Some (Inr c') \<and> sm_state (self c') = STATE_CLOSED \<and> goes_on f c c'"
  using assms
proof (induction "unat (Ti (sm_time (self c)) - 1)" arbitrary: c rule: less_induct)
  case less
  show ?case
  proof (cases "sm_state (self c) = STATE_CLOSED")
    case True
    then have "elapsed_loop c = Some (Inr c)" by (simp add: elapsed_loop.simps)
    with True goes_on_refl [OF less.prems(1,2)] show ?thesis by blast
  next
    case False
    obtain d where d: "elapsed_turn c = Inr d" "goes_on f c d" "Suc (clock_calls (mem c)) \<le> clock_calls (mem d)"
        "(\<forall>k \<ge> clock_calls (mem c). reading (mem c) k \<noteq> 5) \<longrightarrow>
          sm_state (self d) = STATE_CLOSED \<or> Ti (sm_time (self d)) = Ti (sm_time (self c)) - 1 \<and> Ti (sm_time (self d)) \<noteq> 0"
      by (rule turn_goes_on [OF less.prems(1-3)])
    have step: "elapsed_loop c = elapsed_loop d" using False d(1) by (simp add: elapsed_loop.simps [of c])
    note g = goes_onD [OF d(2)]
    have th: "Th (timeouts (sm_time (self d))) \<noteq> 0" and never: "\<forall>k \<ge> clock_calls (mem d). reading (mem d) k \<noteq> 5"
      using less.prems(3,4) g(3-5) by auto
    show ?thesis
    proof (cases "sm_state (self d) = STATE_CLOSED")
      case True
      then have "elapsed_loop d = Some (Inr d)" by (simp add: elapsed_loop.simps)
      with True d(2) step show ?thesis by auto
    next
      case False
      then have Ti: "Ti (sm_time (self d)) = Ti (sm_time (self c)) - 1" "Ti (sm_time (self d)) \<noteq> 0" using d(4) less.prems(4) by auto
      have "unat (Ti (sm_time (self d)) - 1) < unat (Ti (sm_time (self c)) - 1)"
        using Ti(2) unfolding Ti(1) [symmetric] by (simp add: unat_minus_one unat_gt_0)
      from less.hyps [OF this g(1,2) th never] obtain c' where
        "elapsed_loop d = Some (Inr c')" "sm_state (self c') = STATE_CLOSED" "goes_on f d c'" by blast
      with step goes_on_trans [OF d(2)] show ?thesis by auto
    qed
  qed
qed

lemma loop_ends:
  assumes "operational f c" and "consistent (self c)" and "Th (timeouts (sm_time (self c))) \<noteq> 0"
    and "\<forall>k \<ge> n. reading (mem c) k \<noteq> 5"
  shows "\<exists>c'. elapsed_loop c = Some (Inr c') \<and> sm_state (self c') = STATE_CLOSED \<and> goes_on f c c'"
  using assms
proof (induction "n - clock_calls (mem c)" arbitrary: c rule: less_induct)
  case less
  show ?case
  proof (cases "n \<le> clock_calls (mem c) \<or> sm_state (self c) = STATE_CLOSED")
    case True
    then show ?thesis
    proof
      assume "n \<le> clock_calls (mem c)"
      with less.prems show ?thesis by (intro loop_counts_down) auto
    next
      assume closed: "sm_state (self c) = STATE_CLOSED"
      then have "elapsed_loop c = Some (Inr c)" by (simp add: elapsed_loop.simps)
      with closed goes_on_refl [OF less.prems(1,2)] show ?thesis by blast
    qed
  next
    case False
    obtain d where d: "elapsed_turn c = Inr d" "goes_on f c d" "Suc (clock_calls (mem c)) \<le> clock_calls (mem d)"
      using turn_goes_on [OF less.prems(1-3)] by metis
    have step: "elapsed_loop c = elapsed_loop d" using False d(1) by (simp add: elapsed_loop.simps [of c])
    note g = goes_onD [OF d(2)]
    have th: "Th (timeouts (sm_time (self d))) \<noteq> 0" and later: "\<forall>k \<ge> n. reading (mem d) k \<noteq> 5"
      using less.prems(3,4) g(3,4) by simp_all
    have "n - clock_calls (mem d) < n - clock_calls (mem c)" using False d(3) by linarith
    from less.hyps [OF this g(1,2) th later] obtain c' where
      "elapsed_loop d = Some (Inr c')" "sm_state (self c') = STATE_CLOSED" "goes_on f d c'" by blast
    with step goes_on_trans [OF d(2)] show ?thesis by auto
  qed
qed

section \<open>Properties\<close>

lemma elapsed_test_passes:
  assumes "at_rest lib sm" and "Th (timeouts (sm_time sm)) \<noteq> 0" and "\<forall>k \<ge> n. reading (wmem lib) k \<noteq> 5"
  shows "\<exists>lib' sm'. test_elapsed_time lib = Some (Inr (True, lib')) \<and> at_rest lib' sm' \<and> sm_state sm' = STATE_CLOSED"
proof -
  let ?c = "\<lparr>self = sm, pdu_of = zero_pdu, mem = wmem lib\<rparr>"
  have "operational (App_SendSpdu 0) ?c" "consistent (self ?c)" using assms(1) by (simp_all add: at_rest_def)
  from loop_ends [OF this, of n] assms(2,3) obtain c' where c': "elapsed_loop ?c = Some (Inr c')"
      "sm_state (self c') = STATE_CLOSED" "goes_on (App_SendSpdu 0) ?c c'"
    by auto
  have arr: "sm_arrays lib 0 = [sm]" using assms(1) by (simp add: at_rest_def)
  have env: "vtables (mem c') = vtables (wmem lib)" using c'(3) by (simp add: goes_on_def same_environment_def)
  have "at_rest (put (self c') (mem c') lib) (self c')"
    by (rule at_rest_put [OF assms(1) goes_onD(1,2) [OF c'(3)] env])
  moreover have "test_elapsed_time lib = Some (Inr (True, put (self c') (mem c') lib))"
    using c'(1,2) by (simp add: test_elapsed_time_def arr put_def)
  ultimately show ?thesis using c'(2) by blast
qed

text \<open>
  C20. The time-out test ends: on a fresh process the connection is opened, and the loop that waits for
  it to close comes back, with all assertions satisfied, for every clock that shows the value 5
  only finitely often - while it shows 5, the loop keeps the connection alive with heartbeats.
\<close>

theorem timeout_test_ends:
  assumes "wf_world w" and "\<And>v. wf_world v \<Longrightarrow> code_live v junk" and "\<forall>k \<ge> n. reading w k \<noteq> 5"
  shows "\<exists>lib. test_timeout junk (test_process w) = Some (Inr (replicate 4 True, lib)) \<and> test_state 0 lib = STATE_CLOSED"
proof -
  obtain a sa where a: "test_rass_init setup_rass_server_init (test_process w) = Inr (True, a)" "stands w a ROLE_SERVER STATE_CLOSED sa"
    unfolding setup_rass_server_init_def by (rule init_passes [OF assms(1)])
  obtain b sb where b: "test_rass_open_connection STATE_DOWN a = Inr (True, b)" "stands w b ROLE_SERVER STATE_DOWN sb"
      "alike (wmem b) (wmem a)"
    using open_passes [OF a(2)] by auto
  have expects: "timeout_expects (message_code CONNECTION_REQUEST) = Some STATE_START" by (simp add: timeout_expects_def)
  have junk: "code_live (wmem b) junk" by (rule assms(2)) (use b(2) at_rest_wf in \<open>auto simp: stands_def\<close>)
  obtain c sc where c: "with_setup (setup_conn_req junk) (test_rass_receive_spdu server_ReceiveSpdu timeout_expects) b = Inr (True, c)"
      "stands w c ROLE_SERVER STATE_START sc"
    using conn_req_passes [where expected = timeout_expects, OF b(2) junk expects] by blast
  have "reading (wmem c) k = reading w k" for k using c(2) by (simp add: stands_def reading_def)
  then obtain d sd where d: "test_elapsed_time c = Some (Inr (True, d))" "at_rest d sd" "sm_state sd = STATE_CLOSED"
    using elapsed_test_passes [of c sc n] c(2) assms(3) by (auto simp: stands_def)
  have "run_tests [test_rass_init setup_rass_server_init, test_rass_open_connection STATE_DOWN,
      with_setup (setup_conn_req junk) (test_rass_receive_spdu server_ReceiveSpdu timeout_expects)] (test_process w) =
      Inr ([True, True, True], c)"
    by (simp only: run_tests.simps a(1) b(1) c(1) bindE_simps prod.case)
  then have "test_timeout junk (test_process w) = Some (Inr ([True, True, True] @ [True], d))"
    by (simp only: test_timeout_def d(1) sum.case prod.case option.case bindE_simps)
  moreover have "[True, True, True] @ [True] = replicate 4 True" by code_simp
  ultimately show ?thesis using at_rest_state [OF d(2)] d(3) by auto
qed

theorem timeout_test_ends_witness:
  "\<exists>lib. test_timeout zero_pdu (test_process sample_world) = Some (Inr (replicate 4 True, lib)) \<and> test_state 0 lib = STATE_CLOSED"
proof -
  have "wf_world sample_world" by (simp add: sample_world_def)
  moreover have "\<forall>k \<ge> 0. reading sample_world k \<noteq> 5"
    by (simp add: sample_world_def initial_world_def reading_def)
  ultimately show ?thesis using timeout_test_ends [of sample_world zero_pdu 0] by simp
qed

text \<open>
  C35. The tests of \<open>test_sm_connection.c\<close> cannot be run to their end: the first three pass, the fourth
  opens the client, whose clock was never installed, and calls a null function pointer.
\<close>

theorem sm_connection_tests_fault:
  "(\<exists>st. run_tests (take 3 test_sm_connection) (sm_tests_initial w) = Inr ([True, True, True], st)) \<and>
   run_tests test_sm_connection (sm_tests_initial w) = Inl Null_Call"
proof -
  define st1 where "st1 = (sm_tests_initial w)\<lparr>sm_client := Sm_Init (sm_client (sm_tests_initial w))\<rparr>"
  define st2 where "st2 = st1\<lparr>sm_server := Sm_Init (sm_server st1)\<rparr>"
  have one: "test_sm_client_init (sm_tests_initial w) = Inr (True, st1)"
    by (simp add: test_sm_client_init_def client_step_def sm_tests_initial_def st1_def Sm_Init_def set_initial_values_def Let_def)
  have two: "test_sm_server_init st1 = Inr (True, st2)"
    by (simp add: test_sm_server_init_def server_step_def sm_tests_initial_def st1_def st2_def Sm_Init_def set_initial_values_def Let_def)
  obtain v w' where r: "snt_rand_value w = (v, w')" by fastforce
  have "\<exists>st3. test_sm_server_init_to_open st2 = Inr (True, st3) \<and> sm_client st3 = sm_client st1"
    by (simp add: r test_sm_server_init_to_open_def server_step_def sm_tests_initial_def st1_def st2_def Sm_Init_def set_initial_values_def
        Let_def Sm_HandleEvent_def call_handle_event_def handle_closed_def step_defs timer_events_def update_handler_def)
  then obtain st3 where three: "test_sm_server_init_to_open st2 = Inr (True, st3)" "sm_client st3 = sm_client st1" by blast
  have "handle_event (sm_client st1) = Some handle_closed_fn" "sm_role (sm_client st1) = ROLE_CLIENT"
      "sm_state (sm_client st1) = STATE_CLOSED" "Tlocal (sm_time (sm_client st1)) = None"
    by (simp_all add: st1_def sm_tests_initial_def Sm_Init_def set_initial_values_def Let_def zero_sm_def zero_time_def)
  then have four: "test_sm_client_init_to_open st3 = Inl Null_Call"
    by (simp add: test_sm_client_init_to_open_def client_step_def three(2) Sm_HandleEvent_def call_handle_event_def handle_closed_def
        step_defs Tlocal_unset split_beta Let_def)
  show ?thesis
    by (simp add: test_sm_connection_def one two three(1) four numeral_3_eq_3)
qed

end
