(* ===== verification/Spec2Isabelle.thy ===== *)
theory Spec2Isabelle
  imports Log Md4_Portable Start_Numbers Connections Conversation Test_Machine
begin

text \<open>
  Verification of the RaSTA safety layer in \<open>rasta_s\<close>.

  \<^bold>\<open>The program.\<close> The library (\<open>safecom/\<close>) keeps up safe connections for an application: the modules
  \<open>Rass\<close> and \<open>Sic\<close> (\<open>rass.c\<close>, \<open>sic.c\<close>) are two instances of the same interface (\<open>safecom.c\<close>,
  \<open>safecom_impl.c\<close>). Each call of the interface becomes an event of the state machine of one
  connection (\<open>sm.c\<close>), whose handlers build protocol data units (\<open>pdu.c\<close>) with a safety code
  computed by MD4 (\<open>md4.c\<close>) and time stamps from \<open>time_mon.c\<close>, serialise them and hand them to the
  application's callback \<open>SendSpdu\<close>. What is received goes to the callback \<open>ReceiveMsg\<close>, which is
  expected to deserialise it and to raise the event of its type. \<open>src/main.c\<close> opens one connection.

  \<^bold>\<open>The memory.\<close> \<open>Rasta_Types\<close> holds the types of the headers, with the source's field and enumerator
  names (a field or type whose name is taken in HOL has a prefix: \<open>sm_state\<close>, \<open>sm_role\<close>, \<open>sm_time\<close>).
  Machine integers are words of their width, so all arithmetic wraps; an \<open>int32_t\<close> is its bit
  pattern. A pointer is null or a block with an offset, and the \<open>world\<close> holds the blocks: the static
  buffers, the application's arrays, and the stack array of a finished call of \<open>calculate_MD4\<close>. The
  record also fixes, without constraining them, what the program takes from outside: each value of
  \<open>clock()\<close>, each uninitialised byte, and what each read through the dangling pointer yields
  (\<open>decay\<close>). The calls of \<open>SendSpdu\<close> are recorded in \<open>sent\<close>. Every operation returns an \<open>outcome\<close>
  (\<open>Rasta_Prelude\<close>): a result, or the fault that stops it - a failed assertion, which hangs in this
  code base, a null pointer followed or called, an access outside an array. No fuel is used: every
  loop of the library is structural recursion or has a termination proof, and its length is that of
  the data or of the counter it runs over. The one loop that may run for ever, that of the time-out
  test, is a \<open>partial_function\<close> whose value is \<open>None\<close> then; \<open>timeout_test_ends\<close> says when it ends.

  \<^bold>\<open>The theories.\<close>
  \<^item> \<open>Md4\<close> models \<open>md4.c\<close>. \<open>Md4_Reference\<close> states RFC 1320 and the interface of a streaming digest
    (locale \<open>stream_digest\<close>), and proves that the code provides it for any cut of the message into
    updates, and for exactly which sizes \<open>body\<close> comes back. \<open>Md4_Portable\<close> is \<open>body\<close> as machines
    other than x86 build it, through the field \<open>block\<close>, and the proof that both agree.
  \<^item> \<open>Time_Mon\<close> models \<open>time_mon.c\<close> and the call through \<open>time.Tlocal\<close>, with the range of a time stamp.
  \<^item> \<open>Pdu\<close> models \<open>pdu.c\<close> and brings its functions into closed form (\<open>serialize_pdu_spec\<close>,
    \<open>calculate_MD4_spec\<close>). \<open>Telegram\<close> adds reading back (\<open>deserialize_pdu_at\<close>), the telegram of each
    kind (\<open>outgoing\<close>), and the contract that the six constructors other than \<open>Data\<close> share
    (locale \<open>pdu_constructor\<close>), then the properties of the codec: round trip, exact effect, bounds.
    \<open>Wire\<close> is the other direction: what \<open>deserialize_pdu\<close> makes of any bytes, and that writing it out
    again gives the same bytes.
  \<^item> \<open>Sm\<close> models \<open>sm.c\<close>. \<open>Sm_Spec\<close> is its specification: the protocol table (\<open>plan_event\<close>, \<open>after\<close>,
    \<open>says\<close>, \<open>ticks\<close>) and the contract of a handler (locale \<open>state_handler\<close>, interpreted for the six
    handlers), from which \<open>dispatch_any_state\<close> follows: \<open>Sm_HandleEvent\<close> implements the table.
    \<open>Sm_Theorems\<close> derives the invariant over histories of events, the ways into the state UP, the
    reaction to the timers and to retransmission requests, what the peer reads of a telegram that an
    event has sent, and the inputs on which the code faults; \<open>Sm_Closing\<close> what closed and waiting
    connections react to.
  \<^item> \<open>Safecom\<close> models \<open>safecom.c\<close>, \<open>safecom_impl.c\<close>, \<open>rass.c\<close>, \<open>sic.c\<close>, the callbacks of \<open>mock/\<close> and the
    receive callbacks of the tests, over the static state of the library (\<open>lib\<close>).
    \<open>Safecom_Theorems\<close> proves what initialisation sets up and leaves out, the contract the two
    modules share (locale \<open>safecom_module\<close>), and what sending data does on the wire.
  \<^item> \<open>Program\<close> models \<open>main.c\<close>. \<open>Interface\<close> is the library as its application sees it, sequences of calls
    with any received bytes: a well-formed library (\<open>sound_lib\<close>) takes every proper call and stays
    well-formed. \<open>Connections\<close> is about several connections in one library, each with its clock and
    callbacks (\<open>in_order\<close>): what happens on one leaves the others alone. \<open>Start_Numbers\<close>
    counts the openings in such a library (\<open>openings\<close>): the n-th one, on whichever connection, draws
    the n-th number of a fixed sequence, and nothing else draws. \<open>Log\<close> models \<open>log.c\<close> and \<open>log.h\<close>: the level, the macros, and the lines they write.
  \<^item> \<open>Test_Suites\<close> and \<open>Test_Machine\<close> model the test programs in \<open>test/\<close> as runs on a fresh process, and
    prove on which memories they pass or fault, that the loop of the time-out test ends, and which one
    always faults.
  \<^item> \<open>Link\<close> puts a client and a server together by two queues of telegrams (\<open>link_step\<close>), with the
    receive callback of the tests completed for all message types as the application.
    \<open>Link_Theorems\<close> proves the handshake, that a link without losses stays in step (\<open>in_step\<close>), what
    one lost telegram leads to, and how little the safety code, the start number and the supervision
    timer protect; for the safety code it follows a receipt of any bytes (\<open>received_frame\<close>). \<open>Network\<close> replaces the queues by a network that loses, repeats, delays and reorders
    (\<open>net_step\<close>). The locale \<open>sequenced_node\<close> states what a node must provide for its accepted telegrams
    to be an initial part of those the other side sent; the state machine provides it.
    \<open>Processes\<close> connects two whole libraries through their interface and shows that their connections
    are the sides these properties start from. \<open>Delivery\<close> puts such processes, with any receive
    callback that raises the event of a telegram or drops it, on the unreliable network: a process is
    a \<open>sequenced_node\<close> too, and the messages given to \<open>Rass_SendData\<close> on one side are followed to
    where the other side accepts them. \<open>Conversation\<close> is the other half: when nothing is lost, every
    message of both sides arrives, however many there are.

  \<^bold>\<open>Assumptions.\<close> A property about one event assumes \<open>operational\<close> (the clock and a \<open>SendSpdu\<close> callback
  are installed, the static buffers have their size, the safety code pointer of the event's PDU can
  be followed), \<open>consistent\<close> (the handler pointer is that of the state) and \<open>admissible\<close> (a payload
  that the event's handler reads is there). \<open>history_invariant\<close> shows that events keep the first two,
  the properties of the kind error what happens without them. \<open>SendSpdu\<close> is assumed to return and
  not to call the library. The platform is LP64 with 8-bit bytes and \<open>CLOCKS_PER_SEC\<close> 1000000, as on
  every XSI system; assertions are enabled.

  \<^bold>\<open>Bounds.\<close> Messages to be sent have at most 22 bytes, the most that \<open>calculate_MD4\<close> has room for
  (\<open>Data_returns_iff\<close>); a received telegram may be any byte string. \<open>md4_streaming_correct\<close> covers every
  sequence of updates whose sizes fit the 64-bit parameter; the length in the padding is taken
  modulo \<open>2 ^ 64\<close> bits, as the RFC says. The network property holds for fewer than \<open>2 ^ 32\<close> telegrams of a side, after which numbers repeat.

  \<^bold>\<open>Not modelled.\<close> What the library prints with \<open>printf\<close> and \<open>LOG\<close>: it has no effect on its state; \<open>Log\<close>
  takes the local time and the text that \<open>fprintf\<close> makes of a format as parameters. Of cmocka only
  that a group runs its tests in order. \<open>MD4_Update\<close> and \<open>MD4_Final\<close> on machines other than x86: they
  call the other \<open>body\<close> and do not look at \<open>block\<close>, so \<open>builds_agree\<close> is all they need. Two threads
  in the library: its source excludes them. In \<open>Network\<close> a connection that was closed is not opened again; what a
  restart of both processes leads to is \<open>recording_accepted_after_restart\<close>.
\<close>

end
